(* ===== verification/Prelude.thy ===== *)
theory Prelude
  imports Main "HOL-Library.Word"
begin

unbundle bit_operations_syntax

text \<open>
  Shared vocabulary of the development: bytes, the Go integer formatting verbs that the
  program's messages use, the splitting of a byte stream into fixed-size chunks, and the
  generic list lemmas the components rely on.

  Go's \<^verbatim>\<open>int\<close> is modelled by \<^typ>\<open>int\<close> where the code bounds the value far below
  \<open>2^31\<close> (so that neither a 32-bit nor a 64-bit \<^verbatim>\<open>int\<close> can wrap); where the code computes
  with \<^verbatim>\<open>int64\<close> products the wrap-around is written out with \<open>wrap64\<close>. Bytes are
  \<^typ>\<open>8 word\<close>. Strings are byte strings, as in Go.
\<close>

type_synonym byte = "8 word"
type_synonym u16 = "16 word"

text \<open>Collections: \<open>mfi_consts\<close> holds the numeric constants of the program, \<open>decode_simps\<close> the
  equations of the command decoders.\<close>

named_theorems mfi_consts "numeric constants of the program"
named_theorems decode_simps "equations of the command decoders"

section \<open>Formatting verbs\<close>

definition hexDigit :: "nat \<Rightarrow> char" where
  "hexDigit n = ''0123456789abcdef'' ! (n mod 16)"

text \<open>\<^verbatim>\<open>%d\<close> of a non-negative number and \<^verbatim>\<open>%x\<close>, most significant digit first.\<close>

fun showDec :: "nat \<Rightarrow> string" where
  "showDec n = (if n < 10 then [hexDigit n] else showDec (n div 10) @ [hexDigit (n mod 10)])"

fun showHex :: "nat \<Rightarrow> string" where
  "showHex n = (if n < 16 then [hexDigit n] else showHex (n div 16) @ [hexDigit (n mod 16)])"

definition showInt :: "int \<Rightarrow> string" where
  "showInt i = (if i < 0 then ''-'' @ showDec (nat (- i)) else showDec (nat i))"

text \<open>\<^verbatim>\<open>%02x\<close> and \<^verbatim>\<open>%04x\<close>: zero padding on the left.\<close>

definition padLeft :: "nat \<Rightarrow> char \<Rightarrow> string \<Rightarrow> string" where
  "padLeft w c s = replicate (w - length s) c @ s"

definition fmt_02x :: "nat \<Rightarrow> string" where
  "fmt_02x n = padLeft 2 CHR ''0'' (showHex n)"

definition fmt_04x :: "nat \<Rightarrow> string" where
  "fmt_04x n = padLeft 4 CHR ''0'' (showHex n)"

section \<open>Signed 64-bit wrap-around\<close>

definition wrap64 :: "int \<Rightarrow> int" where
  "wrap64 x = (x + 2 ^ 63) mod 2 ^ 64 - 2 ^ 63"

section \<open>Cutting a list into chunks\<close>

text \<open>The slices \<open>stream[offset : min(offset + k, len)]\<close> that a loop over a buffer in steps of
  \<open>k\<close> visits, in order.\<close>

function chunks :: "nat \<Rightarrow> 'a list \<Rightarrow> 'a list list" where
  "chunks k xs = (if k = 0 \<or> xs = [] then [] else take k xs # chunks k (drop k xs))"
  by pat_completeness auto
termination
  by (relation "measure (\<lambda>(k, xs). length xs)") auto

declare showDec.simps [simp del] showHex.simps [simp del] chunks.simps [simp del]

lemma chunks_Nil [simp]: "chunks k [] = []"
  by (simp add: chunks.simps)

lemma chunks_full [simp]:
  "length p = k \<Longrightarrow> 0 < k \<Longrightarrow> chunks k (p @ xs) = p # chunks k xs"
  by (subst chunks.simps) auto

lemma chunks_short: "xs \<noteq> [] \<Longrightarrow> length xs \<le> k \<Longrightarrow> chunks k xs = [xs]"
  by (cases "k = 0") (auto simp: chunks.simps [of k xs])

lemma concat_chunks: "0 < k \<Longrightarrow> concat (chunks k xs) = xs"
proof (induction k xs rule: chunks.induct)
  case (1 k xs)
  then show ?case by (subst chunks.simps) auto
qed

lemma chunks_append:
  "length xs mod k = 0 \<Longrightarrow> 0 < k \<Longrightarrow> chunks k (xs @ ys) = chunks k xs @ chunks k ys"
proof (induction k xs rule: chunks.induct)
  case (1 k xs)
  show ?case
  proof (cases "xs = []")
    case True
    then show ?thesis by simp
  next
    case False
    with 1(2,3) have le: "k \<le> length xs"
      by (metis length_0_conv mod_less not_le)
    then have "(length xs - k) mod k = 0"
      using 1(2) by (simp add: le_mod_geq)
    then have "chunks k (drop k xs @ ys) = chunks k (drop k xs) @ chunks k ys"
      using 1 False by simp
    with False le 1(3) show ?thesis
      by (subst (1 2) chunks.simps) simp
  qed
qed

lemma chunks_lengths:
  assumes "p \<in> set (chunks k xs)" and "0 < k"
  shows "p \<noteq> [] \<and> length p \<le> k"
  using assms
proof (induction k xs rule: chunks.induct)
  case (1 k xs)
  then show ?case
    by (cases "xs = []") (auto simp: chunks.simps [of k xs])
qed

section \<open>Word facts\<close>

lemma wrap64_id: "- (2 ^ 63) \<le> x \<Longrightarrow> x < 2 ^ 63 \<Longrightarrow> wrap64 x = x"
  by (simp add: wrap64_def)

lemma wrap64_range: "- (2 ^ 63) \<le> wrap64 x \<and> wrap64 x < 2 ^ 63"
  using pos_mod_bound [of "2 ^ 64 :: int" "x + 2 ^ 63"]
    pos_mod_sign [of "2 ^ 64 :: int" "x + 2 ^ 63"]
  by (simp add: wrap64_def)

lemma unat_byte_less: "unat (b :: byte) < 256"
  using unsigned_less [of b] by simp

end
