(* ===== verification/GoErrors.thy ===== *)
theory GoErrors
  imports Prelude
begin

text \<open>
  Go error values. A Go error is a chain: every error may wrap another one, \<^verbatim>\<open>errors.Is\<close> and
  \<^verbatim>\<open>errors.As\<close> walk the chain from the outside in, and \<^verbatim>\<open>Error()\<close> renders a message. The program's
  behaviour depends on the chain (which error is retried, which session is dropped, which
  HTTP status is sent), so the chain is modelled as data: one constructor per concrete error
  type that the program creates or inspects.

  The two error structs of the program, \<^verbatim>\<open>transport.Error\<close> (internal/transport/transport.go) and
  \<^verbatim>\<open>chip.Error\<close> (internal/chip/driver.go), are \<open>TransportError\<close> and \<open>ChipError\<close>; the package-level
  sentinels of internal/biz/service.go are \<open>sentinel\<close>. The error codes of the USB library
  carry the text that the library renders for them, since that library is not part of the
  program.
\<close>

datatype transport_kind =
    ErrorInvalidRequest | ErrorDeviceMissing | ErrorPermission | ErrorBusy
  | ErrorTimeout | ErrorNACK | ErrorProtocol | ErrorIO

datatype chip_kind = ErrorInvalidData | ErrorAuthFailed

datatype sentinel =
    ErrChipBusy | ErrChipMissing | ErrRequestIDReuse | ErrChallengeSize | ErrRequestIDFormat

text \<open>The library codes that \<^verbatim>\<open>classifyUSBError\<close> distinguishes; \<open>UsbOther\<close> and \<open>TransferOther\<close>
  stand for the remaining ones.\<close>

datatype gousb_code =
    UsbAccess | UsbBusy | UsbNoDevice | UsbNotFound | UsbTimeout | UsbInvalidParam
  | UsbPipe | UsbOverflow | UsbOther

datatype transfer_status =
    TransferTimedOut | TransferCancelled | TransferNoDevice | TransferStall
  | TransferOverflow | TransferOther

datatype go_error =
    ErrorString string
  | Sentinel sentinel
  | ContextCanceled
  | ContextDeadlineExceeded
  | GousbError gousb_code string
  | GousbTransfer transfer_status string
  | TransportError transport_kind string "go_error option"
  | ChipError chip_kind string "byte option" "go_error option"
  | WrapError string go_error

text \<open>A call returns a value, returns an error, or panics.\<close>

datatype 'a result = Ok 'a | Err go_error | Panic

section \<open>Messages\<close>

fun transport_kind_text :: "transport_kind \<Rightarrow> string" where
  "transport_kind_text ErrorInvalidRequest = ''invalid_request''"
| "transport_kind_text ErrorDeviceMissing = ''device_missing''"
| "transport_kind_text ErrorPermission = ''permission_denied''"
| "transport_kind_text ErrorBusy = ''device_busy''"
| "transport_kind_text ErrorTimeout = ''timeout''"
| "transport_kind_text ErrorNACK = ''nack''"
| "transport_kind_text ErrorProtocol = ''protocol''"
| "transport_kind_text ErrorIO = ''io''"

fun chip_kind_text :: "chip_kind \<Rightarrow> string" where
  "chip_kind_text ErrorInvalidData = ''invalid_data''"
| "chip_kind_text ErrorAuthFailed = ''auth_failed''"

fun sentinel_text :: "sentinel \<Rightarrow> string" where
  "sentinel_text ErrChipBusy = ''chip busy, retry''"
| "sentinel_text ErrChipMissing = ''chip missing''"
| "sentinel_text ErrRequestIDReuse = ''requestId reuse with different challenge''"
| "sentinel_text ErrChallengeSize = ''challenge must be 1..128 bytes''"
| "sentinel_text ErrRequestIDFormat = ''requestId must be a UUID''"

text \<open>\<^verbatim>\<open>err.Error()\<close>: the methods \<^verbatim>\<open>(*transport.Error).Error\<close> and \<^verbatim>\<open>(*chip.Error).Error\<close>, the texts
  of the sentinels, and the stored message of \<^verbatim>\<open>fmt.Errorf\<close> errors.\<close>

definition transport_error_text :: "transport_kind \<Rightarrow> string \<Rightarrow> string option \<Rightarrow> string" where
  "transport_error_text kind operation wrapped =
     (case wrapped of
        Some text \<Rightarrow> operation @ '': '' @ text
      | None \<Rightarrow> operation @ '': '' @ transport_kind_text kind)"

definition chip_error_text :: "chip_kind \<Rightarrow> string \<Rightarrow> byte option \<Rightarrow> string option \<Rightarrow> string" where
  "chip_error_text kind operation code wrapped =
     (case code of
        Some c \<Rightarrow> operation @ '' failed with MFi error 0x'' @ fmt_02x (unat c)
      | None \<Rightarrow>
          (case wrapped of
             Some text \<Rightarrow> operation @ '': '' @ text
           | None \<Rightarrow> operation @ '': '' @ chip_kind_text kind))"

fun error_text :: "go_error \<Rightarrow> string" where
  "error_text (ErrorString s) = s"
| "error_text (Sentinel s) = sentinel_text s"
| "error_text ContextCanceled = ''context canceled''"
| "error_text ContextDeadlineExceeded = ''context deadline exceeded''"
| "error_text (GousbError c s) = s"
| "error_text (GousbTransfer c s) = s"
| "error_text (TransportError k op w) = transport_error_text k op (map_option error_text w)"
| "error_text (ChipError k op c w) = chip_error_text k op c (map_option error_text w)"
| "error_text (WrapError m e) = m"

lemma transport_error_text_simps [simp]:
  "transport_error_text k op (Some s) = op @ '': '' @ s"
  "transport_error_text k op None = op @ '': '' @ transport_kind_text k"
  by (simp_all add: transport_error_text_def)

lemma transport_error_text_nonempty [simp]: "transport_error_text k op w \<noteq> []"
  by (cases w) simp_all

lemma chip_error_text_simps [simp]:
  "chip_error_text k op (Some c) w = op @ '' failed with MFi error 0x'' @ fmt_02x (unat c)"
  "chip_error_text k op None (Some s) = op @ '': '' @ s"
  "chip_error_text k op None None = op @ '': '' @ chip_kind_text k"
  by (simp_all add: chip_error_text_def)

section \<open>Unwrapping\<close>

text \<open>The chain that \<^verbatim>\<open>errors.Is\<close> and \<^verbatim>\<open>errors.As\<close> visit: the error itself, then what its
  \<^verbatim>\<open>Unwrap\<close> method returns, and so on.\<close>

fun error_chain :: "go_error \<Rightarrow> go_error list" where
  "error_chain (TransportError k op (Some e)) = TransportError k op (Some e) # error_chain e"
| "error_chain (ChipError k op c (Some e)) = ChipError k op c (Some e) # error_chain e"
| "error_chain (WrapError m e) = WrapError m e # error_chain e"
| "error_chain e = [e]"

definition errors_Is :: "go_error \<Rightarrow> go_error \<Rightarrow> bool" where
  "errors_Is err target \<longleftrightarrow> target \<in> set (error_chain err)"

fun as_transport :: "go_error list \<Rightarrow> transport_kind option" where
  "as_transport [] = None"
| "as_transport (TransportError k op w # es) = Some k"
| "as_transport (e # es) = as_transport es"

fun as_chip :: "go_error list \<Rightarrow> (chip_kind \<times> byte option) option" where
  "as_chip [] = None"
| "as_chip (ChipError k op c w # es) = Some (k, c)"
| "as_chip (e # es) = as_chip es"

text \<open>\<^verbatim>\<open>errors.As(err, &transportError)\<close> and \<^verbatim>\<open>errors.As(err, &chipError)\<close>, keeping the fields the
  program reads.\<close>

definition errors_As_transport :: "go_error \<Rightarrow> transport_kind option" where
  "errors_As_transport err = as_transport (error_chain err)"

definition errors_As_chip :: "go_error \<Rightarrow> (chip_kind \<times> byte option) option" where
  "errors_As_chip err = as_chip (error_chain err)"

definition transport_IsKind :: "go_error \<Rightarrow> transport_kind \<Rightarrow> bool" where
  "transport_IsKind err kind \<longleftrightarrow> errors_As_transport err = Some kind"

definition chip_IsKind :: "go_error \<Rightarrow> chip_kind \<Rightarrow> bool" where
  "chip_IsKind err kind \<longleftrightarrow> (\<exists>c. errors_As_chip err = Some (kind, c))"

lemma errors_As_transport_simps [simp]:
  "errors_As_transport (TransportError k op w) = Some k"
  "errors_As_transport (WrapError m e) = errors_As_transport e"
  "errors_As_transport (ErrorString s) = None"
  "errors_As_transport (Sentinel t) = None"
  "errors_As_transport ContextCanceled = None"
  "errors_As_transport ContextDeadlineExceeded = None"
  "errors_As_transport (GousbError g s) = None"
  "errors_As_transport (GousbTransfer r s) = None"
  "errors_As_transport (ChipError ck op c None) = None"
  "errors_As_transport (ChipError ck op c (Some e)) = errors_As_transport e"
  by (cases w; simp add: errors_As_transport_def)+

lemma errors_As_chip_simps [simp]:
  "errors_As_chip (ChipError ck op c w) = Some (ck, c)"
  "errors_As_chip (WrapError m e) = errors_As_chip e"
  "errors_As_chip (ErrorString s) = None"
  "errors_As_chip (Sentinel t) = None"
  "errors_As_chip ContextCanceled = None"
  "errors_As_chip ContextDeadlineExceeded = None"
  "errors_As_chip (GousbError g s) = None"
  "errors_As_chip (GousbTransfer r s) = None"
  "errors_As_chip (TransportError k op None) = None"
  "errors_As_chip (TransportError k op (Some e)) = errors_As_chip e"
  by (cases w; simp add: errors_As_chip_def)+

lemma errors_Is_simps [simp]:
  "errors_Is (WrapError m e) t \<longleftrightarrow> t = WrapError m e \<or> errors_Is e t"
  "errors_Is (TransportError k op None) t \<longleftrightarrow> t = TransportError k op None"
  "errors_Is (TransportError k op (Some e)) t
     \<longleftrightarrow> t = TransportError k op (Some e) \<or> errors_Is e t"
  "errors_Is (ChipError ck op c None) t \<longleftrightarrow> t = ChipError ck op c None"
  "errors_Is (ChipError ck op c (Some e)) t
     \<longleftrightarrow> t = ChipError ck op c (Some e) \<or> errors_Is e t"
  "errors_Is (ErrorString s) t \<longleftrightarrow> t = ErrorString s"
  "errors_Is (Sentinel st) t \<longleftrightarrow> t = Sentinel st"
  "errors_Is ContextCanceled t \<longleftrightarrow> t = ContextCanceled"
  "errors_Is ContextDeadlineExceeded t \<longleftrightarrow> t = ContextDeadlineExceeded"
  "errors_Is (GousbError g s) t \<longleftrightarrow> t = GousbError g s"
  "errors_Is (GousbTransfer r s) t \<longleftrightarrow> t = GousbTransfer r s"
  by (auto simp: errors_Is_def)

lemma transport_IsKind_unique:
  "transport_IsKind e k \<Longrightarrow> transport_IsKind e k' \<Longrightarrow> k = k'"
  by (simp add: transport_IsKind_def)

lemma error_chain_nonempty [simp]: "error_chain e \<noteq> []"
  by (cases e rule: error_chain.cases) auto

lemma sentinel_text_nonempty [simp]: "sentinel_text s \<noteq> []"
  by (cases s) auto

end
