(* ===== verification/StreamDecode.thy ===== *)
theory StreamDecode
  imports Encoder
begin

text \<open>
  Reading a CH341 command stream back: \<^verbatim>\<open>instructionLengths\<close>, \<^verbatim>\<open>encodedLength\<close> and
  \<^verbatim>\<open>checkStatusBytes\<close> of internal/transport/ch341.go, and the bus meaning of a packet
  (\<open>packet_ops\<close>, \<open>stream_ops\<close>) as the specification both the encoder and the length counter
  are measured against.
\<close>

definition lengthMask :: int where [mfi_consts]: "lengthMask = 0x3f"
definition ackBit :: byte where [mfi_consts]: "ackBit = 0x80"

definition protocol_error :: "string \<Rightarrow> string \<Rightarrow> go_error" where
  "protocol_error op msg = TransportError ErrorProtocol op (Some (ErrorString msg))"

definition encodedLength :: "int \<Rightarrow> int" where
  "encodedLength command =
     (let encoded = command AND lengthMask in if encoded = 0 then 1 else encoded)"

text \<open>The cases of the switch in \<^verbatim>\<open>instructionLengths\<close> that do not return: the new index and
  counters. \<open>index\<close> has already been advanced past the command byte.\<close>

definition il_switch :: "int \<Rightarrow> nat \<Rightarrow> int \<Rightarrow> int \<Rightarrow> (nat \<times> int \<times> int) result" where
  "il_switch command index writtenBytes dataBytes =
     (if command = uint streamI2CStart \<or> command = uint streamI2CStop
      then Ok (index, writtenBytes, dataBytes)
      else if 0x80 \<le> command \<and> command \<le> 0xbf
      then let written = encodedLength command
           in Ok (index + nat written,
                  (if command AND lengthMask = 0 then writtenBytes + written else writtenBytes),
                  dataBytes)
      else if 0xc0 \<le> command \<and> command \<le> 0xff
      then Ok (index, writtenBytes, dataBytes + encodedLength command)
      else if 0x60 \<le> command \<and> command \<le> 0x63
      then Ok (index, writtenBytes, dataBytes)
      else Err (protocol_error ''decode CH341 stream''
                  (''unexpected command 0x'' @ fmt_02x (nat command))))"

lemma il_switch_advances: "il_switch c i w d = Ok (i', w', d') \<Longrightarrow> i \<le> i'"
  by (auto simp: il_switch_def Let_def split: if_splits)

function il_loop :: "byte list \<Rightarrow> nat \<Rightarrow> int \<Rightarrow> int \<Rightarrow> (int \<times> int) result" where
  "il_loop segment index writtenBytes dataBytes =
     (if index < length segment
      then let command = uint (segment ! index)
           in if command = uint streamEnd then Ok (writtenBytes, dataBytes)
              else case il_switch command (index + 1) writtenBytes dataBytes of
                Err e \<Rightarrow> Err e
              | Panic \<Rightarrow> Panic
              | Ok (index', w, d) \<Rightarrow>
                  if index' > length segment
                  then Err (protocol_error ''decode CH341 stream'' ''truncated command'')
                  else il_loop segment index' w d
      else Ok (writtenBytes, dataBytes))"
  by pat_completeness auto
termination
  by (relation "measure (\<lambda>(segment, index, w, d). length segment - index)")
     (auto dest!: il_switch_advances)

declare il_loop.simps [simp del]

definition instructionLengths :: "byte list \<Rightarrow> (int \<times> int) result" where
  "instructionLengths segment = il_loop segment 1 0 0"

text \<open>\<open>None\<close>: every status byte acknowledges; \<open>Some\<close> is the error of the first one that does
  not.\<close>

fun csb_loop :: "nat \<Rightarrow> byte list \<Rightarrow> go_error option" where
  "csb_loop offset [] = None"
| "csb_loop offset (value # status) =
     (if value AND ackBit \<noteq> 0
      then Some (TransportError ErrorNACK ''CH341 I2C''
                   (Some (ErrorString (''NACK on byte '' @ showDec offset))))
      else csb_loop (offset + 1) status)"

definition checkStatusBytes :: "byte list \<Rightarrow> go_error option" where
  "checkStatusBytes status = csb_loop 0 status"

section \<open>Bus meaning of a packet\<close>

text \<open>
  What a CH341 does on the I2C bus for a command: a start or stop condition, a byte put on
  the bus (with a status byte reported to the host for the single-byte form \<^verbatim>\<open>0x80\<close>), bytes
  read with an acknowledge, and the last byte read without one.
\<close>

datatype bus_op = BusStart | BusStop | BusWrite byte bool | BusReadAck | BusReadNack

function packet_ops :: "byte list \<Rightarrow> bus_op list option" where
  "packet_ops [] = Some []"
| "packet_ops (c # cs) =
     (let n = nat (encodedLength (uint c)); short = (uint c AND lengthMask = 0)
      in if uint c = 0 then Some []
         else if uint c = 0x74 then map_option ((#) BusStart) (packet_ops cs)
         else if uint c = 0x75 then map_option ((#) BusStop) (packet_ops cs)
         else if 0x80 \<le> uint c \<and> uint c \<le> 0xbf
         then if length cs < n then None
              else map_option ((@) (map (\<lambda>b. BusWrite b short) (take n cs))) (packet_ops (drop n cs))
         else if 0xc0 \<le> uint c
         then map_option ((@) (if short then [BusReadNack] else replicate n BusReadAck))
                (packet_ops cs)
         else if 0x60 \<le> uint c \<and> uint c \<le> 0x63 then packet_ops cs
         else None)"
  by pat_completeness auto
termination
  by (relation "measure length") auto

declare packet_ops.simps(2) [simp del]

text \<open>A stream is executed packet by packet (the \<open>for offset\<close> loop of \<^verbatim>\<open>execute\<close>); every packet
  starts with the stream marker.\<close>

fun packets_ops :: "byte list list \<Rightarrow> bus_op list option" where
  "packets_ops [] = Some []"
| "packets_ops (p # ps) =
     (case p of
        [] \<Rightarrow> None
      | h # body \<Rightarrow>
          if h \<noteq> streamStart then None
          else case packet_ops body of
            None \<Rightarrow> None
          | Some ops \<Rightarrow> map_option ((@) ops) (packets_ops ps))"

definition stream_ops :: "byte list \<Rightarrow> bus_op list option" where
  "stream_ops stream = packets_ops (chunks maxStreamPacketBytes stream)"

text \<open>Counting the status bytes and the data bytes a list of operations sends to the host.\<close>

fun reported :: "bus_op list \<Rightarrow> int" where
  "reported [] = 0"
| "reported (BusWrite b True # ops) = 1 + reported ops"
| "reported (_ # ops) = reported ops"

fun reads :: "bus_op list \<Rightarrow> int" where
  "reads [] = 0"
| "reads (BusReadAck # ops) = 1 + reads ops"
| "reads (BusReadNack # ops) = 1 + reads ops"
| "reads (_ # ops) = reads ops"

text \<open>The transaction a caller asks for: address and data written after a start condition,
  then (after a repeated start) the read address, \<open>n - 1\<close> acknowledged bytes and a last byte
  without acknowledge, then one stop condition. \<open>rep\<close>: whether a status byte is reported for
  the read address.\<close>

definition write_ops :: "byte \<Rightarrow> byte list \<Rightarrow> bus_op list" where
  "write_ops a w =
     (if w = [] then []
      else BusStart # BusWrite (addressByte a False) True # map (\<lambda>b. BusWrite b True) w)"

definition read_ops :: "bool \<Rightarrow> byte \<Rightarrow> int \<Rightarrow> bus_op list" where
  "read_ops rep a n =
     (if n \<le> 0 then []
      else BusStart # BusWrite (addressByte a True) rep
             # replicate (nat n - 1) BusReadAck @ [BusReadNack])"

definition transaction_ops :: "bool \<Rightarrow> byte \<Rightarrow> byte list \<Rightarrow> int \<Rightarrow> bus_op list" where
  "transaction_ops rep a w n = write_ops a w @ read_ops rep a n @ [BusStop]"

section \<open>Counting lemmas\<close>

lemma reported_append [simp]: "reported (xs @ ys) = reported xs + reported ys"
  by (induction xs rule: reported.induct) auto

lemma reads_append [simp]: "reads (xs @ ys) = reads xs + reads ys"
  by (induction xs rule: reads.induct) auto

lemma reported_writes [simp]:
  "reported (map (\<lambda>b. BusWrite b r) bs) = (if r then int (length bs) else 0)"
  by (induction bs) (cases r; simp)+

lemma reads_writes [simp]: "reads (map (\<lambda>b. BusWrite b r) bs) = 0"
  by (induction bs) auto

lemma reported_replicate [simp]: "reported (replicate n BusReadAck) = 0"
  by (induction n) auto

lemma reads_replicate [simp]: "reads (replicate n BusReadAck) = int n"
  by (induction n) auto

lemma reads_transaction: "0 \<le> n \<Longrightarrow> reads (transaction_ops rep a w n) = n"
  by (auto simp: transaction_ops_def write_ops_def read_ops_def)

lemma reported_transaction:
  "reported (transaction_ops rep a w n) =
     (if w = [] then 0 else 1 + int (length w)) + (if 0 < n \<and> rep then 1 else 0)"
  by (cases rep) (auto simp: transaction_ops_def write_ops_def read_ops_def)

section \<open>Command lengths\<close>

lemma and_lengthMask: "c AND lengthMask = c mod 64"
proof -
  have "lengthMask = (mask 6 :: int)"
    by (simp add: lengthMask_def mask_eq_exp_minus_1)
  then have "c AND lengthMask = take_bit 6 c"
    by (simp only: take_bit_eq_mask)
  then show ?thesis
    by (simp add: take_bit_eq_mod)
qed

lemma encodedLength_mod: "encodedLength c = (if c mod 64 = 0 then 1 else c mod 64)"
  by (simp add: encodedLength_def and_lengthMask Let_def)

lemma encodedLength_bounds: "1 \<le> encodedLength c \<and> encodedLength c \<le> 63"
  using pos_mod_bound [of 64 c] pos_mod_sign [of 64 c]
  by (auto simp: encodedLength_mod)

lemma uint_byte_le: "uint (c :: byte) \<le> 255"
  using unsigned_less [of c, where 'a = int] by simp

text \<open>The counter of the source agrees with the bus meaning: it fails exactly where a packet
  has none, and otherwise counts its status and data bytes.\<close>

lemma il_loop_packet_ops:
  assumes "index \<le> length segment"
  shows "case packet_ops (drop index segment) of
           Some ops \<Rightarrow> il_loop segment index w d = Ok (w + reported ops, d + reads ops)
         | None \<Rightarrow> (\<exists>msg. il_loop segment index w d
                     = Err (protocol_error ''decode CH341 stream'' msg))"
  using assms
proof (induction segment index w d rule: il_loop.induct)
  case (1 segment index w d)
  show ?case
  proof (cases "index < length segment")
    case False
    then show ?thesis by (simp add: il_loop.simps [of segment index])
  next
    case True
    define c where "c = segment ! index"
    have dr: "drop index segment = c # drop (Suc index) segment"
      using True by (simp add: c_def Cons_nth_drop_Suc)
    have IH: "case packet_ops (drop i' segment) of
           Some ops \<Rightarrow> il_loop segment i' w' d' = Ok (w' + reported ops, d' + reads ops)
         | None \<Rightarrow> (\<exists>msg. il_loop segment i' w' d'
                     = Err (protocol_error ''decode CH341 stream'' msg))"
      if "uint c \<noteq> 0" "il_switch (uint c) (index + 1) w d = Ok (i', w', d')" "i' \<le> length segment"
      for i' w' d'
      using 1(1) [OF True refl, of "(i', w', d')" i' "(w', d')" w' d'] that
      by (simp add: c_def streamEnd_def)
    note loop = il_loop.simps [of segment index w d, folded c_def]
    consider "uint c = 0" | "uint c = 0x74 \<or> uint c = 0x75"
      | "0x80 \<le> uint c \<and> uint c \<le> 0xbf" | "0xc0 \<le> uint c"
      | "0x60 \<le> uint c \<and> uint c \<le> 0x63"
      | "uint c \<noteq> 0 \<and> uint c \<noteq> 0x74 \<and> uint c \<noteq> 0x75 \<and> uint c < 0x80
          \<and> \<not> (0x60 \<le> uint c \<and> uint c \<le> 0x63)"
      by linarith
    then show ?thesis
    proof cases
      case 1
      then show ?thesis using True
        by (simp add: loop dr packet_ops.simps(2) streamEnd_def)
    next
      case 2
      have "il_switch (uint c) (index + 1) w d = Ok (index + 1, w, d)"
        using 2 by (auto simp: il_switch_def mfi_consts)
      then show ?thesis using True 2 IH [of "index + 1" w d]
        by (auto simp: loop dr packet_ops.simps(2) streamEnd_def split: option.splits)
    next
      case 3
      let ?n = "nat (encodedLength (uint c))"
      let ?w = "if uint c AND lengthMask = 0 then w + encodedLength (uint c) else w"
      have sw: "il_switch (uint c) (index + 1) w d = Ok (index + 1 + ?n, ?w, d)"
        using 3 by (simp add: il_switch_def Let_def streamI2CStart_def streamI2CStop_def)
      have one: "encodedLength (uint c) = 1" if "uint c AND lengthMask = 0"
        using that by (simp add: encodedLength_def)
      have "drop ?n (drop (Suc index) segment) = drop (index + 1 + ?n) segment"
        by (simp add: add.commute)
      then show ?thesis using True 3 sw one IH [OF _ sw]
        by (auto simp: loop dr packet_ops.simps(2) streamEnd_def Let_def split: option.splits)
    next
      case 4
      let ?n = "encodedLength (uint c)"
      have sw: "il_switch (uint c) (index + 1) w d = Ok (index + 1, w, d + ?n)"
        using 4 uint_byte_le [of c]
        by (simp add: il_switch_def streamI2CStart_def streamI2CStop_def)
      have one: "?n = 1" if "uint c AND lengthMask = 0"
        using that by (simp add: encodedLength_def)
      show ?thesis using True 4 sw one IH [OF _ sw] encodedLength_bounds [of "uint c"]
        by (auto simp: loop dr packet_ops.simps(2) streamEnd_def Let_def split: option.splits)
    next
      case 5
      have sw: "il_switch (uint c) (index + 1) w d = Ok (index + 1, w, d)"
        using 5 by (simp add: il_switch_def)
      show ?thesis using True 5 IH [OF _ sw] sw
        by (auto simp: loop dr packet_ops.simps(2) streamEnd_def Let_def split: option.splits)
    next
      case 6
      then have "\<exists>msg. il_switch (uint c) (index + 1) w d
                   = Err (protocol_error ''decode CH341 stream'' msg)"
        by (auto simp: il_switch_def streamI2CStart_def streamI2CStop_def)
      then show ?thesis using True 6
        by (auto simp: loop dr packet_ops.simps(2) streamEnd_def Let_def)
    qed
  qed
qed

end
