(* ===== verification/EncoderCorrect.thy ===== *)
theory EncoderCorrect
  imports StreamDecode
begin

text \<open>
  Correctness of the stream encoder. The key notion is a \<open>transparent\<close> piece of a packet: a
  byte sequence the decoder consumes completely, whatever follows. Every command the encoder
  appends is transparent, so the meaning of a stream under construction (\<open>ss_means\<close>) grows by
  the meaning of each command, across packet boundaries.
\<close>

definition transparent :: "byte list \<Rightarrow> bus_op list \<Rightarrow> bool" where
  "transparent xs ops \<longleftrightarrow>
     (\<forall>ys. packet_ops (xs @ ys) = map_option ((@) ops) (packet_ops ys))"

text \<open>The stream built so far means \<open>ops\<close>: complete 32-byte packets meaning \<open>o1\<close>, and an open
  packet, with room for the end marker, meaning \<open>o2\<close>.\<close>

definition ss_means :: "segmentedStream \<Rightarrow> bus_op list \<Rightarrow> bool" where
  "ss_means s ops \<longleftrightarrow>
     (\<exists>body o1 o2. ss_segment s = streamStart # body \<and> length body \<le> 30 \<and> transparent body o2
        \<and> length (ss_result s) mod 32 = 0 \<and> stream_ops (ss_result s) = Some o1
        \<and> ops = o1 @ o2)"

section \<open>Transparent pieces\<close>

lemma map_option_append_comp:
  "map_option ((@) xs) (map_option ((@) ys) z) = map_option ((@) (xs @ ys)) z"
  by (cases z) auto

lemma transparent_Nil [intro, simp]: "transparent [] []"
  by (simp add: transparent_def option.map_id0 [unfolded id_def] map_option_cong option.map_ident)

lemma transparent_append:
  "transparent xs o1 \<Longrightarrow> transparent ys o2 \<Longrightarrow> transparent (xs @ ys) (o1 @ o2)"
  by (simp add: transparent_def map_option_append_comp)

lemma transparent_start: "transparent [streamI2CStart] [BusStart]"
  by (auto simp: transparent_def packet_ops.simps(2) mfi_consts intro!: map_option_cong)

lemma transparent_stop: "transparent [streamI2CStop] [BusStop]"
  by (auto simp: transparent_def packet_ops.simps(2) mfi_consts intro!: map_option_cong)

lemma transparent_write: "transparent [streamWrite, b] [BusWrite b True]"
  by (auto simp: transparent_def packet_ops.simps(2) encodedLength_mod and_lengthMask
      streamWrite_def intro!: map_option_cong)

lemma transparent_write1: "transparent [streamWrite + 1, b] [BusWrite b False]"
  by (auto simp: transparent_def packet_ops.simps(2) encodedLength_mod and_lengthMask
      streamWrite_def intro!: map_option_cong)

lemma transparent_nack: "transparent [word_of_int streamRead] [BusReadNack]"
  by (auto simp: transparent_def packet_ops.simps(2) encodedLength_mod and_lengthMask
      streamWrite_def intro!: map_option_cong)

lemma transparent_read:
  assumes "1 \<le> n" and "n \<le> 32"
  shows "transparent [word_of_int (streamRead + n)] (replicate (nat n) BusReadAck)"
proof -
  have u: "uint (word_of_int (192 + n) :: byte) = 192 + n"
    using assms by (simp only: uint_word_of_int) simp
  have "(n + 3 * 64) mod 64 = n mod 64"
    by (rule mod_mult_self1)
  then have m: "(192 + n) mod 64 = n"
    using assms by (simp add: add.commute)
  show ?thesis
    using assms
    by (simp add: transparent_def packet_ops.simps(2) encodedLength_mod and_lengthMask u m del: of_int_add)
qed

lemma packet_ops_end: "packet_ops (streamEnd # ys) = Some []"
  by (simp add: packet_ops.simps(2) streamEnd_def)

lemma transparent_end: "transparent xs ops \<Longrightarrow> packet_ops (xs @ streamEnd # ys) = Some ops"
  by (simp add: transparent_def packet_ops_end)

section \<open>Packets\<close>

lemma packets_ops_append:
  "packets_ops (ps @ qs) =
     (case packets_ops ps of None \<Rightarrow> None | Some o1 \<Rightarrow> map_option ((@) o1) (packets_ops qs))"
proof (induction ps)
  case Nil
  then show ?case by (simp add: option.map_ident append_Nil [abs_def])
next
  case (Cons p ps)
  then show ?case
    by (auto simp: map_option_append_comp split: list.splits option.splits)
qed

lemma stream_ops_append:
  assumes "length xs mod 32 = 0" and "stream_ops xs = Some o1"
  shows "stream_ops (xs @ ys) = map_option ((@) o1) (stream_ops ys)"
  using assms by (simp add: stream_ops_def chunks_append packets_ops_append)

lemma stream_ops_packet:
  assumes "transparent body ops" and "length body + length pad \<le> 30"
  shows "stream_ops (streamStart # body @ streamEnd # pad) = Some ops"
  using assms
  by (simp add: stream_ops_def chunks_short transparent_end)

lemma stream_ops_Nil [simp]: "stream_ops [] = Some []"
  by (simp add: stream_ops_def)

section \<open>The stream operations\<close>

lemma padSegment_eq: "padSegment seg = seg @ replicate (32 - length seg) 0"
proof (induction seg rule: padSegment.induct)
  case (1 seg)
  show ?case
  proof (cases "length seg < 32")
    case True
    then have "32 - length seg = Suc (31 - length seg)" by simp
    with 1 True show ?thesis by (simp add: padSegment.simps [of seg])
  next
    case False
    then show ?thesis by (simp add: padSegment.simps [of seg])
  qed
qed

lemma ss_means_new: "ss_means newSegmentedStream []"
  by (auto simp: ss_means_def newSegmentedStream_def)

lemma ss_means_finishIntermediate:
  assumes "ss_means s ops"
  shows "ss_means (finishIntermediate s) ops"
proof -
  from assms obtain body o1 o2 where
    seg: "ss_segment s = streamStart # body" and len: "length body \<le> 30"
    and body: "transparent body o2"
    and res: "length (ss_result s) mod 32 = 0" "stream_ops (ss_result s) = Some o1"
    and ops: "ops = o1 @ o2"
    by (auto simp: ss_means_def)
  let ?p = "padSegment (ss_segment s @ [streamEnd])"
  have p: "?p = streamStart # body @ streamEnd # replicate (30 - length body) 0"
    by (simp add: padSegment_eq seg streamEnd_def)
  have "stream_ops (ss_result s @ ?p) = Some ops"
    using len ops
    by (simp add: stream_ops_append [OF res] p stream_ops_packet [OF body])
  moreover have "length (ss_result s @ ?p) mod 32 = 0"
    using len res(1) by (simp add: p mod_add_left_eq [symmetric])
  ultimately show ?thesis
    by (auto simp: ss_means_def finishIntermediate_def)
qed

lemma ss_means_extend:
  assumes "ss_means s ops" and "transparent cmd cops"
    and "length (ss_segment s) + length cmd \<le> 31"
  shows "ss_means (s\<lparr>ss_segment := ss_segment s @ cmd\<rparr>) (ops @ cops)"
  using assms by (auto simp: ss_means_def intro: transparent_append)

lemma ss_segment_finishIntermediate [simp]: "ss_segment (finishIntermediate s) = [streamStart]"
  by (simp add: finishIntermediate_def)

lemma ss_means_command:
  assumes "ss_means s ops" and "transparent cmd cops" and "length cmd \<le> 2"
  shows "ss_means (ss_command s cmd) (ops @ cops)"
proof -
  define s' where
    "s' = (if length (ss_segment s) + length cmd + 1 > 32 then finishIntermediate s else s)"
  have "ss_means s' ops" and "length (ss_segment s') + length cmd \<le> 31"
    using assms by (auto simp: s'_def ss_means_finishIntermediate)
  from ss_means_extend [OF this(1) assms(2) this(2)] show ?thesis
    by (simp add: ss_command_def s'_def Let_def)
qed

lemma ss_means_writeData:
  "ss_means s ops \<Longrightarrow> ss_means (ss_writeData s data) (ops @ map (\<lambda>b. BusWrite b True) data)"
proof (induction data arbitrary: s ops)
  case Nil
  then show ?case by simp
next
  case (Cons b data)
  have "ss_means (ss_command s [streamWrite, b]) (ops @ [BusWrite b True])"
    by (rule ss_means_command [OF Cons.prems transparent_write]) simp
  from Cons.IH [OF this] show ?case by simp
qed

lemma ss_means_write:
  assumes "ss_means s ops"
  shows "ss_means (ss_write s address data)
     (ops @ BusWrite address (data \<noteq> []) # map (\<lambda>b. BusWrite b True) data)"
proof (cases "data = []")
  case True
  then show ?thesis
    using ss_means_command [OF assms transparent_write1] by (simp add: ss_write_def)
next
  case False
  have "ss_means (ss_command s [streamWrite, address]) (ops @ [BusWrite address True])"
    by (rule ss_means_command [OF assms transparent_write]) simp
  from ss_means_writeData [OF this] False show ?thesis
    by (simp add: ss_write_def)
qed

lemma ss_means_startAndWrite:
  assumes "ss_means s ops"
  shows "ss_means (ss_startAndWrite s address data)
     (ops @ BusStart # BusWrite address (data \<noteq> []) # map (\<lambda>b. BusWrite b True) data)"
proof -
  define s' where "s' = (if length (ss_segment s) + 4 > 32 then finishIntermediate s else s)"
  have "ss_means s' ops" and "length (ss_segment s') + 1 \<le> 31"
    using assms by (auto simp: s'_def ss_means_finishIntermediate)
  then have "ss_means (s'\<lparr>ss_segment := ss_segment s' @ [streamI2CStart]\<rparr>) (ops @ [BusStart])"
    using ss_means_extend [OF _ transparent_start] by simp
  from ss_means_write [OF this] show ?thesis
    by (simp add: ss_startAndWrite_def s'_def Let_def)
qed

lemma ss_means_readBlocks:
  assumes "ss_means s ops" and "1 \<le> n" and "ss_readBlocks s n = (s', r)"
  shows "1 \<le> r \<and> r \<le> 32 \<and> r \<le> n \<and> ss_means s' (ops @ replicate (nat (n - r)) BusReadAck)"
  using assms
proof (induction s n arbitrary: ops s' r rule: ss_readBlocks.induct)
  case (1 s n)
  show ?case
  proof (cases "n > 32")
    case False
    with 1 show ?thesis by (auto simp: ss_readBlocks.simps [of s n])
  next
    case True
    let ?s = "finishIntermediate (ss_command s [word_of_int (streamRead + 32)])"
    have "ss_means ?s (ops @ replicate 32 BusReadAck)"
      using ss_means_finishIntermediate
        [OF ss_means_command [OF 1(2) transparent_read [of 32]]] by simp
    moreover have "ss_readBlocks ?s (n - 32) = (s', r)"
      using 1(4) True by (simp add: ss_readBlocks.simps [of s n])
    ultimately have IH: "1 \<le> r \<and> r \<le> 32 \<and> r \<le> n - 32
        \<and> ss_means s' ((ops @ replicate 32 BusReadAck) @ replicate (nat (n - 32 - r)) BusReadAck)"
      using 1(1) [of "ops @ replicate 32 BusReadAck" s' r] True by simp
    then have "32 + nat (n - 32 - r) = nat (n - r)" by linarith
    then have "replicate 32 BusReadAck @ replicate (nat (n - 32 - r)) BusReadAck
        = replicate (nat (n - r)) BusReadAck"
      by (simp only: replicate_add [symmetric])
    with IH show ?thesis by simp
  qed
qed

lemma ss_means_read:
  assumes "ss_means s ops" and "1 \<le> n"
  shows "ss_means (ss_read s n) (ops @ replicate (nat n - 1) BusReadAck @ [BusReadNack])"
proof -
  obtain s' r where b: "ss_readBlocks s n = (s', r)" by fastforce
  from ss_means_readBlocks [OF assms b]
  have r: "1 \<le> r" "r \<le> 32" "r \<le> n"
    and m: "ss_means s' (ops @ replicate (nat (n - r)) BusReadAck)" by auto
  define s'' where
    "s'' = (if r > 1 then ss_command s' [word_of_int (streamRead + r - 1)] else s')"
  have "ss_means s'' ((ops @ replicate (nat (n - r)) BusReadAck)
          @ replicate (nat (r - 1)) BusReadAck)"
    using m r ss_means_command [OF m transparent_read [of "r - 1"]]
    by (auto simp: s''_def)
  moreover have "replicate (nat (n - r)) BusReadAck @ replicate (nat (r - 1)) BusReadAck
      = replicate (nat n - 1) BusReadAck"
    using r by (simp add: replicate_add [symmetric] nat_diff_distrib)
  ultimately have "ss_means s'' (ops @ replicate (nat n - 1) BusReadAck)" by simp
  from ss_means_command [OF this transparent_nack] show ?thesis
    by (simp add: ss_read_def b s''_def Let_def)
qed

lemma ss_means_finish:
  assumes "ss_means s ops"
  shows "stream_ops (ss_finish s) = Some (ops @ [BusStop])"
proof -
  define s' where "s' = (if length (ss_segment s) + 2 > 32 then finishIntermediate s else s)"
  have m: "ss_means s' ops" and len: "length (ss_segment s') \<le> 30"
    using assms by (auto simp: s'_def ss_means_finishIntermediate)
  from m obtain body o1 o2 where
    seg: "ss_segment s' = streamStart # body" and body: "transparent body o2"
    and res: "length (ss_result s') mod 32 = 0" "stream_ops (ss_result s') = Some o1"
    and ops: "ops = o1 @ o2"
    by (auto simp: ss_means_def)
  have "transparent (body @ [streamI2CStop]) (o2 @ [BusStop])"
    by (rule transparent_append [OF body transparent_stop])
  then have "stream_ops (streamStart # (body @ [streamI2CStop]) @ streamEnd # [])
      = Some (o2 @ [BusStop])"
    using len seg by (intro stream_ops_packet) auto
  moreover have "ss_finish s = ss_result s' @ ss_segment s' @ [streamI2CStop, streamEnd]"
    by (simp add: ss_finish_def s'_def Let_def)
  ultimately show ?thesis
    using ops seg by (simp add: stream_ops_append [OF res])
qed

section \<open>The single-packet encoding\<close>

lemma transparent_legacy_write:
  "transparent (legacy_write address data) (map (\<lambda>b. BusWrite b True) (address # data))"
proof -
  have "transparent (concat (map (\<lambda>b. [streamWrite, b]) data)) (map (\<lambda>b. BusWrite b True) data)"
    for data
  proof (induction data)
    case Nil
    then show ?case by simp
  next
    case (Cons b data)
    from transparent_append [OF transparent_write Cons.IH] show ?case by simp
  qed
  from transparent_append [OF transparent_write this [of data]] show ?thesis
    by (simp add: legacy_write_def)
qed

lemma transparent_read_tail:
  assumes "1 \<le> n" and "n \<le> 32"
  shows "transparent ((if n > 1 then [word_of_int (streamRead + n - 1)] else [])
           @ [word_of_int streamRead]) (replicate (nat n - 1) BusReadAck @ [BusReadNack])"
proof (cases "n > 1")
  case True
  then show ?thesis
    using transparent_append [OF transparent_read [of "n - 1"] transparent_nack] assms
    by (simp add: nat_diff_distrib)
next
  case False
  with assms have "n = 1" by simp
  then show ?thesis using transparent_nack by simp
qed

lemma encodeLegacyTransaction_means:
  assumes "encodeLegacyTransaction a w n = Some bytes" and "0 \<le> n"
  shows "stream_ops bytes = Some (transaction_ops True a w n)" and "length bytes \<le> 32"
proof -
  let ?w = "if length w > 0 then streamI2CStart # legacy_write (addressByte a False) w else []"
  let ?r = "if n > 0 then streamI2CStart # legacy_write (addressByte a True) []
                 @ (if n > 1 then [word_of_int (streamRead + n - 1)] else [])
                 @ [word_of_int streamRead] else []"
  have n: "n \<le> 32" and b: "bytes = streamStart # (?w @ ?r @ [streamI2CStop]) @ streamEnd # []"
    and l: "length bytes \<le> 32"
    using assms(1) by (auto simp: encodeLegacyTransaction_def Let_def split: if_splits)
  have tw: "transparent ?w (write_ops a w)"
    using transparent_append [OF transparent_start
        transparent_legacy_write [of "addressByte a False" w]]
    by (auto simp: write_ops_def)
  have tr: "transparent ?r (read_ops True a n)"
    using transparent_append [OF transparent_start
        transparent_append [OF transparent_legacy_write [of "addressByte a True" "[]"]
          transparent_read_tail [of n]]] n
    by (auto simp: read_ops_def simp del: append_assoc)
  have "transparent (?w @ ?r @ [streamI2CStop]) (transaction_ops True a w n)"
    unfolding transaction_ops_def
    by (rule transparent_append [OF tw transparent_append [OF tr transparent_stop]])
  then show "stream_ops bytes = Some (transaction_ops True a w n)"
    using l by (subst b, intro stream_ops_packet) (simp_all add: b)
  show "length bytes \<le> 32" by (rule l)
qed

lemma segmented_means:
  fixes a :: byte and w :: "byte list"
  assumes "0 \<le> n"
  defines "s1 \<equiv> (if length w > 0
      then ss_startAndWrite newSegmentedStream (addressByte a False) w else newSegmentedStream)"
  shows "ss_means (if n > 0 then ss_read (ss_startAndWrite s1 (addressByte a True) []) n else s1)
    (write_ops a w @ read_ops False a n)"
proof -
  have s1: "ss_means s1 (write_ops a w)"
    using ss_means_new ss_means_startAndWrite [OF ss_means_new, of "addressByte a False" w]
    by (auto simp: s1_def write_ops_def)
  show ?thesis
  proof (cases "n > 0")
    case True
    from ss_means_read [OF ss_means_startAndWrite [OF s1, of "addressByte a True" "[]"], of n]
    show ?thesis using True by (simp add: read_ops_def)
  next
    case False
    with s1 show ?thesis by (simp add: read_ops_def)
  qed
qed

lemma encodeTransaction_Ok_iff:
  "(\<exists>stream. encodeTransaction a w n = Ok stream) \<longleftrightarrow>
     a \<le> 0x7f \<and> 0 \<le> n \<and> \<not> (w = [] \<and> n = 0) \<and> length w \<le> 65535 \<and> n \<le> 65535"
  by (auto simp: encodeTransaction_def Let_def not_le not_less split: option.splits)

lemma encodeTransaction_stream_ops:
  assumes "encodeTransaction a w n = Ok stream"
  shows "stream_ops stream
     = Some (transaction_ops (encodeLegacyTransaction a w n \<noteq> None) a w n)"
proof -
  from assms have n: "0 \<le> n" using encodeTransaction_Ok_iff [of a w n] by auto
  show ?thesis
  proof (cases "encodeLegacyTransaction a w n")
    case (Some legacy)
    with assms have "stream = legacy"
      by (auto simp: encodeTransaction_def split: if_splits)
    with Some encodeLegacyTransaction_means [OF Some n] show ?thesis by simp
  next
    case None
    with assms ss_means_finish [OF segmented_means [OF n, of w a]] show ?thesis
      by (auto simp: encodeTransaction_def transaction_ops_def Let_def split: if_splits)
  qed
qed

text \<open>\<^verbatim>\<open>instructionLengths\<close> against the bus meaning, on every segment; the facts the transport needs
  follow from it.\<close>

lemma instructionLengths_cases:
  "case packet_ops (drop 1 segment) of
     Some ops \<Rightarrow> instructionLengths segment = Ok (reported ops, reads ops)
   | None \<Rightarrow> (\<exists>msg. instructionLengths segment = Err (protocol_error ''decode CH341 stream'' msg))"
proof (cases segment)
  case Nil
  then show ?thesis by (simp add: instructionLengths_def il_loop.simps)
next
  case (Cons h body)
  then show ?thesis using il_loop_packet_ops [of 1 segment 0 0]
    by (simp add: instructionLengths_def split: option.splits)
qed

lemma instructionLengths_packet:
  "packet_ops body = Some ops \<Longrightarrow> instructionLengths (h # body) = Ok (reported ops, reads ops)"
  using instructionLengths_cases [of "h # body"] by simp

lemma instructionLengths_no_panic: "instructionLengths segment \<noteq> Panic"
  using instructionLengths_cases [of segment] by (auto split: option.splits)

lemma instructionLengths_Err:
  "instructionLengths segment = Err e \<Longrightarrow> \<exists>msg. e = protocol_error ''decode CH341 stream'' msg"
  using instructionLengths_cases [of segment] by (auto split: option.splits)

lemma packets_lengths:
  "packets_ops ps = Some ops \<Longrightarrow>
     \<exists>ls. map instructionLengths ps = map Ok ls
        \<and> sum_list (map fst ls) = reported ops \<and> sum_list (map snd ls) = reads ops"
proof (induction ps arbitrary: ops)
  case Nil
  then show ?case by simp
next
  case (Cons p ps)
  then obtain h body o1 o2 where p: "p = h # body" and o1: "packet_ops body = Some o1"
    and o2: "packets_ops ps = Some o2" and ops: "ops = o1 @ o2"
    by (auto split: list.splits option.splits if_splits)
  from Cons.IH [OF o2] obtain ls where "map instructionLengths ps = map Ok ls"
    "sum_list (map fst ls) = reported o2" "sum_list (map snd ls) = reads o2" by blast
  then show ?case
    using ops by (intro exI [of _ "(reported o1, reads o1) # ls"])
      (simp add: p instructionLengths_packet [OF o1])
qed

section \<open>Properties of the encoder\<close>

text \<open>C1: the stream that \<open>encodeTransaction\<close> returns, executed packet by packet, performs exactly
  the requested I2C transaction: the write address and every data byte after a start
  condition, then the read address after a repeated start and \<open>n\<close> byte reads of which only the
  last is not acknowledged, then a single stop condition. The single-packet and the segmented
  encoding differ only in whether a status byte is reported for the read address.\<close>

theorem encodeTransaction_meaning:
  assumes "encodeTransaction address7Bit writeData readLength = Ok stream"
  shows "stream_ops stream =
     Some (transaction_ops (encodeLegacyTransaction address7Bit writeData readLength \<noteq> None)
             address7Bit writeData readLength)"
  using assms by (rule encodeTransaction_stream_ops)

theorem encodeTransaction_meaning_witness:
  "encodeTransaction 0x11 [0x30] 2
     = Ok [0xaa, 0x74, 0x80, 0x22, 0x80, 0x30, 0x74, 0x80, 0x23, 0xc1, 0xc0, 0x75, 0x00]
   \<and> stream_ops [0xaa, 0x74, 0x80, 0x22, 0x80, 0x30, 0x74, 0x80, 0x23, 0xc1, 0xc0, 0x75, 0x00]
     = Some [BusStart, BusWrite 0x22 True, BusWrite 0x30 True, BusStart, BusWrite 0x23 True,
             BusReadAck, BusReadNack, BusStop]"
proof -
  have e: "encodeTransaction 0x11 [0x30] 2
     = Ok [0xaa, 0x74, 0x80, 0x22, 0x80, 0x30, 0x74, 0x80, 0x23, 0xc1, 0xc0, 0x75, 0x00]"
    by code_simp
  have "transaction_ops (encodeLegacyTransaction 0x11 [0x30] 2 \<noteq> None) 0x11 [0x30] 2
     = [BusStart, BusWrite 0x22 True, BusWrite 0x30 True, BusStart, BusWrite 0x23 True,
             BusReadAck, BusReadNack, BusStop]"
    by code_simp
  with e encodeTransaction_meaning [OF e] show ?thesis by simp
qed

text \<open>C2: the counter \<open>instructionLengths\<close> that \<^verbatim>\<open>execute\<close> runs on every packet never fails on a
  stream of the encoder; over all packets it announces exactly \<open>readLength\<close> data bytes, and one
  status byte per written byte (and, in the single-packet encoding, for the read address).\<close>

theorem encodeTransaction_instructionLengths:
  assumes "encodeTransaction address7Bit writeData readLength = Ok stream"
  shows "\<exists>ls. map instructionLengths (chunks maxStreamPacketBytes stream) = map Ok ls
     \<and> sum_list (map snd ls) = readLength
     \<and> sum_list (map fst ls) =
         (if writeData = [] then 0 else 1 + int (length writeData))
         + (if 0 < readLength
              \<and> encodeLegacyTransaction address7Bit writeData readLength \<noteq> None then 1 else 0)"
proof -
  have "0 \<le> readLength"
    using assms encodeTransaction_Ok_iff [of address7Bit writeData readLength] by auto
  with packets_lengths [OF encodeTransaction_stream_ops [OF assms, unfolded stream_ops_def]]
  show ?thesis
    by (simp only: reads_transaction reported_transaction) blast
qed

theorem encodeTransaction_instructionLengths_witness:
  "\<exists>stream ls. encodeTransaction 0x11 [] 40 = Ok stream
     \<and> map instructionLengths (chunks maxStreamPacketBytes stream) = map Ok ls
     \<and> sum_list (map snd ls) = 40 \<and> sum_list (map fst ls) = 0"
proof -
  have "encodeLegacyTransaction 0x11 [] 40 = None"
    by (simp add: encodeLegacyTransaction_def)
  moreover obtain stream where s: "encodeTransaction 0x11 [] 40 = Ok stream"
    using encodeTransaction_Ok_iff [of "0x11" "[]" 40] by auto
  ultimately show ?thesis
    using encodeTransaction_instructionLengths [OF s] by simp
qed

text \<open>C3: the encoder is total on valid requests and rejects everything else: a stream is returned
  iff the address has 7 bits, something is read or written, and neither direction exceeds
  65535 bytes; every rejection is an \<open>ErrorInvalidRequest\<close>.\<close>

theorem encodeTransaction_validates:
  "if address7Bit \<le> 0x7f \<and> 0 \<le> readLength \<and> \<not> (writeData = [] \<and> readLength = 0)
      \<and> length writeData \<le> 65535 \<and> readLength \<le> 65535
   then \<exists>stream. encodeTransaction address7Bit writeData readLength = Ok stream
   else \<exists>e. encodeTransaction address7Bit writeData readLength = Err e
          \<and> transport_IsKind e ErrorInvalidRequest"
  by (auto simp: encodeTransaction_def transport_IsKind_def invalid_request_def Let_def
      not_le not_less split: option.splits)

text \<open>C30: \<open>instructionLengths\<close>, which walks over a segment by index, is equivalent to the reference
  decoder that reads the commands after the marker one by one: on every byte string it fails, with
  a protocol error, exactly where the reference finds no meaning, and otherwise its two counters
  are the number of status bytes and of data bytes among the bus operations of the segment.\<close>

theorem instructionLengths_reference:
  "case packet_ops (drop 1 segment) of
     Some ops \<Rightarrow> instructionLengths segment = Ok (reported ops, reads ops)
   | None \<Rightarrow> (\<exists>msg. instructionLengths segment = Err (protocol_error ''decode CH341 stream'' msg))"
  by (rule instructionLengths_cases)

end
