(* ===== verification/UsbModel.thy ===== *)
theory UsbModel
  imports EncoderCorrect
begin

text \<open>
  The pure parts of internal/transport/ch341.go: the classification of USB library errors,
  the transfer timeout, and the choice of bulk endpoints; together with the USB library
  (github.com/google/gousb) as a parameter: a record of its calls over an arbitrary device
  state \<open>'u\<close>. Every call also says how much time it took, so that the clock of the model can
  only move forward.
\<close>

section \<open>Descriptors\<close>

type_synonym duration = int

definition time_Millisecond :: duration where [mfi_consts]: "time_Millisecond = 1000000"
definition time_Second :: duration where [mfi_consts]: "time_Second = 1000000000"

datatype transfer_type = TransferBulk | TransferOtherType
datatype direction = DirectionIn | DirectionOut

record endpoint_desc =
  ep_Number :: int
  ep_Direction :: direction
  ep_TransferType :: transfer_type

text \<open>\<^verbatim>\<open>Endpoints\<close> is a Go map; \<open>is_Endpoints\<close> lists its values in the order in which a \<^verbatim>\<open>range\<close> loop
  happens to visit them, which Go leaves unspecified.\<close>

record interface_setting =
  is_Number :: int
  is_Alternate :: int
  is_Endpoints :: "endpoint_desc list"

text \<open>\<open>dd_Configs\<close> is the map from configuration number to the interfaces of the
  configuration, each a list of alternate settings.\<close>

record device_desc =
  dd_Bus :: int
  dd_Address :: int
  dd_Speed :: string
  dd_Class :: int
  dd_Vendor :: u16
  dd_Product :: u16
  dd_Configs :: "(int \<times> interface_setting list list) list"

record device =
  dev_id :: nat
  dev_Desc :: device_desc

record in_endpoint =
  in_id :: nat
  in_MaxPacketSize :: int

section \<open>The USB library\<close>

text \<open>A call takes the device state and returns its result, its duration in nanoseconds and
  the new device state. \<^verbatim>\<open>OpenDeviceWithVIDPID\<close> returns a device or nil and an error or nil, and the
  library documents that both may be set (an error while the devices were listed) and that the
  caller then still has to close the device. The other calls return a value or an error.\<close>

type_synonym ('u, 'r) usbcall = "'u \<Rightarrow> 'r \<times> nat \<times> 'u"

record 'u gousb =
  g_OpenDeviceWithVIDPID :: "u16 \<Rightarrow> u16 \<Rightarrow> ('u, device option \<times> go_error option) usbcall"
  g_Config :: "nat \<Rightarrow> int \<Rightarrow> ('u, go_error + nat) usbcall"
  g_Interface :: "nat \<Rightarrow> int \<Rightarrow> int \<Rightarrow> ('u, go_error + nat) usbcall"
  g_InEndpoint :: "nat \<Rightarrow> int \<Rightarrow> ('u, go_error + in_endpoint) usbcall"
  g_OutEndpoint :: "nat \<Rightarrow> int \<Rightarrow> ('u, go_error + nat) usbcall"
  g_WriteContext :: "nat \<Rightarrow> duration \<Rightarrow> byte list \<Rightarrow> ('u, go_error + int) usbcall"
  g_ReadContext :: "nat \<Rightarrow> duration \<Rightarrow> nat \<Rightarrow> ('u, go_error + byte list) usbcall"
  g_InterfaceClose :: "nat \<Rightarrow> ('u, unit) usbcall"
  g_ConfigClose :: "nat \<Rightarrow> ('u, go_error option) usbcall"
  g_DeviceClose :: "nat \<Rightarrow> ('u, go_error option) usbcall"
  g_ContextClose :: "('u, go_error option) usbcall"
  g_OpenDevices :: "(device_desc \<Rightarrow> bool) \<Rightarrow> ('u, device_desc list \<times> device list) usbcall"
  g_Manufacturer :: "nat \<Rightarrow> ('u, string) usbcall"
  g_Product :: "nat \<Rightarrow> ('u, string) usbcall"
  g_jitter :: "('u, unit) usbcall"

section \<open>Error classification\<close>

fun as_transfer :: "go_error list \<Rightarrow> transfer_status option" where
  "as_transfer [] = None"
| "as_transfer (GousbTransfer c s # es) = Some c"
| "as_transfer (e # es) = as_transfer es"

fun as_usb :: "go_error list \<Rightarrow> gousb_code option" where
  "as_usb [] = None"
| "as_usb (GousbError c s # es) = Some c"
| "as_usb (e # es) = as_usb es"

fun usb_code_kind :: "gousb_code \<Rightarrow> transport_kind" where
  "usb_code_kind UsbAccess = ErrorPermission"
| "usb_code_kind UsbBusy = ErrorBusy"
| "usb_code_kind UsbNoDevice = ErrorDeviceMissing"
| "usb_code_kind UsbNotFound = ErrorDeviceMissing"
| "usb_code_kind UsbTimeout = ErrorTimeout"
| "usb_code_kind UsbInvalidParam = ErrorInvalidRequest"
| "usb_code_kind UsbPipe = ErrorProtocol"
| "usb_code_kind UsbOverflow = ErrorProtocol"
| "usb_code_kind UsbOther = ErrorIO"

definition classify_kind :: "go_error \<Rightarrow> transport_kind" where
  "classify_kind err =
     (let status = as_transfer (error_chain err); usb = as_usb (error_chain err)
      in if errors_Is err ContextDeadlineExceeded
            \<or> status = Some TransferTimedOut \<or> status = Some TransferCancelled
         then ErrorTimeout
         else if status = Some TransferNoDevice then ErrorDeviceMissing
         else if status = Some TransferStall \<or> status = Some TransferOverflow then ErrorProtocol
         else case usb of Some c \<Rightarrow> usb_code_kind c | None \<Rightarrow> ErrorIO)"

definition classifyUSBError :: "string \<Rightarrow> go_error \<Rightarrow> go_error" where
  "classifyUSBError operation err = TransportError (classify_kind err) operation (Some err)"

definition isTimeout :: "go_error \<Rightarrow> bool" where
  "isTimeout err \<longleftrightarrow> transport_IsKind (classifyUSBError ''timeout check'' err) ErrorTimeout"

definition shouldInvalidateSession :: "go_error \<Rightarrow> bool" where
  "shouldInvalidateSession err \<longleftrightarrow>
     transport_IsKind err ErrorDeviceMissing \<or> transport_IsKind err ErrorIO
     \<or> transport_IsKind err ErrorProtocol"

section \<open>Transfer timeout\<close>

definition defaultTransferTimeout :: duration where
  [mfi_consts]: "defaultTransferTimeout = 1000000000"
definition responseQuietTimeout :: duration where
  [mfi_consts]: "responseQuietTimeout = 25 * 1000000"
definition selectToReadGap :: duration where
  [mfi_consts]: "selectToReadGap = 5 * 1000000"
definition maxUSBPacketBytes :: int where
  [mfi_consts]: "maxUSBPacketBytes = 32"

text \<open>Go's integer division truncates towards zero.\<close>

definition go_div :: "int \<Rightarrow> int \<Rightarrow> int" where
  "go_div a b = sgn a * sgn b * (\<bar>a\<bar> div \<bar>b\<bar>)"

definition minimumTransferTimeout :: "int \<Rightarrow> int \<Rightarrow> int \<Rightarrow> duration" where
  "minimumTransferTimeout writeLength readLength speed =
     (let bitsPerSecond = wrap64 (speed * 1000);
          bytesOnWire = wrap64 (writeLength + readLength + 8);
          bits = wrap64 (bytesOnWire * 9);
          scaled = wrap64 (bits * time_Second);
          wire = go_div (wrap64 (wrap64 (scaled + bitsPerSecond) - 1)) bitsPerSecond
      in max defaultTransferTimeout (wrap64 (wire + defaultTransferTimeout)))"

section \<open>Bulk endpoints\<close>

text \<open>The innermost loop of \<^verbatim>\<open>findBulkEndpoints\<close>: the first bulk IN and the first bulk OUT
  endpoint visited; \<open>-1\<close> while none is found.\<close>

fun fbe_endpoints :: "endpoint_desc list \<Rightarrow> int \<Rightarrow> int \<Rightarrow> int \<times> int" where
  "fbe_endpoints [] inp outp = (inp, outp)"
| "fbe_endpoints (e # es) inp outp =
     (if ep_TransferType e \<noteq> TransferBulk then fbe_endpoints es inp outp
      else case ep_Direction e of
        DirectionIn \<Rightarrow> fbe_endpoints es (if inp < 0 then ep_Number e else inp) outp
      | DirectionOut \<Rightarrow> fbe_endpoints es inp (if outp < 0 then ep_Number e else outp))"

type_synonym bulk_choice = "int \<times> int \<times> int \<times> int \<times> int"

fun fbe_settings :: "int \<Rightarrow> interface_setting list \<Rightarrow> bulk_choice option" where
  "fbe_settings number [] = None"
| "fbe_settings number (setting # rest) =
     (let (inp, outp) = fbe_endpoints (is_Endpoints setting) (-1) (-1)
      in if inp \<ge> 0 \<and> outp \<ge> 0
         then Some (number, is_Number setting, is_Alternate setting, inp, outp)
         else fbe_settings number rest)"

fun fbe_interfaces :: "int \<Rightarrow> interface_setting list list \<Rightarrow> bulk_choice option" where
  "fbe_interfaces number [] = None"
| "fbe_interfaces number (iface # rest) =
     (case fbe_settings number iface of
        Some c \<Rightarrow> Some c
      | None \<Rightarrow> fbe_interfaces number rest)"

fun fbe_configs :: "device_desc \<Rightarrow> int list \<Rightarrow> bulk_choice option" where
  "fbe_configs desc [] = None"
| "fbe_configs desc (number # rest) =
     (case fbe_interfaces number
             (case map_of (dd_Configs desc) number of None \<Rightarrow> [] | Some is \<Rightarrow> is) of
        Some c \<Rightarrow> Some c
      | None \<Rightarrow> fbe_configs desc rest)"

definition findBulkEndpoints :: "device_desc \<Rightarrow> bulk_choice option" where
  "findBulkEndpoints desc = fbe_configs desc (sort (map fst (dd_Configs desc)))"

end
