(* ===== verification/UsbId.thy ===== *)
theory UsbId
  imports GoErrors
begin

text \<open>The USB identity type of internal/config/config.go, shared by the configuration and by the
  transport, and its textual form.\<close>

record USBID =
  Vendor :: u16
  Product :: u16

definition USBID_String :: "USBID \<Rightarrow> string" where
  "USBID_String i = fmt_04x (unat (Vendor i)) @ '':'' @ fmt_04x (unat (Product i))"

end
