(* ===== verification/Ch341.thy ===== *)
theory Ch341
  imports UsbModel UsbId "HOL-Library.Product_Lexorder"
begin

text \<open>
  The CH341 transport, internal/transport/ch341.go: the USB session (opened lazily, dropped
  after a fatal error, released by \<^verbatim>\<open>Close\<close>), the execution of an encoded stream, and the device
  inspection behind the health page. The state \<open>'u ch341\<close> holds the fields of \<^verbatim>\<open>Ch341Transport\<close>
  and \<^verbatim>\<open>ch341Session\<close>, the clock and the state \<open>'u\<close> of the USB library.

  \<^verbatim>\<open>Transaction\<close> and \<^verbatim>\<open>Close\<close> run under \<^verbatim>\<open>ioMu\<close>, and every access to the session runs under
  \<^verbatim>\<open>sessionMu\<close>; here each operation is one atomic step, and \<open>Ch341Conc\<close> takes them
  apart at the locks. A pointer to a session is its
  allocation number \<open>ses_ptr\<close>, so that the pointer comparison of \<^verbatim>\<open>invalidateSession\<close> is kept.
\<close>

section \<open>State\<close>

record ch341Session =
  ses_ptr :: nat
  ses_device :: device
  ses_config :: nat
  ses_iface :: nat
  ses_input :: in_endpoint
  ses_output :: nat
  ses_identity :: string

record 'u ch341 =
  t_usbIDs :: "USBID list"
  t_speed :: int
  t_session :: "ch341Session option"
  t_closed :: bool
  t_fresh :: nat
  t_clock :: int
  t_usb :: 'u

definition NewCh341 :: "USBID list \<Rightarrow> int \<Rightarrow> int \<Rightarrow> 'u \<Rightarrow> 'u ch341 result" where
  "NewCh341 usbIDs speed now u =
     (if length usbIDs = 0
      then Err (ErrorString ''at least one CH341 USB identity is required'')
      else case speed_command speed of
        Err e \<Rightarrow> Err e
      | Panic \<Rightarrow> Panic
      | Ok _ \<Rightarrow> Ok \<lparr>t_usbIDs = usbIDs, t_speed = speed, t_session = None, t_closed = False,
                   t_fresh = 0, t_clock = now, t_usb = u\<rparr>)"

text \<open>Running a library call: the clock advances by the time it took.\<close>

definition usb_call :: "('u, 'r) usbcall \<Rightarrow> 'u ch341 \<Rightarrow> 'r \<times> 'u ch341" where
  "usb_call f t =
     (let (r, elapsed, u) = f (t_usb t)
      in (r, t\<lparr>t_clock := t_clock t + int elapsed, t_usb := u\<rparr>))"

text \<open>\<^verbatim>\<open>time.Sleep\<close> pauses for at least the given duration.\<close>

definition ch341_sleep :: "'u gousb \<Rightarrow> duration \<Rightarrow> 'u ch341 \<Rightarrow> 'u ch341" where
  "ch341_sleep g d t = (snd (usb_call (g_jitter g) t))\<lparr>t_clock :=
      t_clock (snd (usb_call (g_jitter g) t)) + max d 0\<rparr>"

section \<open>Sessions\<close>

definition openSession ::
  "'u gousb \<Rightarrow> device \<Rightarrow> string \<Rightarrow> 'u ch341 \<Rightarrow> (go_error + ch341Session) \<times> 'u ch341" where
  "openSession g device identity t =
     (case findBulkEndpoints (dev_Desc device) of
        None \<Rightarrow> (Inl (protocol_error ''open CH341''
                       ''no USB interface has both bulk IN and OUT endpoints''), t)
      | Some (configNumber, interfaceNumber, alternate, inputNumber, outputNumber) \<Rightarrow>
          (case usb_call (g_Config g (dev_id device) configNumber) t of
             (Inl e, t1) \<Rightarrow> (Inl (classifyUSBError ''claim CH341 configuration'' e), t1)
           | (Inr usbConfig, t1) \<Rightarrow>
               (case usb_call (g_Interface g usbConfig interfaceNumber alternate) t1 of
                  (Inl e, t2) \<Rightarrow>
                    (Inl (classifyUSBError ''claim CH341 interface'' e),
                     snd (usb_call (g_ConfigClose g usbConfig) t2))
                | (Inr iface, t2) \<Rightarrow>
                    (case usb_call (g_InEndpoint g iface inputNumber) t2 of
                       (Inl e, t3) \<Rightarrow>
                         (Inl (TransportError ErrorProtocol ''open CH341 input endpoint'' (Some e)),
                          snd (usb_call (g_ConfigClose g usbConfig)
                                 (snd (usb_call (g_InterfaceClose g iface) t3))))
                     | (Inr input, t3) \<Rightarrow>
                         (case usb_call (g_OutEndpoint g iface outputNumber) t3 of
                            (Inl e, t4) \<Rightarrow>
                              (Inl (TransportError ErrorProtocol ''open CH341 output endpoint''
                                      (Some e)),
                               snd (usb_call (g_ConfigClose g usbConfig)
                                      (snd (usb_call (g_InterfaceClose g iface) t4))))
                          | (Inr output, t4) \<Rightarrow>
                              (Inr \<lparr>ses_ptr = t_fresh t4, ses_device = device,
                                   ses_config = usbConfig, ses_iface = iface, ses_input = input,
                                   ses_output = output, ses_identity = identity\<rparr>,
                               t4\<lparr>t_fresh := t_fresh t4 + 1\<rparr>))))))"

text \<open>The loop of \<^verbatim>\<open>ensureSessionLocked\<close> over the configured identities; \<open>lastError\<close> is the error of
  the last identity that failed. A device that comes together with an error is neither used nor
  closed.\<close>

fun ensure_loop ::
  "'u gousb \<Rightarrow> USBID list \<Rightarrow> go_error option \<Rightarrow> 'u ch341 \<Rightarrow> (go_error + ch341Session) \<times> 'u ch341" where
  "ensure_loop g [] lastError t =
     (case lastError of
        Some e \<Rightarrow> (Inl e, t)
      | None \<Rightarrow> (Inl (TransportError ErrorDeviceMissing ''open CH341''
                       (Some (ErrorString ''no matching USB device''))), t))"
| "ensure_loop g (i # ids) lastError t =
     (case usb_call (g_OpenDeviceWithVIDPID g (Vendor i) (Product i)) t of
        ((device, Some e), t1) \<Rightarrow>
          ensure_loop g ids (Some (classifyUSBError (''open CH341 '' @ USBID_String i) e)) t1
      | ((None, None), t1) \<Rightarrow> ensure_loop g ids lastError t1
      | ((Some device, None), t1) \<Rightarrow>
          (case openSession g device (USBID_String i) t1 of
             (Inl e, t2) \<Rightarrow>
               ensure_loop g ids (Some e) (snd (usb_call (g_DeviceClose g (dev_id device)) t2))
           | (Inr session, t2) \<Rightarrow> (Inr session, t2\<lparr>t_session := Some session\<rparr>)))"

definition ensureSessionLocked ::
  "'u gousb \<Rightarrow> 'u ch341 \<Rightarrow> (go_error + ch341Session) \<times> 'u ch341" where
  "ensureSessionLocked g t =
     (case t_session t of
        Some session \<Rightarrow> (Inr session, t)
      | None \<Rightarrow> ensure_loop g (t_usbIDs t) None t)"

definition closed_error :: go_error where
  "closed_error =
     TransportError ErrorDeviceMissing ''open CH341'' (Some (ErrorString ''USB context is closed''))"

definition currentSession :: "'u gousb \<Rightarrow> 'u ch341 \<Rightarrow> (go_error + ch341Session) \<times> 'u ch341" where
  "currentSession g t = (if t_closed t then (Inl closed_error, t) else ensureSessionLocked g t)"

definition session_close ::
  "'u gousb \<Rightarrow> ch341Session \<Rightarrow> 'u ch341 \<Rightarrow> go_error option \<times> 'u ch341" where
  "session_close g s t =
     (let t1 = snd (usb_call (g_InterfaceClose g (ses_iface s)) t);
          (configError, t2) = usb_call (g_ConfigClose g (ses_config s)) t1;
          (deviceError, t3) = usb_call (g_DeviceClose g (dev_id (ses_device s))) t2
      in (if configError \<noteq> None then configError else deviceError, t3))"

text \<open>\<^verbatim>\<open>t.session != session\<close> compares pointers.\<close>

definition invalidateSession :: "'u gousb \<Rightarrow> ch341Session \<Rightarrow> 'u ch341 \<Rightarrow> 'u ch341" where
  "invalidateSession g session t =
     (case t_session t of
        None \<Rightarrow> t
      | Some cur \<Rightarrow>
          if ses_ptr cur \<noteq> ses_ptr session then t
          else (snd (session_close g cur t))\<lparr>t_session := None\<rparr>)"

definition Close :: "'u gousb \<Rightarrow> 'u ch341 \<Rightarrow> go_error option \<times> 'u ch341" where
  "Close g t =
     (if t_closed t then (None, t)
      else
        let t0 = t\<lparr>t_closed := True\<rparr>;
            (closeError, t1) =
              (case t_session t0 of
                 None \<Rightarrow> (None, t0)
               | Some s \<Rightarrow> (let (e, t') = session_close g s t0 in (e, t'\<lparr>t_session := None\<rparr>)));
            (err, t2) = usb_call (g_ContextClose g) t1
        in (if closeError = None then err else closeError, t2))"

section \<open>Bulk transfers\<close>

definition bulkWrite ::
  "'u gousb \<Rightarrow> nat \<Rightarrow> byte list \<Rightarrow> duration \<Rightarrow> 'u ch341 \<Rightarrow> go_error option \<times> 'u ch341" where
  "bulkWrite g endpoint data timeout t =
     (case usb_call (g_WriteContext g endpoint timeout data) t of
        (Inl e, t1) \<Rightarrow> (Some (classifyUSBError ''CH341 bulk write'' e), t1)
      | (Inr transferred, t1) \<Rightarrow>
          if transferred \<noteq> int (length data)
          then (Some (protocol_error ''CH341 bulk write''
                       (''transferred '' @ showInt transferred @ '' of ''
                        @ showDec (length data) @ '' bytes'')), t1)
          else (None, t1))"

text \<open>The read loop. A library read that claims more bytes than the buffer holds would make the
  slice expression panic.\<close>

function bulk_read_loop ::
  "'u gousb \<Rightarrow> nat \<Rightarrow> nat \<Rightarrow> nat \<Rightarrow> duration \<Rightarrow> duration \<Rightarrow> bool \<Rightarrow> byte list \<Rightarrow> 'u ch341
     \<Rightarrow> byte list result \<times> 'u ch341" where
  "bulk_read_loop g endpoint packetSize maxLength first quiet allowEmpty data t =
     (if length data < maxLength
      then
        let size = min (maxLength - length data) packetSize;
            timeout = (if length data = 0 then first else quiet)
        in (case usb_call (g_ReadContext g endpoint timeout size) t of
              (Inl e, t1) \<Rightarrow>
                if (length data > 0 \<or> allowEmpty) \<and> isTimeout e then (Ok data, t1)
                else (Err (classifyUSBError ''CH341 bulk read'' e), t1)
            | (Inr got, t1) \<Rightarrow>
                if length got = 0
                then if length data > 0 \<or> allowEmpty then (Ok data, t1)
                     else (Err (TransportError ErrorDeviceMissing ''CH341 bulk read''
                                  (Some (ErrorString ''returned no data''))), t1)
                else if length got > size then (Panic, t1)
                else bulk_read_loop g endpoint packetSize maxLength first quiet allowEmpty
                       (data @ got) t1)
      else (Ok data, t))"
  by pat_completeness auto
termination
  by (relation "measure (\<lambda>(g, endpoint, packetSize, maxLength, first, quiet, allowEmpty, data, t).
        maxLength - length data)") (auto intro!: diff_less_mono2)

declare bulk_read_loop.simps [simp del]

definition bulkReadAtMost ::
  "'u gousb \<Rightarrow> in_endpoint \<Rightarrow> nat \<Rightarrow> duration \<Rightarrow> duration \<Rightarrow> bool \<Rightarrow> 'u ch341
     \<Rightarrow> byte list result \<times> 'u ch341" where
  "bulkReadAtMost g endpoint maxLength firstPacketTimeout quietTimeout allowEmpty t =
     (if maxLength = 0 then (Ok [], t)
      else bulk_read_loop g (in_id endpoint)
             (nat (min (max (in_MaxPacketSize endpoint) 1) maxUSBPacketBytes))
             maxLength firstPacketTimeout quietTimeout allowEmpty [] t)"

section \<open>Transactions\<close>

fun exec_loop ::
  "'u gousb \<Rightarrow> ch341Session \<Rightarrow> duration \<Rightarrow> byte list list \<Rightarrow> byte list \<Rightarrow> 'u ch341
     \<Rightarrow> byte list result \<times> 'u ch341" where
  "exec_loop g session timeout [] response t = (Ok response, t)"
| "exec_loop g session timeout (segment # rest) response t =
     (case bulkWrite g (ses_output session) segment timeout t of
        (Some e, t1) \<Rightarrow> (Err e, t1)
      | (None, t1) \<Rightarrow>
          (case instructionLengths segment of
             Err e \<Rightarrow> (Err e, t1)
           | Panic \<Rightarrow> (Panic, t1)
           | Ok (writtenBytes, dataBytes) \<Rightarrow>
               if writtenBytes + dataBytes > 0
               then
                 (case bulkReadAtMost g (ses_input session) (nat (writtenBytes + dataBytes))
                         (if dataBytes > 0 then timeout else responseQuietTimeout)
                         responseQuietTimeout (dataBytes = 0) t1 of
                    (Err e, t2) \<Rightarrow> (Err e, t2)
                  | (Panic, t2) \<Rightarrow> (Panic, t2)
                  | (Ok received, t2) \<Rightarrow>
                      if int (length received) < dataBytes
                      then (Err (TransportError ErrorDeviceMissing ''read CH341 stream response''
                                   (Some (ErrorString (''answered '' @ showDec (length received)
                                      @ '' bytes; expected '' @ showInt dataBytes
                                      @ '' data bytes'')))), t2)
                      else
                        let dataStart = length received - nat dataBytes
                        in (case checkStatusBytes (take dataStart received) of
                              Some e \<Rightarrow> (Err e, t2)
                            | None \<Rightarrow>
                                exec_loop g session timeout rest
                                  (response @ drop dataStart received) t2))
               else exec_loop g session timeout rest response t1))"

definition execute ::
  "'u gousb \<Rightarrow> ch341Session \<Rightarrow> byte list \<Rightarrow> nat \<Rightarrow> int \<Rightarrow> 'u ch341
     \<Rightarrow> byte list result \<times> 'u ch341" where
  "execute g session stream writeLength readLength t =
     (case encodeConfiguration (t_speed t) of
        Err e \<Rightarrow> (Err e, t)
      | Panic \<Rightarrow> (Panic, t)
      | Ok configuration \<Rightarrow>
          let timeout = minimumTransferTimeout (int writeLength) readLength (t_speed t)
          in (case bulkWrite g (ses_output session) configuration timeout t of
                (Some e, t1) \<Rightarrow> (Err e, t1)
              | (None, t1) \<Rightarrow>
                  let t2 = (if writeLength = 0 \<and> readLength > 0
                            then ch341_sleep g selectToReadGap t1 else t1)
                  in (case exec_loop g session timeout (chunks maxStreamPacketBytes stream) [] t2 of
                        (Err e, t3) \<Rightarrow> (Err e, t3)
                      | (Panic, t3) \<Rightarrow> (Panic, t3)
                      | (Ok response, t3) \<Rightarrow>
                          if int (length response) \<noteq> readLength
                          then (Err (protocol_error ''CH341 transaction''
                                       (''returned '' @ showDec (length response)
                                        @ '' bytes; expected '' @ showInt readLength)), t3)
                          else (Ok response, t3))))"

definition Transaction ::
  "'u gousb \<Rightarrow> byte \<Rightarrow> byte list \<Rightarrow> int \<Rightarrow> 'u ch341 \<Rightarrow> byte list result \<times> 'u ch341" where
  "Transaction g address7Bit writeData readLength t =
     (case encodeTransaction address7Bit writeData readLength of
        Err e \<Rightarrow> (Err e, t)
      | Panic \<Rightarrow> (Panic, t)
      | Ok stream \<Rightarrow>
          (case currentSession g t of
             (Inl e, t1) \<Rightarrow> (Err e, t1)
           | (Inr session, t1) \<Rightarrow>
               (case execute g session stream (length writeData) readLength t1 of
                  (Err e, t2) \<Rightarrow>
                    (Err e, if shouldInvalidateSession e then invalidateSession g session t2 else t2)
                | (r, t2) \<Rightarrow> (r, t2))))"

section \<open>Inspection\<close>

record USBDeviceInfo =
  inf_Bus :: int
  inf_Device :: int
  inf_Vendor :: string
  inf_ProductID :: string
  inf_Manufacturer :: string
  inf_Product :: string
  inf_Speed :: string
  inf_Class :: int
  inf_Candidate :: bool

record USBStatus =
  us_State :: string
  us_Reason :: string
  us_VIDPID :: string
  us_Devices :: "USBDeviceInfo list"

definition usbDeviceKey :: "int \<Rightarrow> int \<Rightarrow> string" where
  "usbDeviceKey bus address = showInt bus @ '':'' @ showInt address"

fun usb_matches :: "USBID list \<Rightarrow> u16 \<Rightarrow> u16 \<Rightarrow> bool" where
  "usb_matches [] vendor product = False"
| "usb_matches (i # ids) vendor product =
     (if Vendor i = vendor \<and> Product i = product then True else usb_matches ids vendor product)"

text \<open>The Go map \<^verbatim>\<open>descriptors\<close> is an association list with at most one entry per key.\<close>

fun al_put :: "'k \<Rightarrow> 'v \<Rightarrow> ('k \<times> 'v) list \<Rightarrow> ('k \<times> 'v) list" where
  "al_put k v [] = [(k, v)]"
| "al_put k v ((k', v') # kvs) = (if k' = k then (k, v) # kvs else (k', v') # al_put k v kvs)"

definition device_info :: "USBID list \<Rightarrow> device_desc \<Rightarrow> USBDeviceInfo" where
  "device_info ids desc =
     \<lparr>inf_Bus = dd_Bus desc, inf_Device = dd_Address desc,
      inf_Vendor = fmt_04x (unat (dd_Vendor desc)), inf_ProductID = fmt_04x (unat (dd_Product desc)),
      inf_Manufacturer = [], inf_Product = [], inf_Speed = dd_Speed desc, inf_Class = dd_Class desc,
      inf_Candidate = usb_matches ids (dd_Vendor desc) (dd_Product desc)\<rparr>"

text \<open>The callback of \<^verbatim>\<open>OpenDevices\<close>, run on every descriptor the library visits.\<close>

fun collect_descriptors ::
  "USBID list \<Rightarrow> device_desc list \<Rightarrow> (string \<times> USBDeviceInfo) list
     \<Rightarrow> (string \<times> USBDeviceInfo) list" where
  "collect_descriptors ids [] m = m"
| "collect_descriptors ids (d # ds) m =
     collect_descriptors ids ds
       (al_put (usbDeviceKey (dd_Bus d) (dd_Address d)) (device_info ids d) m)"

text \<open>The loop over the opened devices: read the strings, close the device.\<close>

fun read_strings ::
  "'u gousb \<Rightarrow> device list \<Rightarrow> (string \<times> USBDeviceInfo) list \<Rightarrow> 'u ch341
     \<Rightarrow> (string \<times> USBDeviceInfo) list \<times> 'u ch341" where
  "read_strings g [] m t = (m, t)"
| "read_strings g (d # ds) m t =
     (let key = usbDeviceKey (dd_Bus (dev_Desc d)) (dd_Address (dev_Desc d));
          (m1, t1) =
            (case map_of m key of
               None \<Rightarrow> (m, t)
             | Some info \<Rightarrow>
                 let (manufacturer, ta) = usb_call (g_Manufacturer g (dev_id d)) t;
                     (product, tb) = usb_call (g_Product g (dev_id d)) ta
                 in (al_put key (info\<lparr>inf_Manufacturer := manufacturer, inf_Product := product\<rparr>) m,
                     tb));
          t2 = snd (usb_call (g_DeviceClose g (dev_id d)) t1)
      in read_strings g ds m1 t2)"

definition enumerateUSB ::
  "'u gousb \<Rightarrow> bool \<Rightarrow> 'u ch341 \<Rightarrow> (USBDeviceInfo list \<times> bool) \<times> 'u ch341" where
  "enumerateUSB g includeDeviceStrings t =
     (let ((visited, devices), t1) = usb_call (g_OpenDevices g (\<lambda>_. includeDeviceStrings)) t;
          descriptors = collect_descriptors (t_usbIDs t) visited [];
          (descriptors', t2) = read_strings g devices descriptors t1;
          infos = map snd descriptors'
      in ((sort_key (\<lambda>i. (inf_Bus i, inf_Device i)) infos, list_ex inf_Candidate infos), t2))"

definition InspectUSB :: "'u gousb \<Rightarrow> bool \<Rightarrow> 'u ch341 \<Rightarrow> USBStatus \<times> 'u ch341" where
  "InspectUSB g includeDeviceStrings t =
     (case enumerateUSB g includeDeviceStrings t of
        ((devices, candidateFound), t1) \<Rightarrow>
          if \<not> candidateFound
          then (\<lparr>us_State = ''missing'', us_Reason = ''no matching USB device'', us_VIDPID = [],
                 us_Devices = devices\<rparr>, t1)
          else if t_closed t1
          then (\<lparr>us_State = ''error'', us_Reason = ''USB context is closed'', us_VIDPID = [],
                 us_Devices = devices\<rparr>, t1)
          else
            (case ensureSessionLocked g t1 of
               (Inl e, t2) \<Rightarrow>
                 (\<lparr>us_State = ''error'', us_Reason = error_text e, us_VIDPID = [],
                   us_Devices = devices\<rparr>, t2)
             | (Inr session, t2) \<Rightarrow>
                 (\<lparr>us_State = ''ready'', us_Reason = [], us_VIDPID = ses_identity session,
                   us_Devices = devices\<rparr>, t2)))"

end
