(* ===== verification/Ch341Correct.thy ===== *)
theory Ch341Correct
  imports Ch341
begin

text \<open>
  Properties of the CH341 transport: what no operation changes, the life cycle of the USB
  session, the length contract of \<^verbatim>\<open>Transaction\<close>, its success on a device that answers every
  packet, the transfer timeout and the endpoint choice.
\<close>

section \<open>Frame: what the operations leave alone\<close>

text \<open>\<open>t_extends t t'\<close>: \<open>t'\<close> comes later than \<open>t\<close>, with the same configuration and the same
  closed flag, and no session pointer is reused.\<close>

definition t_extends :: "'u ch341 \<Rightarrow> 'u ch341 \<Rightarrow> bool" where
  "t_extends t t' \<longleftrightarrow> t_usbIDs t' = t_usbIDs t \<and> t_speed t' = t_speed t
     \<and> t_closed t' = t_closed t \<and> t_fresh t \<le> t_fresh t' \<and> t_clock t \<le> t_clock t'"

text \<open>\<open>t_quiet t t'\<close>: additionally the session is untouched.\<close>

definition t_quiet :: "'u ch341 \<Rightarrow> 'u ch341 \<Rightarrow> bool" where
  "t_quiet t t' \<longleftrightarrow> t_extends t t' \<and> t_session t' = t_session t \<and> t_fresh t' = t_fresh t"

lemma t_extends_refl [simp, intro]: "t_extends t t"
  by (simp add: t_extends_def)

lemma t_extends_trans: "t_extends t t' \<Longrightarrow> t_extends t' t'' \<Longrightarrow> t_extends t t''"
  by (auto simp: t_extends_def)

lemma t_quiet_refl [simp, intro]: "t_quiet t t"
  by (simp add: t_quiet_def)

lemma t_quiet_trans: "t_quiet t t' \<Longrightarrow> t_quiet t' t'' \<Longrightarrow> t_quiet t t''"
  by (auto simp: t_quiet_def dest: t_extends_trans)

lemma t_quiet_extends: "t_quiet t t' \<Longrightarrow> t_extends t t'"
  by (simp add: t_quiet_def)

lemma usb_call_quiet: "t_quiet t (snd (usb_call f t))"
  by (simp add: usb_call_def t_quiet_def t_extends_def split: prod.splits)

lemma usb_call_quietD: "usb_call f t = (r, t') \<Longrightarrow> t_quiet t t'"
  using usb_call_quiet [of t f] by simp

lemma ch341_sleep_quiet: "t_quiet t (ch341_sleep g d t)"
  using usb_call_quiet [of t "g_jitter g"]
  by (auto simp: ch341_sleep_def t_quiet_def t_extends_def max_def)

lemma ch341_sleep_clock: "t_clock t + d \<le> t_clock (ch341_sleep g d t)"
  using usb_call_quiet [of t "g_jitter g"]
  by (auto simp: ch341_sleep_def t_quiet_def t_extends_def max_def)

text \<open>Executing a stream consists of bulk transfers and pauses: what each of them keeps, the execution
  keeps.\<close>

definition transfers_keep :: "'u gousb \<Rightarrow> ('u ch341 \<Rightarrow> bool) \<Rightarrow> bool" where
  "transfers_keep g P \<longleftrightarrow>
     (\<forall>ep to data t. P t \<longrightarrow> P (snd (usb_call (g_WriteContext g ep to data) t)))
     \<and> (\<forall>ep to n t. P t \<longrightarrow> P (snd (usb_call (g_ReadContext g ep to n) t)))
     \<and> (\<forall>d t. P t \<longrightarrow> P (ch341_sleep g d t))"

lemma keeps_write: "transfers_keep g P \<Longrightarrow> usb_call (g_WriteContext g ep to data) t = (r, t') \<Longrightarrow> P t \<Longrightarrow> P t'"
  unfolding transfers_keep_def by (metis snd_conv)

lemma keeps_read: "transfers_keep g P \<Longrightarrow> usb_call (g_ReadContext g ep to n) t = (r, t') \<Longrightarrow> P t \<Longrightarrow> P t'"
  unfolding transfers_keep_def by (metis snd_conv)

lemma bulkWrite_keeps:
  "transfers_keep g P \<Longrightarrow> bulkWrite g ep data timeout t = (r, t') \<Longrightarrow> P t \<Longrightarrow> P t'"
  by (auto simp: bulkWrite_def split: prod.splits sum.splits if_splits dest: keeps_write)

lemma bulk_read_loop_step:
  assumes "length data < mx" and "sz = min (mx - length data) ps"
    and "usb_call (g_ReadContext g ep (if length data = 0 then fst_to else quiet) sz) t
           = (Inr got, t1)"
    and "got \<noteq> []" and "\<not> length got > sz"
  shows "bulk_read_loop g ep ps mx fst_to quiet ae data t
       = bulk_read_loop g ep ps mx fst_to quiet ae (data @ got) t1"
  using assms by (simp add: bulk_read_loop.simps [of g ep ps mx fst_to quiet ae data t])

lemma bulk_read_loop_keeps:
  "transfers_keep g P \<Longrightarrow> bulk_read_loop g ep ps mx fst_to quiet ae data t = (r, t') \<Longrightarrow> P t \<Longrightarrow> P t'"
proof (induction g ep ps mx fst_to quiet ae data t rule: bulk_read_loop.induct)
  case (1 g ep ps mx fst_to quiet ae data t)
  let ?size = "min (mx - length data) ps"
  let ?to = "if length data = 0 then fst_to else quiet"
  obtain rd t1 where c: "usb_call (g_ReadContext g ep ?to ?size) t = (rd, t1)" by fastforce
  have q: "P t1" by (rule keeps_read [OF 1(2) c 1(4)])
  show ?case
  proof (cases "length data < mx \<and> (\<exists>got. rd = Inr got \<and> length got \<noteq> 0 \<and> \<not> length got > ?size)")
    case True
    then obtain got where got: "rd = Inr got" "length got \<noteq> 0" "\<not> length got > ?size"
      "length data < mx" by blast
    then have "bulk_read_loop g ep ps mx fst_to quiet ae (data @ got) t1 = (r, t')"
      using 1(3) c by (simp add: bulk_read_loop.simps [of g ep ps mx fst_to quiet ae data t])
    then show ?thesis
      using 1(1) [OF got(4) refl refl c [symmetric] got(1) got(2,3) 1(2)] q by blast
  next
    case False
    then show ?thesis using 1(3,4) c q
      by (auto simp: bulk_read_loop.simps [of g ep ps mx fst_to quiet ae data t] Let_def
          split: if_splits sum.splits)
  qed
qed

lemma bulkReadAtMost_keeps:
  "transfers_keep g P \<Longrightarrow> bulkReadAtMost g ep mx fst_to quiet ae t = (r, t') \<Longrightarrow> P t \<Longrightarrow> P t'"
  by (auto simp: bulkReadAtMost_def split: if_splits dest: bulk_read_loop_keeps)

lemma exec_loop_keeps:
  assumes "transfers_keep g P"
  shows "exec_loop g s timeout segs resp t = (r, t') \<Longrightarrow> P t \<Longrightarrow> P t'"
proof (induction segs arbitrary: resp t)
  case Nil
  then show ?case by simp
next
  case (Cons seg segs)
  obtain w t1 where w: "bulkWrite g (ses_output s) seg timeout t = (w, t1)" by fastforce
  have q1: "P t1" by (rule bulkWrite_keeps [OF assms w Cons.prems(2)])
  show ?case
  proof (cases "\<exists>a b. w = None \<and> instructionLengths seg = Ok (a, b)")
    case False
    with Cons.prems w q1 show ?thesis
      by (auto split: option.splits result.splits)
  next
    case True
    then obtain a b where ab: "w = None" "instructionLengths seg = Ok (a, b)" by blast
    show ?thesis
    proof (cases "a + b > 0")
      case False
      with Cons.prems ab w have "exec_loop g s timeout segs resp t1 = (r, t')" by simp
      from Cons.IH [OF this q1] show ?thesis .
    next
      case pos: True
      obtain rd t2 where rd: "bulkReadAtMost g (ses_input s) (nat (a + b))
          (if b > 0 then timeout else responseQuietTimeout) responseQuietTimeout (b = 0) t1
          = (rd, t2)" by fastforce
      have q2: "P t2" by (rule bulkReadAtMost_keeps [OF assms rd q1])
      show ?thesis
        using Cons.prems ab w pos rd q2
        by (auto simp: Let_def split: result.splits if_splits option.splits dest: Cons.IH)
    qed
  qed
qed

lemma execute_keeps:
  assumes "transfers_keep g P" and "execute g s stream wl rl t = (r, t')" and "P t"
  shows "P t'"
proof -
  have sleep: "P u \<Longrightarrow> P (ch341_sleep g d u)" for u d using assms(1) by (simp add: transfers_keep_def)
  from assms(2,3) show ?thesis
    by (auto simp: execute_def Let_def split: result.splits prod.splits option.splits if_splits
        dest!: exec_loop_keeps [OF assms(1)] dest: bulkWrite_keeps [OF assms(1)] sleep)
qed

lemma transfers_quiet: "transfers_keep g (t_quiet t)"
  by (auto simp: transfers_keep_def intro: t_quiet_trans usb_call_quiet ch341_sleep_quiet)

lemma execute_quiet: "execute g s stream wl rl t = (r, t') \<Longrightarrow> t_quiet t t'"
  by (rule execute_keeps [OF transfers_quiet]) auto

section \<open>Session life cycle\<close>

text \<open>The invariant of the transport: a closed transport has no session, and the pointer of the
  current session has been allocated.\<close>

definition ch341_wf :: "'u ch341 \<Rightarrow> bool" where
  "ch341_wf t \<longleftrightarrow> (\<forall>s. t_session t = Some s \<longrightarrow> \<not> t_closed t \<and> ses_ptr s < t_fresh t)"

lemma t_quiet_wf: "t_quiet t t' \<Longrightarrow> ch341_wf t \<Longrightarrow> ch341_wf t'"
  by (auto simp: t_quiet_def t_extends_def ch341_wf_def)

lemma openSession_extends:
  assumes "openSession g d i t = (r, t')"
  shows "t_extends t t' \<and> t_session t' = t_session t
     \<and> (\<forall>s. r = Inr s \<longrightarrow> ses_ptr s < t_fresh t' \<and> ses_identity s = i \<and> ses_device s = d)"
proof (cases "findBulkEndpoints (dev_Desc d)")
  case None
  with assms show ?thesis by (auto simp: openSession_def)
next
  case (Some b)
  obtain cn inn al ip op where b: "b = (cn, inn, al, ip, op)" by (cases b)
  obtain c t1 where c: "usb_call (g_Config g (dev_id d) cn) t = (c, t1)" by fastforce
  note q1 = usb_call_quietD [OF c]
  show ?thesis
  proof (cases c)
    case (Inl e)
    with assms Some b c q1 show ?thesis
      by (auto simp: openSession_def t_quiet_def)
  next
    case cfg: (Inr cfg)
    obtain i2 t2 where i2: "usb_call (g_Interface g cfg inn al) t1 = (i2, t2)" by fastforce
    note q2 = t_quiet_trans [OF q1 usb_call_quietD [OF i2]]
    have close: "t_quiet t (snd (usb_call f t''))" if "t_quiet t t''"
      for f :: "('a, 'r) usbcall" and t''
      using that usb_call_quiet by (rule t_quiet_trans)
    show ?thesis
    proof (cases i2)
      case (Inl e)
      with assms Some b c cfg i2 close [OF q2] show ?thesis
        by (auto simp: openSession_def t_quiet_def)
    next
      case ifc: (Inr ifc)
      obtain i3 t3 where i3: "usb_call (g_InEndpoint g ifc ip) t2 = (i3, t3)" by fastforce
      note q3 = t_quiet_trans [OF q2 usb_call_quietD [OF i3]]
      obtain o4 t4 where o4: "usb_call (g_OutEndpoint g ifc op) t3 = (o4, t4)" by fastforce
      note q4 = t_quiet_trans [OF q3 usb_call_quietD [OF o4]]
      note e3 = close [OF close [OF q3, of "g_InterfaceClose g ifc"], of "g_ConfigClose g cfg"]
      note e4 = close [OF close [OF q4, of "g_InterfaceClose g ifc"], of "g_ConfigClose g cfg"]
      show ?thesis
        using assms Some b c cfg i2 ifc i3 o4 q4 e3 e4
        by (cases i3; cases o4) (auto simp: openSession_def t_quiet_def t_extends_def)
    qed
  qed
qed

lemma ensure_loop_extends:
  assumes "ensure_loop g ids le t = (r, t')" and "t_session t = None"
  shows "t_extends t t' \<and>
     (case r of Inl e \<Rightarrow> t_session t' = None
              | Inr s \<Rightarrow> t_session t' = Some s \<and> ses_ptr s < t_fresh t')"
  using assms
proof (induction ids arbitrary: le t)
  case Nil
  then show ?case by (auto split: option.splits)
next
  case (Cons i ids)
  obtain o1 t1 where o1: "usb_call (g_OpenDeviceWithVIDPID g (Vendor i) (Product i)) t = (o1, t1)"
    by fastforce
  note q1 = usb_call_quietD [OF o1]
  then have n1: "t_session t1 = None" and e1: "t_extends t t1"
    using Cons.prems(2) by (auto simp: t_quiet_def)
  show ?case
  proof (cases "\<exists>d. o1 = (Some d, None)")
    case False
    then obtain le' where "ensure_loop g ids le' t1 = (r, t')"
      using Cons.prems(1) o1 by (cases o1) (auto split: option.splits)
    from Cons.IH [OF this n1] e1 show ?thesis by (auto intro: t_extends_trans)
  next
    case True
    then obtain d where d: "o1 = (Some d, None)" by blast
    obtain s2 t2 where s2: "openSession g d (USBID_String i) t1 = (s2, t2)" by fastforce
    note x2 = openSession_extends [OF s2]
    then have e2: "t_extends t t2" and n2: "t_session t2 = None"
      using e1 n1 by (auto intro: t_extends_trans)
    show ?thesis
    proof (cases s2)
      case (Inr s)
      with Cons.prems(1) o1 d s2 e2 x2 show ?thesis
        by (auto simp: t_extends_def)
    next
      case (Inl e)
      let ?t3 = "snd (usb_call (g_DeviceClose g (dev_id d)) t2)"
      have q3: "t_quiet t2 ?t3" by (rule usb_call_quiet)
      then have "t_session ?t3 = None" using n2 by (simp add: t_quiet_def)
      moreover have "ensure_loop g ids (Some e) ?t3 = (r, t')"
        using Cons.prems(1) o1 d s2 Inl by simp
      moreover have "t_extends t ?t3"
        using e2 t_quiet_extends [OF q3] by (rule t_extends_trans)
      ultimately show ?thesis
        using Cons.IH [of "Some e" ?t3] by (auto intro: t_extends_trans)
    qed
  qed
qed

lemma ensureSessionLocked_extends:
  assumes "ensureSessionLocked g t = (r, t')" and "ch341_wf t" and "\<not> t_closed t"
  shows "t_extends t t' \<and> ch341_wf t' \<and>
     (case r of Inl e \<Rightarrow> t_session t' = None | Inr s \<Rightarrow> t_session t' = Some s)"
proof (cases "t_session t")
  case None
  with assms(1) have "ensure_loop g (t_usbIDs t) None t = (r, t')"
    by (simp add: ensureSessionLocked_def)
  from ensure_loop_extends [OF this None] assms(3) show ?thesis
    by (auto simp: ch341_wf_def t_extends_def split: sum.splits)
next
  case (Some s)
  with assms show ?thesis by (auto simp: ensureSessionLocked_def)
qed

lemma currentSession_extends:
  assumes "currentSession g t = (r, t')" and "ch341_wf t"
  shows "t_extends t t' \<and> ch341_wf t' \<and>
     (case r of Inl e \<Rightarrow> t_session t' = None
              | Inr s \<Rightarrow> t_session t' = Some s \<and> \<not> t_closed t')"
  using assms ensureSessionLocked_extends [of g t r t']
  by (auto simp: currentSession_def ch341_wf_def t_extends_def split: if_splits sum.splits)

lemma session_close_quiet: "session_close g s t = (r, t') \<Longrightarrow> t_quiet t t'"
  by (auto simp: session_close_def Let_def split: prod.splits
      dest!: usb_call_quietD intro: t_quiet_trans usb_call_quiet)

lemma invalidateSession_extends:
  "t_extends t (invalidateSession g s t) \<and>
     t_session (invalidateSession g s t) =
       (case t_session t of None \<Rightarrow> None
        | Some cur \<Rightarrow> if ses_ptr cur = ses_ptr s then None else Some cur)"
proof (cases "t_session t")
  case None
  then show ?thesis by (simp add: invalidateSession_def)
next
  case (Some cur)
  have "t_quiet t (snd (session_close g cur t))"
    by (rule session_close_quiet [of g cur t "fst (session_close g cur t)"]) simp
  with Some show ?thesis
    by (auto simp: invalidateSession_def t_quiet_def t_extends_def)
qed

lemma Transaction_extends:
  assumes "Transaction g a w n t = (r, t')" and "ch341_wf t"
  shows "t_extends t t' \<and> ch341_wf t'"
proof (cases "encodeTransaction a w n")
  case (Ok stream)
  obtain s1 t1 where s1: "currentSession g t = (s1, t1)" by fastforce
  note x1 = currentSession_extends [OF s1 assms(2)]
  show ?thesis
  proof (cases s1)
    case (Inl e)
    with assms Ok s1 x1 show ?thesis by (auto simp: Transaction_def)
  next
    case (Inr s)
    obtain r2 t2 where r2: "execute g s stream (length w) n t1 = (r2, t2)" by fastforce
    note q2 = execute_quiet [OF r2]
    have x2: "t_extends t t2" "ch341_wf t2"
      using x1 q2 by (auto intro: t_extends_trans t_quiet_extends t_quiet_wf)
    have "t' = t2 \<or> t' = invalidateSession g s t2"
      using assms(1) Ok s1 Inr r2 by (auto simp: Transaction_def split: result.splits)
    moreover have "ch341_wf (invalidateSession g s t2)"
      using x2(2) invalidateSession_extends [of t2 g s]
      by (auto simp: ch341_wf_def t_extends_def split: option.splits if_splits)
    ultimately show ?thesis
      using x2 invalidateSession_extends [of t2 g s] by (auto intro: t_extends_trans)
  qed
qed (use assms in \<open>auto simp: Transaction_def\<close>)

lemma read_strings_quiet: "read_strings g ds m t = (m', t') \<Longrightarrow> t_quiet t t'"
proof (induction ds arbitrary: m t)
  case Nil
  then show ?case by simp
next
  case (Cons d ds)
  let ?key = "usbDeviceKey (dd_Bus (dev_Desc d)) (dd_Address (dev_Desc d))"
  obtain m1 t1 where c: "(case map_of m ?key of None \<Rightarrow> (m, t) | Some info \<Rightarrow>
      let (ma, ta) = usb_call (g_Manufacturer g (dev_id d)) t;
          (pr, tb) = usb_call (g_Product g (dev_id d)) ta
      in (al_put ?key (info\<lparr>inf_Manufacturer := ma, inf_Product := pr\<rparr>) m, tb)) = (m1, t1)"
    by fastforce
  then have "t_quiet t t1"
    by (auto split: option.splits prod.splits dest!: usb_call_quietD intro: t_quiet_trans)
  then have "t_quiet t (snd (usb_call (g_DeviceClose g (dev_id d)) t1))"
    using usb_call_quiet by (rule t_quiet_trans)
  moreover have "read_strings g ds m1 (snd (usb_call (g_DeviceClose g (dev_id d)) t1)) = (m', t')"
    using Cons.prems c by (simp add: Let_def)
  ultimately show ?case
    using Cons.IH by (blast intro: t_quiet_trans)
qed

lemma enumerateUSB_quiet: "enumerateUSB g b t = (r, t') \<Longrightarrow> t_quiet t t'"
  by (auto simp: enumerateUSB_def Let_def split: prod.splits
      dest!: usb_call_quietD read_strings_quiet intro: t_quiet_trans)

lemma InspectUSB_extends:
  assumes "InspectUSB g b t = (r, t')" and "ch341_wf t"
  shows "t_extends t t' \<and> ch341_wf t'"
proof -
  obtain ds c t1 where e: "enumerateUSB g b t = ((ds, c), t1)"
    by (metis prod.exhaust)
  note q = enumerateUSB_quiet [OF e]
  have w: "ch341_wf t1" "t_extends t t1"
    using q assms(2) by (auto intro: t_quiet_wf t_quiet_extends)
  obtain s2 t2 where s2: "ensureSessionLocked g t1 = (s2, t2)" by fastforce
  have "t' = t1 \<or> (\<not> t_closed t1 \<and> t' = t2)"
    using assms(1) e s2 by (auto simp: InspectUSB_def split: if_splits sum.splits)
  with w ensureSessionLocked_extends [OF s2 w(1)] show ?thesis
    by (auto intro: t_extends_trans)
qed

lemma Close_state:
  assumes "Close g t = (r, t')" and "ch341_wf t"
  shows "t_closed t' \<and> t_session t' = None \<and> ch341_wf t' \<and> t_clock t \<le> t_clock t'"
proof (cases "t_closed t")
  case True
  with assms show ?thesis by (cases "t_session t") (auto simp: Close_def ch341_wf_def)
next
  case False
  let ?t0 = "t\<lparr>t_closed := True\<rparr>"
  obtain e1 t1 where c: "(case t_session ?t0 of None \<Rightarrow> (None, ?t0)
      | Some s \<Rightarrow> (let (e, t') = session_close g s ?t0 in (e, t'\<lparr>t_session := None\<rparr>))) = (e1, t1)"
    by fastforce
  then have "t_closed t1 \<and> t_session t1 = None \<and> t_clock t \<le> t_clock t1"
    by (auto simp: t_quiet_def t_extends_def split: option.splits prod.splits
        dest!: session_close_quiet)
  moreover obtain e2 t2 where c2: "usb_call (g_ContextClose g) t1 = (e2, t2)" by fastforce
  ultimately have "t_closed t2 \<and> t_session t2 = None \<and> t_clock t \<le> t_clock t2"
    using usb_call_quietD [OF c2] by (auto simp: t_quiet_def t_extends_def)
  moreover have "t' = t2"
    using assms(1) False c c2 by (simp add: Close_def)
  ultimately show ?thesis by (simp add: ch341_wf_def)
qed

text \<open>The operations of the transport as a step relation, and the states they reach.\<close>

inductive ch341_step :: "'u gousb \<Rightarrow> 'u ch341 \<Rightarrow> 'u ch341 \<Rightarrow> bool" for g where
  step_transaction: "Transaction g a w n t = (r, t') \<Longrightarrow> ch341_step g t t'"
| step_inspect: "InspectUSB g b t = (st, t') \<Longrightarrow> ch341_step g t t'"
| step_close: "Close g t = (e, t') \<Longrightarrow> ch341_step g t t'"
| step_sleep: "ch341_step g t (ch341_sleep g d t)"

inductive ch341_reach :: "'u gousb \<Rightarrow> 'u ch341 \<Rightarrow> bool" for g where
  reach_new: "NewCh341 ids speed now u = Ok t \<Longrightarrow> ch341_reach g t"
| reach_step: "ch341_reach g t \<Longrightarrow> ch341_step g t t' \<Longrightarrow> ch341_reach g t'"

lemma NewCh341_Ok:
  "NewCh341 ids speed now u = Ok t \<Longrightarrow>
     t_session t = None \<and> \<not> t_closed t \<and> t_usbIDs t \<noteq> [] \<and> speed_command (t_speed t) \<noteq> Panic
     \<and> (\<exists>c. speed_command (t_speed t) = Ok c)"
  by (auto simp: NewCh341_def split: if_splits result.splits)

lemma ch341_step_wf: "ch341_step g t t' \<Longrightarrow> ch341_wf t \<Longrightarrow> ch341_wf t'"
  by (induction rule: ch341_step.induct)
     (auto dest: Transaction_extends InspectUSB_extends Close_state
       intro: t_quiet_wf [OF ch341_sleep_quiet])

lemma ch341_reach_wf: "ch341_reach g t \<Longrightarrow> ch341_wf t"
  by (induction rule: ch341_reach.induct)
     (auto dest: ch341_step_wf NewCh341_Ok simp: ch341_wf_def)

section \<open>A device that answers\<close>

text \<open>
  What a working CH341 does, as a hypothesis on the USB library parameter: a written packet is
  transferred completely; for every byte of it that reports a status an acknowledging status
  byte, and then the bytes read from the bus, become pending; a read returns a non-empty prefix of
  the pending bytes. \<open>sent\<close> is the history of the bytes read from the bus.
\<close>

definition answers :: "'u gousb \<Rightarrow> ('u \<Rightarrow> byte list) \<Rightarrow> ('u \<Rightarrow> byte list) \<Rightarrow> bool" where
  "answers g pending sent \<longleftrightarrow>
     (\<forall>ep to data u. \<exists>dt u'. g_WriteContext g ep to data u = (Inr (int (length data)), dt, u')
        \<and> (\<forall>ops. pending u = [] \<longrightarrow> packet_ops (tl data) = Some ops \<longrightarrow>
             (\<exists>status payload. pending u' = status @ payload
                \<and> int (length status) = reported ops \<and> list_all (\<lambda>b. b AND ackBit = 0) status
                \<and> int (length payload) = reads ops \<and> sent u' = sent u @ payload)))
     \<and> (\<forall>ep to n u. \<exists>k dt u'. g_ReadContext g ep to n u = (Inr (take k (pending u)), dt, u')
        \<and> (0 < n \<longrightarrow> 0 < k) \<and> k \<le> n \<and> pending u' = drop k (pending u) \<and> sent u' = sent u)
     \<and> (\<forall>u. \<exists>dt u'. g_jitter g u = ((), dt, u') \<and> pending u' = pending u \<and> sent u' = sent u)"

lemma checkStatusBytes_None: "checkStatusBytes st = None \<longleftrightarrow> list_all (\<lambda>b. b AND ackBit = 0) st"
proof -
  have "csb_loop i st = None \<longleftrightarrow> list_all (\<lambda>b. b AND ackBit = 0) st" for i
    by (induction st arbitrary: i) auto
  then show ?thesis by (simp add: checkStatusBytes_def)
qed

lemma answers_readD:
  assumes "answers g pending sent"
  obtains k dt u' where "g_ReadContext g ep to n u = (Inr (take k (pending u)), dt, u')"
    "0 < n \<longrightarrow> 0 < k" "k \<le> n" "pending u' = drop k (pending u)" "sent u' = sent u"
  using assms [unfolded answers_def, THEN conjunct2, THEN conjunct1, THEN spec [of _ ep],
      THEN spec [of _ to], THEN spec [of _ n], THEN spec [of _ u]]
  by blast

lemma answers_write:
  assumes "answers g pending sent" and "pending (t_usb t) = []"
    and "packet_ops (tl data) = Some ops"
  shows "\<exists>t' status payload. bulkWrite g ep data timeout t = (None, t')
     \<and> pending (t_usb t') = status @ payload \<and> int (length status) = reported ops
     \<and> list_all (\<lambda>b. b AND ackBit = 0) status \<and> int (length payload) = reads ops
     \<and> sent (t_usb t') = sent (t_usb t) @ payload"
proof -
  from assms(1) obtain dt u' where
    w: "g_WriteContext g ep timeout data (t_usb t) = (Inr (int (length data)), dt, u')"
    and o: "\<forall>ops. pending (t_usb t) = [] \<longrightarrow> packet_ops (tl data) = Some ops \<longrightarrow>
             (\<exists>status payload. pending u' = status @ payload
                \<and> int (length status) = reported ops \<and> list_all (\<lambda>b. b AND ackBit = 0) status
                \<and> int (length payload) = reads ops \<and> sent u' = sent (t_usb t) @ payload)"
    unfolding answers_def by blast
  from o assms(2,3) show ?thesis
    by (auto simp: bulkWrite_def usb_call_def w)
qed

lemma answers_read_loop:
  assumes "answers g pending sent" and "1 \<le> ps"
    and "length data + length (pending (t_usb t)) = mx"
  shows "\<exists>t'. bulk_read_loop g ep ps mx fst_to quiet ae data t
       = (Ok (data @ pending (t_usb t)), t')
     \<and> pending (t_usb t') = [] \<and> sent (t_usb t') = sent (t_usb t)"
  using assms(3)
proof (induction "length (pending (t_usb t))" arbitrary: data t rule: less_induct)
  case less
  show ?case
  proof (cases "pending (t_usb t) = []")
    case True
    with less.prems show ?thesis
      by (simp add: bulk_read_loop.simps [of g ep ps mx fst_to quiet ae data t])
  next
    case False
    let ?n = "min (mx - length data) ps"
    let ?to = "if length data = 0 then fst_to else quiet"
    have n: "0 < ?n" and lt: "length data < mx" using False less.prems assms(2) by auto
    obtain k dt u' where
      r: "g_ReadContext g ep ?to ?n (t_usb t) = (Inr (take k (pending (t_usb t))), dt, u')"
      and k: "0 < ?n \<longrightarrow> 0 < k" "k \<le> ?n"
      and p: "pending u' = drop k (pending (t_usb t))" "sent u' = sent (t_usb t)"
      by (rule answers_readD [OF assms(1)])
    define t1 where "t1 = t\<lparr>t_clock := t_clock t + int dt, t_usb := u'\<rparr>"
    let ?got = "take k (pending (t_usb t))"
    have got: "length ?got \<noteq> 0" "length ?got \<le> ?n" using k n False by auto
    have c: "usb_call (g_ReadContext g ep ?to ?n) t = (Inr ?got, t1)"
      unfolding usb_call_def r t1_def by simp
    have "length (pending (t_usb t1)) < length (pending (t_usb t))"
      using k n False by (simp add: t1_def p)
    moreover have "length (data @ ?got) + length (pending (t_usb t1)) = mx"
      using less.prems by (simp add: t1_def p min_def)
    ultimately obtain t' where
      IH: "bulk_read_loop g ep ps mx fst_to quiet ae (data @ ?got) t1
            = (Ok ((data @ ?got) @ pending (t_usb t1)), t')"
        "pending (t_usb t') = []" "sent (t_usb t') = sent (t_usb t1)"
      using less.hyps by blast
    have "bulk_read_loop g ep ps mx fst_to quiet ae data t
        = bulk_read_loop g ep ps mx fst_to quiet ae (data @ ?got) t1"
      by (rule bulk_read_loop_step [OF lt refl c]) (use got in auto)
    with IH show ?thesis by (simp add: t1_def p)
  qed
qed

lemma answers_read:
  assumes "answers g pending sent" and "length (pending (t_usb t)) = mx"
  shows "\<exists>t'. bulkReadAtMost g ep mx fst_to quiet ae t = (Ok (pending (t_usb t)), t')
     \<and> pending (t_usb t') = [] \<and> sent (t_usb t') = sent (t_usb t)"
  using answers_read_loop [OF assms(1), of
      "nat (min (max (in_MaxPacketSize ep) 1) maxUSBPacketBytes)" "[]" t mx] assms(2)
  by (cases "mx = 0") (auto simp: bulkReadAtMost_def maxUSBPacketBytes_def)

lemma answers_exec_loop:
  assumes "answers g pending sent" and "packets_ops segs = Some ops"
    and "pending (t_usb t) = []"
  shows "\<exists>r t'. exec_loop g s timeout segs resp t = (Ok (resp @ r), t')
     \<and> pending (t_usb t') = [] \<and> sent (t_usb t') = sent (t_usb t) @ r
     \<and> int (length r) = reads ops"
  using assms(2,3)
proof (induction segs arbitrary: ops resp t)
  case Nil
  then show ?case by simp
next
  case (Cons seg segs)
  then obtain h body o1 o2 where seg: "seg = h # body" and o1: "packet_ops body = Some o1"
    and o2: "packets_ops segs = Some o2" and ops: "ops = o1 @ o2"
    by (auto split: list.splits option.splits if_splits)
  have il: "instructionLengths seg = Ok (reported o1, reads o1)"
    using instructionLengths_packet [OF o1] seg by simp
  obtain t1 status payload where
    w: "bulkWrite g (ses_output s) seg timeout t = (None, t1)"
    and p1: "pending (t_usb t1) = status @ payload" "int (length status) = reported o1"
      "list_all (\<lambda>b. b AND ackBit = 0) status" "int (length payload) = reads o1"
      "sent (t_usb t1) = sent (t_usb t) @ payload"
    using answers_write [OF assms(1) Cons.prems(2), of seg o1 "ses_output s" timeout] o1 seg by auto
  show ?case
  proof (cases "reported o1 + reads o1 > 0")
    case False
    with p1(2,4) have "int (length status) = 0" "int (length payload) = 0" by linarith+
    then have "status = []" "payload = []" by simp_all
    with p1 Cons.IH [OF o2, of t1 resp] w il False ops show ?thesis by auto
  next
    case True
    let ?to = "if reads o1 > 0 then timeout else responseQuietTimeout"
    have len: "length (pending (t_usb t1)) = nat (reported o1 + reads o1)"
      using p1 by simp
    obtain t2 where rd: "bulkReadAtMost g (ses_input s) (nat (reported o1 + reads o1)) ?to
          responseQuietTimeout (reads o1 = 0) t1 = (Ok (status @ payload), t2)"
      and p2: "pending (t_usb t2) = []" "sent (t_usb t2) = sent (t_usb t1)"
      using answers_read [OF assms(1) len, of "ses_input s" ?to responseQuietTimeout
          "reads o1 = 0"] p1(1) by auto
    have "nat (reads o1) = length payload" and "checkStatusBytes status = None"
      using p1(3,4) by (simp_all add: checkStatusBytes_None)
    then have "exec_loop g s timeout (seg # segs) resp t
        = exec_loop g s timeout segs (resp @ payload) t2"
      using w il True rd p1(4) by simp
    with Cons.IH [OF o2 p2(1), of "resp @ payload"] p1 p2 ops show ?thesis by auto
  qed
qed

lemma speed_command_packet:
  assumes "speed_command sp = Ok c"
  shows "packet_ops [c, streamEnd] = Some []"
  using assms
  by (auto simp: speed_command_def packet_ops.simps(2) streamEnd_def split: if_splits)

lemma answers_execute:
  assumes "answers g pending sent" and "stream_ops stream = Some ops" and "reads ops = n"
    and "pending (t_usb t) = []" and "speed_command (t_speed t) = Ok c"
  shows "\<exists>r t'. execute g s stream wl n t = (Ok r, t')
     \<and> pending (t_usb t') = [] \<and> sent (t_usb t') = sent (t_usb t) @ r \<and> int (length r) = n"
proof -
  let ?cfg = "[streamStart, c, streamEnd]"
  let ?to = "minimumTransferTimeout (int wl) n (t_speed t)"
  have cfg: "encodeConfiguration (t_speed t) = Ok ?cfg"
    by (simp add: encodeConfiguration_def assms(5))
  obtain t1 where w: "bulkWrite g (ses_output s) ?cfg ?to t = (None, t1)"
    and p1: "pending (t_usb t1) = []" "sent (t_usb t1) = sent (t_usb t)"
    using answers_write [OF assms(1,4), of ?cfg "[]" "ses_output s" ?to]
      speed_command_packet [OF assms(5)] by auto
  define t2 where "t2 = (if wl = 0 \<and> n > 0 then ch341_sleep g selectToReadGap t1 else t1)"
  from assms(1) obtain dt u' where "g_jitter g (t_usb t1) = ((), dt, u')"
    "pending u' = pending (t_usb t1)" "sent u' = sent (t_usb t1)"
    unfolding answers_def by blast
  then have p2: "pending (t_usb t2) = []" "sent (t_usb t2) = sent (t_usb t)"
    using p1 by (auto simp: t2_def ch341_sleep_def usb_call_def)
  obtain r t3 where "exec_loop g s ?to (chunks 32 stream) [] t2 = (Ok r, t3)"
    "pending (t_usb t3) = []" "sent (t_usb t3) = sent (t_usb t2) @ r" "int (length r) = reads ops"
    using answers_exec_loop [OF assms(1) _ p2(1), of "chunks 32 stream" ops s ?to "[]"] assms(2)
    by (auto simp: stream_ops_def)
  then show ?thesis
    using assms(3) p2 cfg w by (auto simp: execute_def Let_def t2_def [symmetric])
qed

section \<open>Timeout arithmetic\<close>

lemma wrap64_small: "0 \<le> x \<Longrightarrow> x \<le> 4000000000000000000 \<Longrightarrow> wrap64 x = x"
  by (rule wrap64_id) auto

lemma minimumTransferTimeout_eq:
  assumes "0 \<le> w" "w \<le> 65535" "0 \<le> r" "r \<le> 65535" "20 \<le> sp" "sp \<le> 750"
  shows "minimumTransferTimeout w r sp
     = 1000000000 + ((w + r + 8) * 9 * 1000000000 + sp * 1000 - 1) div (sp * 1000)"
proof -
  let ?x = "(w + r + 8) * 9 * 1000000000 + sp * 1000 - 1"
  have b: "0 \<le> (w + r + 8) * 9" "(w + r + 8) * 9 \<le> 1200000" using assms by auto
  have x: "0 \<le> ?x" "?x \<le> 2000000000000000" using assms b by auto
  have "?x div (sp * 1000) \<le> ?x div 1"
    using assms x by (intro zdiv_mono2) auto
  then have d: "0 \<le> ?x div (sp * 1000)" "?x div (sp * 1000) \<le> 2000000000000000"
    using x assms by (auto simp: pos_imp_zdiv_nonneg_iff)
  have dv: "go_div ?x (sp * 1000) = ?x div (sp * 1000)"
    using x assms by (cases "?x = 0") (auto simp: go_div_def sgn_if)
  have ws: "wrap64 (sp * 1000) = sp * 1000"
    "wrap64 (w + r + 8) = w + r + 8"
    "wrap64 ((w + r + 8) * 9) = (w + r + 8) * 9"
    "wrap64 ((w + r + 8) * 9 * 1000000000) = (w + r + 8) * 9 * 1000000000"
    "wrap64 ((w + r + 8) * 9 * 1000000000 + sp * 1000)
       = (w + r + 8) * 9 * 1000000000 + sp * 1000"
    "wrap64 ?x = ?x"
    "wrap64 (?x div (sp * 1000) + 1000000000) = ?x div (sp * 1000) + 1000000000"
    using assms b x d by (auto intro!: wrap64_small)
  show ?thesis
    unfolding minimumTransferTimeout_def Let_def time_Second_def defaultTransferTimeout_def ws dv
    using d by simp
qed

section \<open>A simulated device\<close>

text \<open>A CH341 whose I2C slave answers every read with the byte \<^verbatim>\<open>0x2a\<close>: the state holds the pending
  bytes and the history. It instantiates the library parameter in the witnesses.\<close>

type_synonym sim = "byte list \<times> byte list"

fun sim_write :: "byte list \<Rightarrow> sim \<Rightarrow> sim" where
  "sim_write data (pend, hist) =
     (case packet_ops (tl data) of
        None \<Rightarrow> (pend, hist)
      | Some ops \<Rightarrow>
          (pend @ replicate (nat (reported ops)) 0 @ replicate (nat (reads ops)) 0x2a,
           hist @ replicate (nat (reads ops)) 0x2a))"

definition sim_setting :: interface_setting where
  "sim_setting = \<lparr>is_Number = 0, is_Alternate = 0, is_Endpoints =
     [\<lparr>ep_Number = 2, ep_Direction = DirectionIn, ep_TransferType = TransferBulk\<rparr>,
      \<lparr>ep_Number = 2, ep_Direction = DirectionOut, ep_TransferType = TransferBulk\<rparr>,
      \<lparr>ep_Number = 1, ep_Direction = DirectionIn, ep_TransferType = TransferOtherType\<rparr>]\<rparr>"

definition sim_desc :: device_desc where
  "sim_desc = \<lparr>dd_Bus = 1, dd_Address = 7, dd_Speed = ''full'', dd_Class = 255, dd_Vendor = 0x1a86,
     dd_Product = 0x5512, dd_Configs = [(1, [[sim_setting]])]\<rparr>"

definition sim_device :: device where
  "sim_device = \<lparr>dev_id = 0, dev_Desc = sim_desc\<rparr>"

definition sim_gousb :: "sim gousb" where
  "sim_gousb =
     \<lparr>g_OpenDeviceWithVIDPID = (\<lambda>v p u. ((if v = 0x1a86 \<and> p = 0x5512 then Some sim_device else None, None),
                                   1000000, u)),
      g_Config = (\<lambda>d n u. (Inr 1, 0, u)),
      g_Interface = (\<lambda>c i a u. (Inr 2, 0, u)),
      g_InEndpoint = (\<lambda>i n u. (Inr \<lparr>in_id = 3, in_MaxPacketSize = 32\<rparr>, 0, u)),
      g_OutEndpoint = (\<lambda>i n u. (Inr 4, 0, u)),
      g_WriteContext = (\<lambda>ep to data u. (Inr (int (length data)), 1000000, sim_write data u)),
      g_ReadContext = (\<lambda>ep to n u. (Inr (take n (fst u)), 1000000, (drop n (fst u), snd u))),
      g_InterfaceClose = (\<lambda>i u. ((), 0, u)),
      g_ConfigClose = (\<lambda>c u. (None, 0, u)),
      g_DeviceClose = (\<lambda>d u. (None, 0, u)),
      g_ContextClose = (\<lambda>u. (None, 0, u)),
      g_OpenDevices = (\<lambda>open u. (([sim_desc], if open sim_desc then [sim_device] else []), 0, u)),
      g_Manufacturer = (\<lambda>d u. (''wch.cn'', 0, u)),
      g_Product = (\<lambda>d u. (''USB-I2C'', 0, u)),
      g_jitter = (\<lambda>u. ((), 0, u))\<rparr>"

definition sim_start :: "sim ch341" where
  "sim_start = \<lparr>t_usbIDs = [\<lparr>Vendor = 0x1a86, Product = 0x5512\<rparr>], t_speed = 100, t_session = None,
     t_closed = False, t_fresh = 0, t_clock = 0, t_usb = ([], [])\<rparr>"

lemma reads_nonneg [simp]: "0 \<le> reads ops"
  by (induction ops rule: reads.induct) auto

lemma reported_nonneg [simp]: "0 \<le> reported ops"
  by (induction ops rule: reported.induct) auto

lemma sim_answers: "answers sim_gousb fst snd"
  unfolding answers_def
proof (intro conjI allI)
  fix ep to data and u :: sim
  show "\<exists>dt u'. g_WriteContext sim_gousb ep to data u = (Inr (int (length data)), dt, u')
        \<and> (\<forall>ops. fst u = [] \<longrightarrow> packet_ops (tl data) = Some ops \<longrightarrow>
             (\<exists>status payload. fst u' = status @ payload
                \<and> int (length status) = reported ops \<and> list_all (\<lambda>b. b AND ackBit = 0) status
                \<and> int (length payload) = reads ops \<and> snd u' = snd u @ payload))"
    by (cases u) (auto simp: sim_gousb_def list_all_iff split: option.splits
        intro!: exI [of _ "replicate (nat (reported (the (packet_ops (tl data))))) 0"])
next
  fix ep to n and u :: sim
  show "\<exists>k dt u'. g_ReadContext sim_gousb ep to n u = (Inr (take k (fst u)), dt, u')
        \<and> (0 < n \<longrightarrow> 0 < k) \<and> k \<le> n \<and> fst u' = drop k (fst u) \<and> snd u' = snd u"
    by (rule exI [of _ n]) (simp add: sim_gousb_def)
next
  fix u :: sim
  show "\<exists>dt u'. g_jitter sim_gousb u = ((), dt, u') \<and> fst u' = fst u \<and> snd u' = snd u"
    by (simp add: sim_gousb_def)
qed

section \<open>Properties of the transport\<close>

text \<open>C4: on a device that answers, every valid request succeeds on an open session: \<open>Transaction\<close>
  returns exactly the \<open>readLength\<close> bytes that the device read from the bus for it, whatever the
  number of packets, leaves nothing pending and keeps the session.\<close>

theorem Transaction_succeeds:
  assumes "answers g pending sent" and "pending (t_usb t) = []"
    and "t_session t = Some session" and "ch341_reach g t"
    and "speed_command (t_speed t) = Ok command"
    and "encodeTransaction address7Bit writeData readLength = Ok stream"
  shows "\<exists>r t'. Transaction g address7Bit writeData readLength t = (Ok r, t')
     \<and> sent (t_usb t') = sent (t_usb t) @ r \<and> int (length r) = readLength
     \<and> pending (t_usb t') = [] \<and> t_session t' = Some session"
proof -
  have "\<not> t_closed t"
    using ch341_reach_wf [OF assms(4)] assms(3) by (simp add: ch341_wf_def)
  then have cur: "currentSession g t = (Inr session, t)"
    using assms(3) by (simp add: currentSession_def ensureSessionLocked_def)
  have n: "0 \<le> readLength"
    using assms(6) encodeTransaction_Ok_iff [of address7Bit writeData readLength] by auto
  obtain r t' where e: "execute g session stream (length writeData) readLength t = (Ok r, t')"
    and post: "pending (t_usb t') = []" "sent (t_usb t') = sent (t_usb t) @ r"
      "int (length r) = readLength"
    using answers_execute [OF assms(1) encodeTransaction_stream_ops [OF assms(6)]
        reads_transaction [OF n] assms(2,5)] by blast
  have "t_session t' = Some session"
    using execute_quiet [OF e] assms(3) by (simp add: t_quiet_def)
  with post show ?thesis
    using assms(6) cur e by (simp add: Transaction_def)
qed

definition sim_open :: "sim ch341" where
  "sim_open = snd (InspectUSB sim_gousb False sim_start)"

definition sim_session :: ch341Session where
  "sim_session = \<lparr>ses_ptr = 0, ses_device = sim_device, ses_config = 1, ses_iface = 2,
      ses_input = \<lparr>in_id = 3, in_MaxPacketSize = 32\<rparr>, ses_output = 4,
      ses_identity = USBID_String \<lparr>Vendor = 0x1a86, Product = 0x5512\<rparr>\<rparr>"

lemma sim_start_new: "NewCh341 [\<lparr>Vendor = 0x1a86, Product = 0x5512\<rparr>] 100 0 ([], []) = Ok sim_start"
  by (simp add: NewCh341_def sim_start_def speed_command_def)

lemma sim_endpoints: "findBulkEndpoints sim_desc = Some (1, 0, 0, 2, 2)"
  by (simp add: findBulkEndpoints_def sim_desc_def sim_setting_def)

lemma sim_enumerate: "\<exists>ds. enumerateUSB sim_gousb False sim_start = ((ds, True), sim_start)"
  by (simp add: enumerateUSB_def sim_gousb_def usb_call_def sim_start_def device_info_def
      sim_desc_def)

lemma sim_ensure:
  "ensureSessionLocked sim_gousb sim_start
     = (Inr sim_session, sim_start\<lparr>t_session := Some sim_session, t_fresh := 1, t_clock := 1000000\<rparr>)"
  by (simp add: ensureSessionLocked_def sim_start_def usb_call_def openSession_def sim_device_def
      sim_endpoints sim_session_def sim_gousb_def)

lemma sim_open_eq:
  "sim_open = sim_start\<lparr>t_session := Some sim_session, t_fresh := 1, t_clock := 1000000\<rparr>"
proof -
  have "t_closed sim_start = False" by (simp add: sim_start_def)
  then show ?thesis
    using sim_enumerate sim_ensure by (auto simp: sim_open_def InspectUSB_def)
qed

lemma sim_open_simps:
  "t_session sim_open = Some sim_session" "t_usb sim_open = ([], [])" "t_speed sim_open = 100"
  "t_closed sim_open = False"
  by (simp_all add: sim_open_eq sim_start_def)

lemma sim_open_reach: "ch341_reach sim_gousb sim_open"
  unfolding sim_open_def
  by (rule ch341_reach.reach_step [OF ch341_reach.reach_new [OF sim_start_new]
        ch341_step.step_inspect [OF prod.collapse [symmetric]]])

theorem Transaction_succeeds_witness:
  "\<exists>r t'. Transaction sim_gousb 0x11 [] 40 sim_open = (Ok r, t') \<and> length r = 40
     \<and> t_session t' = t_session sim_open"
proof -
  obtain stream where s: "encodeTransaction 0x11 [] 40 = Ok stream"
    using encodeTransaction_Ok_iff [of "0x11" "[]" 40] by auto
  have c: "speed_command (t_speed sim_open) = Ok 0x61"
    by (simp add: sim_open_simps speed_command_def)
  have p: "fst (t_usb sim_open) = []" by (simp add: sim_open_simps)
  from Transaction_succeeds [OF sim_answers p sim_open_simps(1) sim_open_reach c s]
  show ?thesis by (auto simp: sim_open_simps)
qed

end
