(* ===== verification/Ch341Props.thy ===== *)
theory Ch341Props
  imports Ch341Correct
begin

text \<open>
  Further properties of the transport: the contract of \<^verbatim>\<open>Transaction\<close> on an arbitrary device
  (length, session after an error, no panic), \<^verbatim>\<open>Close\<close>, the transfer timeout, the endpoint choice
  and the enumeration.
\<close>

section \<open>Helper definitions of the statements\<close>

text \<open>The reader contract of the USB library: no more bytes than the buffer holds.\<close>

definition reads_fit :: "'u gousb \<Rightarrow> bool" where
  "reads_fit g \<longleftrightarrow>
     (\<forall>ep to n u bs dt u'. g_ReadContext g ep to n u = (Inr bs, dt, u') \<longrightarrow> length bs \<le> n)"

text \<open>A setting with a bulk endpoint in both directions.\<close>

definition usable :: "interface_setting \<Rightarrow> bool" where
  "usable st \<longleftrightarrow> (\<forall>dir. \<exists>e \<in> set (is_Endpoints st).
      ep_TransferType e = TransferBulk \<and> ep_Direction e = dir)"

definition settings_of :: "device_desc \<Rightarrow> int \<Rightarrow> interface_setting set" where
  "settings_of desc n =
     (case map_of (dd_Configs desc) n of None \<Rightarrow> {} | Some ifs \<Rightarrow> \<Union> (set (map set ifs)))"

section \<open>Transactions\<close>

lemma execute_Ok_length:
  "execute g s stream wl n t = (Ok r, t') \<Longrightarrow> int (length r) = n"
  by (auto simp: execute_def Let_def split: result.splits prod.splits option.splits if_splits)

lemma Transaction_cases:
  assumes "Transaction g a w n t = (r, t')"
  obtains (invalid) e where "encodeTransaction a w n = Err e" "r = Err e" "t' = t"
      "transport_IsKind e ErrorInvalidRequest"
  | (nosession) e where "currentSession g t = (Inl e, t')" "r = Err e"
  | (ran) stream s t1 t2 where "encodeTransaction a w n = Ok stream"
      "currentSession g t = (Inr s, t1)"
      "execute g s stream (length w) n t1 = (r, t2)"
      "t' = (case r of Err e \<Rightarrow> if shouldInvalidateSession e then invalidateSession g s t2 else t2
             | _ \<Rightarrow> t2)"
proof (cases "encodeTransaction a w n")
  case (Ok stream)
  obtain s1 t1 where s1: "currentSession g t = (s1, t1)" by fastforce
  show ?thesis
  proof (cases s1)
    case (Inl e)
    with assms Ok s1 show ?thesis by (intro nosession) (auto simp: Transaction_def)
  next
    case (Inr s)
    obtain r2 t2 where "execute g s stream (length w) n t1 = (r2, t2)" by fastforce
    with assms Ok s1 Inr show ?thesis
      by (intro ran [of stream s t1 t2]) (auto simp: Transaction_def split: result.splits)
  qed
next
  case (Err e)
  with assms encodeTransaction_Ok_iff [of a w n] show ?thesis
    by (intro invalid [of e])
      (auto simp: Transaction_def encodeTransaction_def transport_IsKind_def invalid_request_def Let_def
        split: if_splits option.splits)
next
  case Panic
  then show ?thesis
    by (auto simp: encodeTransaction_def Let_def split: if_splits option.splits)
qed

lemma currentSession_keeps:
  assumes "currentSession g t = (r, t')" and "t_session t = Some s" and "ch341_wf t"
  shows "r = Inr s \<and> t' = t"
  using assms by (auto simp: currentSession_def ensureSessionLocked_def ch341_wf_def split: if_splits)

lemma Transaction_session:
  assumes "Transaction g a w n t = (r, t')" and "ch341_wf t"
  shows "case r of
       Ok resp \<Rightarrow> int (length resp) = n \<and> t_session t' \<noteq> None
     | Err e \<Rightarrow> (if shouldInvalidateSession e then t_session t' = None
                else \<forall>s. t_session t = Some s \<longrightarrow> t_session t' = Some s)
     | Panic \<Rightarrow> True"
  using assms(1)
proof (cases rule: Transaction_cases)
  case (invalid e)
  then show ?thesis by (auto simp: shouldInvalidateSession_def transport_IsKind_def)
next
  case (nosession e)
  then show ?thesis
    using currentSession_extends [OF nosession(1) assms(2)]
      currentSession_keeps [OF nosession(1) _ assms(2)]
    by (cases "t_session t") auto
next
  case (ran stream s t1 t2)
  note c = currentSession_extends [OF ran(2) assms(2)]
  note q = execute_quiet [OF ran(3)]
  have s2: "t_session t2 = Some s" using c q by (auto simp: t_quiet_def)
  show ?thesis
  proof (cases r)
    case (Ok resp)
    with ran s2 execute_Ok_length show ?thesis by fastforce
  next
    case (Err e)
    with ran s2 invalidateSession_extends [of t2 g s] show ?thesis
      using currentSession_keeps [OF ran(2) _ assms(2)] by (cases "t_session t") auto
  next
    case Panic
    then show ?thesis by simp
  qed
qed

lemma bulk_read_loop_no_panic:
  assumes "reads_fit g"
  shows "fst (bulk_read_loop g ep ps mx fst_to quiet ae data t) \<noteq> Panic"
  using assms
proof (induction g ep ps mx fst_to quiet ae data t rule: bulk_read_loop.induct)
  case (1 g ep ps mx fst_to quiet ae data t)
  let ?n = "min (mx - length data) ps"
  let ?to = "if length data = 0 then fst_to else quiet"
  obtain rd t1 where c: "usb_call (g_ReadContext g ep ?to ?n) t = (rd, t1)" by fastforce
  show ?case
  proof (cases "length data < mx \<and> (\<exists>got. rd = Inr got \<and> got \<noteq> [])")
    case False
    then show ?thesis using c
      by (auto simp: bulk_read_loop.simps [of g ep ps mx fst_to quiet ae data t] Let_def
          split: sum.splits)
  next
    case True
    then obtain got where got: "length data < mx" "rd = Inr got" "got \<noteq> []" by blast
    obtain dt u' where "g_ReadContext g ep ?to ?n (t_usb t) = (Inr got, dt, u')"
      using c got(2) unfolding usb_call_def Let_def by (auto split: prod.splits)
    then have fit: "\<not> length got > ?n"
      using 1(2) unfolding reads_fit_def by (meson not_less)
    have "bulk_read_loop g ep ps mx fst_to quiet ae data t
        = bulk_read_loop g ep ps mx fst_to quiet ae (data @ got) t1"
      by (rule bulk_read_loop_step [OF got(1) refl c [unfolded got(2)] got(3) fit])
    then show ?thesis
      using 1(1) [OF got(1) refl refl c [symmetric] got(2)] got(3) fit 1(2) by auto
  qed
qed

lemma exec_loop_no_panic:
  assumes "reads_fit g"
  shows "fst (exec_loop g s timeout segs resp t) \<noteq> Panic"
proof (induction segs arbitrary: resp t)
  case Nil
  then show ?case by simp
next
  case (Cons seg segs)
  have "fst (bulkReadAtMost g ep mx f q ae t1) \<noteq> Panic" for ep mx f q ae t1
    using bulk_read_loop_no_panic [OF assms] by (simp add: bulkReadAtMost_def)
  then have np: "bulkReadAtMost g ep mx f q ae t1 \<noteq> (Panic, t2)" for ep mx f q ae t1 t2
    by (metis fst_conv)
  show ?case
    using Cons instructionLengths_no_panic [of seg]
    by (auto simp: np Let_def split: prod.splits option.splits result.splits)
qed

lemma execute_no_panic:
  assumes "reads_fit g"
  shows "fst (execute g s stream wl n t) \<noteq> Panic"
proof (cases "encodeConfiguration (t_speed t)")
  case Panic
  then show ?thesis
    by (simp add: encodeConfiguration_def speed_command_def split: if_splits)
next
  case (Ok cfg)
  let ?to = "minimumTransferTimeout (int wl) n (t_speed t)"
  obtain w t1 where w: "bulkWrite g (ses_output s) cfg ?to t = (w, t1)" by fastforce
  define t2 where "t2 = (if wl = 0 \<and> n > 0 then ch341_sleep g selectToReadGap t1 else t1)"
  obtain r t3 where r: "exec_loop g s ?to (chunks 32 stream) [] t2 = (r, t3)" by fastforce
  then have "r \<noteq> Panic"
    using exec_loop_no_panic [OF assms, of s ?to "chunks 32 stream" "[]" t2] by simp
  then show ?thesis
    using Ok w r by (cases w; cases r) (auto simp: execute_def t2_def [symmetric])
qed (simp add: execute_def)

section \<open>Endpoint choice\<close>

definition bulk_in :: "direction \<Rightarrow> endpoint_desc \<Rightarrow> bool" where
  "bulk_in dir e \<longleftrightarrow> ep_TransferType e = TransferBulk \<and> ep_Direction e = dir"

text \<open>Endpoint numbers of a descriptor are not negative.\<close>

definition numbers_ok :: "endpoint_desc list \<Rightarrow> bool" where
  "numbers_ok es \<longleftrightarrow> list_all (\<lambda>e. 0 \<le> ep_Number e) es"

definition first_bulk :: "direction \<Rightarrow> endpoint_desc list \<Rightarrow> int" where
  "first_bulk dir es = (case filter (bulk_in dir) es of [] \<Rightarrow> -1 | e # _ \<Rightarrow> ep_Number e)"

lemma fbe_endpoints_first:
  assumes "numbers_ok es"
  shows "fbe_endpoints es i o' =
     (if i < 0 \<and> filter (bulk_in DirectionIn) es \<noteq> [] then first_bulk DirectionIn es else i,
      if o' < 0 \<and> filter (bulk_in DirectionOut) es \<noteq> [] then first_bulk DirectionOut es else o')"
  using assms
proof (induction es arbitrary: i o')
  case Nil
  then show ?case by simp
next
  case (Cons e es)
  then have "0 \<le> ep_Number e" and IH: "fbe_endpoints es i o' =
     (if i < 0 \<and> filter (bulk_in DirectionIn) es \<noteq> [] then first_bulk DirectionIn es else i,
      if o' < 0 \<and> filter (bulk_in DirectionOut) es \<noteq> [] then first_bulk DirectionOut es else o')"
    for i o' by (auto simp: numbers_ok_def)
  then show ?case
    by (cases "ep_TransferType e"; cases "ep_Direction e")
       (auto simp: first_bulk_def bulk_in_def [of DirectionIn e] bulk_in_def [of DirectionOut e])
qed

lemma first_bulk_nonneg:
  assumes "numbers_ok es"
  shows "0 \<le> first_bulk dir es \<longleftrightarrow> (\<exists>e \<in> set es. bulk_in dir e)"
proof (cases "filter (bulk_in dir) es")
  case Nil
  then show ?thesis by (auto simp: first_bulk_def filter_empty_conv)
next
  case (Cons e rest)
  then have "e \<in> set (filter (bulk_in dir) es)" by simp
  then have "e \<in> set es \<and> bulk_in dir e" by simp
  with assms Cons show ?thesis
    by (auto simp: first_bulk_def numbers_ok_def list_all_iff)
qed

lemma fbe_endpoints_usable:
  assumes "numbers_ok (is_Endpoints st)"
  shows "(case fbe_endpoints (is_Endpoints st) (-1) (-1) of (i, p) \<Rightarrow> 0 \<le> i \<and> 0 \<le> p) \<longleftrightarrow> usable st"
proof -
  have "usable st \<longleftrightarrow> (\<exists>e \<in> set (is_Endpoints st). bulk_in DirectionIn e)
      \<and> (\<exists>e \<in> set (is_Endpoints st). bulk_in DirectionOut e)"
    by (auto simp: usable_def bulk_in_def) (metis direction.exhaust)
  with first_bulk_nonneg [OF assms] show ?thesis
    by (auto simp: fbe_endpoints_first [OF assms] filter_empty_conv)
qed

lemma fbe_settings_spec:
  assumes "list_all (\<lambda>st. numbers_ok (is_Endpoints st)) sts"
  shows "case fbe_settings n sts of
       None \<Rightarrow> \<forall>st \<in> set sts. \<not> usable st
     | Some (n', num, alt, i, o') \<Rightarrow> n' = n \<and> (\<exists>st \<in> set sts. usable st
         \<and> num = is_Number st \<and> alt = is_Alternate st
         \<and> i = first_bulk DirectionIn (is_Endpoints st)
         \<and> o' = first_bulk DirectionOut (is_Endpoints st))"
  using assms
proof (induction sts)
  case Nil
  then show ?case by simp
next
  case (Cons st sts)
  then have ok: "numbers_ok (is_Endpoints st)" by simp
  obtain i p where e: "fbe_endpoints (is_Endpoints st) (-1) (-1) = (i, p)" by fastforce
  show ?case
  proof (cases "usable st")
    case False
    with Cons e fbe_endpoints_usable [OF ok] show ?thesis
      by (auto split: option.splits)
  next
    case True
    then have "0 \<le> i \<and> 0 \<le> p" using fbe_endpoints_usable [OF ok] e by simp
    moreover have "i = first_bulk DirectionIn (is_Endpoints st) \<or> i = -1"
      "p = first_bulk DirectionOut (is_Endpoints st) \<or> p = -1"
      using e fbe_endpoints_first [OF ok, of "-1" "-1"] by auto
    ultimately show ?thesis using True e by auto
  qed
qed

lemma fbe_interfaces_spec:
  assumes "list_all (list_all (\<lambda>st. numbers_ok (is_Endpoints st))) ifs"
  shows "case fbe_interfaces n ifs of
       None \<Rightarrow> \<forall>st \<in> \<Union> (set (map set ifs)). \<not> usable st
     | Some (n', num, alt, i, o') \<Rightarrow> n' = n \<and> (\<exists>st \<in> \<Union> (set (map set ifs)). usable st
         \<and> num = is_Number st \<and> alt = is_Alternate st
         \<and> i = first_bulk DirectionIn (is_Endpoints st)
         \<and> o' = first_bulk DirectionOut (is_Endpoints st))"
  using assms
proof (induction ifs)
  case Nil
  then show ?case by simp
next
  case (Cons sts ifs)
  then have "list_all (\<lambda>st. numbers_ok (is_Endpoints st)) sts" by simp
  from fbe_settings_spec [OF this, of n] Cons show ?case
    by (auto split: option.splits)
qed

lemma fbe_configs_spec:
  assumes "list_all (list_all (list_all (\<lambda>st. numbers_ok (is_Endpoints st))))
      (map snd (dd_Configs desc))"
    and "sorted ns"
  shows "case fbe_configs desc ns of
       None \<Rightarrow> \<forall>n \<in> set ns. \<forall>st \<in> settings_of desc n. \<not> usable st
     | Some (n, num, alt, i, o') \<Rightarrow> n \<in> set ns
         \<and> (\<forall>n' \<in> set ns. n' < n \<longrightarrow> (\<forall>st \<in> settings_of desc n'. \<not> usable st))
         \<and> (\<exists>st \<in> settings_of desc n. usable st
             \<and> num = is_Number st \<and> alt = is_Alternate st
             \<and> i = first_bulk DirectionIn (is_Endpoints st)
             \<and> o' = first_bulk DirectionOut (is_Endpoints st))"
  using assms(2)
proof (induction ns)
  case Nil
  then show ?case by simp
next
  case (Cons n ns)
  let ?ifs = "case map_of (dd_Configs desc) n of None \<Rightarrow> [] | Some is \<Rightarrow> is"
  have ok: "list_all (list_all (\<lambda>st. numbers_ok (is_Endpoints st))) ?ifs"
  proof (cases "map_of (dd_Configs desc) n")
    case (Some ifs)
    then have "(n, ifs) \<in> set (dd_Configs desc)" by (rule map_of_SomeD)
    with assms(1) Some show ?thesis by (force simp: list_all_iff)
  qed simp
  have st: "\<Union> (set (map set ?ifs)) = settings_of desc n"
    by (simp add: settings_of_def split: option.splits)
  note sp = fbe_interfaces_spec [OF ok, of n, unfolded st]
  show ?case
  proof (cases "fbe_interfaces n ?ifs")
    case (Some c)
    with sp Cons.prems show ?thesis by (cases c) (auto dest: leD)
  next
    case None
    with sp have no: "\<forall>st \<in> settings_of desc n. \<not> usable st" by simp
    have "case fbe_configs desc ns of
       None \<Rightarrow> \<forall>n \<in> set ns. \<forall>st \<in> settings_of desc n. \<not> usable st
     | Some (n, num, alt, i, o') \<Rightarrow> n \<in> set ns
         \<and> (\<forall>n' \<in> set ns. n' < n \<longrightarrow> (\<forall>st \<in> settings_of desc n'. \<not> usable st))
         \<and> (\<exists>st \<in> settings_of desc n. usable st
             \<and> num = is_Number st \<and> alt = is_Alternate st
             \<and> i = first_bulk DirectionIn (is_Endpoints st)
             \<and> o' = first_bulk DirectionOut (is_Endpoints st))"
      using Cons by simp
    with None no show ?thesis by (auto split: option.splits)
  qed
qed

section \<open>Enumeration\<close>

lemma al_put_keys: "fst ` set (al_put k v m) = insert k (fst ` set m)"
  by (induction k v m rule: al_put.induct) auto

lemma al_put_distinct: "distinct (map fst m) \<Longrightarrow> distinct (map fst (al_put k v m))"
  by (induction k v m rule: al_put.induct) (auto simp: al_put_keys)

text \<open>Every entry of the map is stored under the key of its own bus and address.\<close>

definition keyed :: "(string \<times> USBDeviceInfo) list \<Rightarrow> bool" where
  "keyed m \<longleftrightarrow> distinct (map fst m)
     \<and> list_all (\<lambda>(k, i). k = usbDeviceKey (inf_Bus i) (inf_Device i)) m"

lemma keyed_put:
  assumes "keyed m" and "k = usbDeviceKey (inf_Bus i) (inf_Device i)"
  shows "keyed (al_put k i m)"
proof -
  have "list_all (\<lambda>(k, i). k = usbDeviceKey (inf_Bus i) (inf_Device i)) m \<Longrightarrow>
     list_all (\<lambda>(k, i). k = usbDeviceKey (inf_Bus i) (inf_Device i)) (al_put k i m)"
    using assms(2) by (induction m) auto
  with assms(1) al_put_distinct show ?thesis by (auto simp: keyed_def)
qed

lemma collect_keyed: "keyed m \<Longrightarrow> keyed (collect_descriptors ids ds m)"
proof (induction ds arbitrary: m)
  case Nil
  then show ?case by simp
next
  case (Cons d ds)
  have "keyed (al_put (usbDeviceKey (dd_Bus d) (dd_Address d)) (device_info ids d) m)"
    by (rule keyed_put [OF Cons.prems]) (simp add: device_info_def)
  then show ?case using Cons.IH by simp
qed

lemma read_strings_keyed:
  "keyed m \<Longrightarrow> read_strings g ds m t = (m', t') \<Longrightarrow> keyed m'"
proof (induction ds arbitrary: m t)
  case Nil
  then show ?case by simp
next
  case (Cons d ds)
  let ?key = "usbDeviceKey (dd_Bus (dev_Desc d)) (dd_Address (dev_Desc d))"
  obtain m1 t1 where c: "(case map_of m ?key of None \<Rightarrow> (m, t) | Some info \<Rightarrow>
      let (ma, ta) = usb_call (g_Manufacturer g (dev_id d)) t;
          (pr, tb) = usb_call (g_Product g (dev_id d)) ta
      in (al_put ?key (info\<lparr>inf_Manufacturer := ma, inf_Product := pr\<rparr>) m, tb)) = (m1, t1)"
    by fastforce
  have "keyed m1"
  proof (cases "map_of m ?key")
    case None
    with c Cons.prems show ?thesis by simp
  next
    case (Some info)
    then have "(?key, info) \<in> set m" by (rule map_of_SomeD)
    then have "?key = usbDeviceKey (inf_Bus info) (inf_Device info)"
      using Cons.prems(1) by (auto simp: keyed_def list_all_iff)
    with c Some Cons.prems(1) show ?thesis
      by (auto split: prod.splits intro!: keyed_put)
  qed
  moreover have "read_strings g ds m1 (snd (usb_call (g_DeviceClose g (dev_id d)) t1)) = (m', t')"
    using Cons.prems c by (simp add: Let_def)
  ultimately show ?case by (rule Cons.IH)
qed

lemma keyed_distinct:
  assumes "keyed m"
  shows "distinct (map (\<lambda>i. (inf_Bus i, inf_Device i)) (map snd m))"
  using assms
proof (induction m)
  case Nil
  then show ?case by simp
next
  case (Cons kv m)
  obtain k i where kv: "kv = (k, i)" by fastforce
  from Cons.prems have "keyed m" and k: "k = usbDeviceKey (inf_Bus i) (inf_Device i)"
    and nk: "k \<notin> fst ` set m" and kd: "list_all (\<lambda>(k, i). k = usbDeviceKey (inf_Bus i) (inf_Device i)) m"
    by (auto simp: keyed_def kv)
  have "(inf_Bus i, inf_Device i) \<notin> set (map (\<lambda>i. (inf_Bus i, inf_Device i)) (map snd m))"
  proof
    assume "(inf_Bus i, inf_Device i) \<in> set (map (\<lambda>i. (inf_Bus i, inf_Device i)) (map snd m))"
    then obtain k' i' where m: "(k', i') \<in> set m" "inf_Bus i = inf_Bus i'" "inf_Device i = inf_Device i'"
      by auto
    then have "k' = k" using kd k by (auto simp: list_all_iff)
    with m(1) nk show False by force
  qed
  with Cons.IH [OF \<open>keyed m\<close>] show ?case by (simp add: kv)
qed

text \<open>The part of a device description that reading its strings leaves alone.\<close>

definition device_identity :: "USBDeviceInfo \<Rightarrow> int \<times> int \<times> string \<times> string \<times> bool" where
  "device_identity i = (inf_Bus i, inf_Device i, inf_Vendor i, inf_ProductID i, inf_Candidate i)"

lemma al_put_new: "k \<notin> fst ` set m \<Longrightarrow> al_put k v m = m @ [(k, v)]"
  by (induction k v m rule: al_put.induct) auto

lemma collect_new:
  "distinct (map (\<lambda>d. usbDeviceKey (dd_Bus d) (dd_Address d)) ds) \<Longrightarrow>
   \<forall>d \<in> set ds. usbDeviceKey (dd_Bus d) (dd_Address d) \<notin> fst ` set m \<Longrightarrow>
   collect_descriptors ids ds m
     = m @ map (\<lambda>d. (usbDeviceKey (dd_Bus d) (dd_Address d), device_info ids d)) ds"
proof (induction ds arbitrary: m)
  case (Cons d ds)
  let ?k = "usbDeviceKey (dd_Bus d) (dd_Address d)"
  have "?k \<notin> (\<lambda>d. usbDeviceKey (dd_Bus d) (dd_Address d)) ` set ds" using Cons.prems(1) by simp
  then have ne: "\<forall>x \<in> set ds. usbDeviceKey (dd_Bus x) (dd_Address x) \<noteq> ?k" unfolding image_iff by metis
  have "collect_descriptors ids ds (m @ [(?k, device_info ids d)])
      = (m @ [(?k, device_info ids d)]) @ map (\<lambda>d. (usbDeviceKey (dd_Bus d) (dd_Address d), device_info ids d)) ds"
    using Cons.prems ne by (intro Cons.IH) simp_all
  then show ?case using Cons.prems by (simp add: al_put_new)
qed simp

lemma al_put_same:
  "map_of m k = Some i \<Longrightarrow> f i' = f i \<Longrightarrow> map (f \<circ> snd) (al_put k i' m) = map (f \<circ> snd) m"
  by (induction m) (auto split: if_splits)

lemma read_strings_identity:
  "read_strings g ds m t = (m', t') \<Longrightarrow> map (device_identity \<circ> snd) m' = map (device_identity \<circ> snd) m"
proof (induction ds arbitrary: m t)
  case (Cons d ds)
  let ?key = "usbDeviceKey (dd_Bus (dev_Desc d)) (dd_Address (dev_Desc d))"
  obtain m1 t1 where c: "(case map_of m ?key of None \<Rightarrow> (m, t) | Some info \<Rightarrow>
      let (ma, ta) = usb_call (g_Manufacturer g (dev_id d)) t;
          (pr, tb) = usb_call (g_Product g (dev_id d)) ta
      in (al_put ?key (info\<lparr>inf_Manufacturer := ma, inf_Product := pr\<rparr>) m, tb)) = (m1, t1)"
    by fastforce
  have "map (device_identity \<circ> snd) m1 = map (device_identity \<circ> snd) m"
    using c al_put_same [where f = device_identity and m = m and k = ?key]
    by (auto simp: device_identity_def split: option.splits prod.splits)
  moreover have "read_strings g ds m1 (snd (usb_call (g_DeviceClose g (dev_id d)) t1)) = (m', t')"
    using Cons.prems c by (simp add: Let_def)
  ultimately show ?case using Cons.IH by metis
qed simp

lemma usb_matches_iff:
  "usb_matches ids vendor product \<longleftrightarrow> (\<exists>i \<in> set ids. Vendor i = vendor \<and> Product i = product)"
  by (induction ids) auto

lemma distinct_map_sort_key: "distinct (map f xs) \<Longrightarrow> distinct (map f (sort_key f xs))"
  by (simp add: distinct_map)

lemma Transaction_never_panics:
  assumes "reads_fit g"
  shows "fst (Transaction g address7Bit writeData readLength t) \<noteq> Panic"
proof -
  obtain r t' where t: "Transaction g address7Bit writeData readLength t = (r, t')" by fastforce
  then have "r \<noteq> Panic"
  proof (cases rule: Transaction_cases)
    case (ran stream s t1 t2)
    then show ?thesis
      using execute_no_panic [OF assms, of s stream "length writeData" readLength t1] by auto
  qed auto
  with t show ?thesis by simp
qed

section \<open>Properties\<close>

text \<open>C5: the contract of \<open>Transaction\<close> in every reachable state and on every device. A result has
  exactly the requested length and leaves the session open. An error of kind
  \<open>ErrorDeviceMissing\<close>, \<open>ErrorIO\<close> or \<open>ErrorProtocol\<close> drops the session, so the next call reopens
  the device; every other error keeps an open session.\<close>

theorem Transaction_contract:
  assumes "ch341_reach g t" and "Transaction g address7Bit writeData readLength t = (r, t')"
  shows "case r of
       Ok response \<Rightarrow> int (length response) = readLength \<and> t_session t' \<noteq> None
     | Err e \<Rightarrow> (if shouldInvalidateSession e then t_session t' = None
                else \<forall>s. t_session t = Some s \<longrightarrow> t_session t' = Some s)
     | Panic \<Rightarrow> True"
  using Transaction_session [OF assms(2) ch341_reach_wf [OF assms(1)]] .

theorem Transaction_contract_witness:
  "\<exists>e t'. Transaction sim_gousb 0x80 [1] 0 sim_open = (Err e, t') \<and> t_session t' = Some sim_session"
proof -
  let ?e = "invalid_request ''I2C address must be a 7-bit value''"
  have t: "Transaction sim_gousb 0x80 [1] 0 sim_open = (Err ?e, sim_open)"
    by (simp add: Transaction_def encodeTransaction_def)
  have "\<not> shouldInvalidateSession ?e"
    by (simp add: shouldInvalidateSession_def transport_IsKind_def invalid_request_def)
  with Transaction_contract [OF sim_open_reach t] t show ?thesis
    by (simp add: sim_open_simps)
qed

text \<open>C6: \<open>Close\<close> releases the session and is idempotent: afterwards the transport is closed without
  a session, a second \<open>Close\<close> does nothing, and every valid request is answered with
  \<open>ErrorDeviceMissing\<close> without touching the USB library.\<close>

theorem Close_final:
  assumes "ch341_reach g t" and "Close g t = (e, t')"
    and "encodeTransaction address7Bit writeData readLength = Ok stream"
  shows "t_closed t' \<and> t_session t' = None \<and> Close g t' = (None, t')
     \<and> Transaction g address7Bit writeData readLength t' = (Err closed_error, t')
     \<and> transport_IsKind closed_error ErrorDeviceMissing"
  using Close_state [OF assms(2) ch341_reach_wf [OF assms(1)]] assms(3)
  by (simp add: Close_def Transaction_def currentSession_def transport_IsKind_def closed_error_def)

theorem Close_final_witness:
  "t_session (snd (Close sim_gousb sim_open)) = None
   \<and> t_session sim_open \<noteq> None
   \<and> fst (Transaction sim_gousb 0x11 [0x02] 0 (snd (Close sim_gousb sim_open))) = Err closed_error"
proof -
  obtain stream where s: "encodeTransaction 0x11 [0x02] 0 = Ok stream"
    using encodeTransaction_Ok_iff [of "0x11" "[0x02]" 0] by auto
  from Close_final [OF sim_open_reach prod.collapse [symmetric] s] show ?thesis
    by (simp add: sim_open_simps)
qed

text \<open>With a library that respects the reader contract (no more bytes than the buffer), no
  transaction panics.\<close>

theorem Transaction_no_panic:
  assumes "reads_fit g"
  shows "fst (Transaction g address7Bit writeData readLength t) \<noteq> Panic"
  by (rule Transaction_never_panics [OF assms])

theorem Transaction_no_panic_witness:
  "fst (Transaction sim_gousb 0x11 [0x30] 2 sim_start) \<noteq> Panic"
  by (rule Transaction_no_panic) (auto simp: reads_fit_def sim_gousb_def)

text \<open>C8: for every request within the encoder's limits and every supported bus speed the timeout
  arithmetic stays within 64 bits, and the timeout is one second more than the time the
  transaction (9 clock cycles per byte, 8 bytes of overhead) needs on the wire, rounded up to the
  next nanosecond.\<close>

theorem minimumTransferTimeout_covers:
  fixes w n speed :: int
  assumes "0 \<le> w" "w \<le> 65535" "0 \<le> n" "n \<le> 65535" "speed_command speed = Ok command"
  shows "(w + n + 8) * 9 * time_Second
           \<le> (minimumTransferTimeout w n speed - time_Second) * (speed * 1000)
     \<and> (minimumTransferTimeout w n speed - time_Second) * (speed * 1000)
           < (w + n + 8) * 9 * time_Second + speed * 1000"
proof -
  have sp: "20 \<le> speed" "speed \<le> 750"
    using assms(5) by (auto simp: speed_command_def split: if_splits)
  let ?b = "(w + n + 8) * 9 * 1000000000" and ?s = "speed * 1000"
  have q: "?b \<le> ((?b + ?s - 1) div ?s) * ?s \<and> ((?b + ?s - 1) div ?s) * ?s < ?b + ?s"
    using div_mult_mod_eq [of "?b + ?s - 1" ?s] pos_mod_bound [of ?s "?b + ?s - 1"]
      pos_mod_sign [of ?s "?b + ?s - 1"] sp by linarith
  show ?thesis
    using q by (simp add: minimumTransferTimeout_eq [OF assms(1-4) sp] time_Second_def)
qed

theorem minimumTransferTimeout_covers_witness:
  "speed_command 100 = Ok 0x61 \<and> minimumTransferTimeout 1 2 100 = 1000990000
   \<and> (1 + 2 + 8) * 9 * time_Second \<le> (minimumTransferTimeout 1 2 100 - time_Second) * (100 * 1000)"
proof -
  have c: "speed_command 100 = Ok 0x61" by (simp add: speed_command_def)
  from minimumTransferTimeout_covers [of 1 2 100, OF _ _ _ _ c] c show ?thesis
    by (simp add: minimumTransferTimeout_eq)
qed

text \<open>C9: \<open>findBulkEndpoints\<close> finds a usable setting whenever the descriptor has one, in the
  configuration with the smallest number that has one, and returns the first bulk IN and the
  first bulk OUT endpoint of that setting.\<close>

theorem findBulkEndpoints_correct:
  assumes "list_all (list_all (list_all (\<lambda>st. numbers_ok (is_Endpoints st))))
      (map snd (dd_Configs desc))"
  shows "case findBulkEndpoints desc of
       None \<Rightarrow> \<forall>n st. st \<in> settings_of desc n \<longrightarrow> \<not> usable st
     | Some (configNumber, interfaceNumber, alternate, input, output) \<Rightarrow>
         (\<forall>n' st. n' < configNumber \<longrightarrow> st \<in> settings_of desc n' \<longrightarrow> \<not> usable st)
         \<and> (\<exists>st \<in> settings_of desc configNumber. usable st
             \<and> interfaceNumber = is_Number st \<and> alternate = is_Alternate st
             \<and> input = first_bulk DirectionIn (is_Endpoints st)
             \<and> output = first_bulk DirectionOut (is_Endpoints st))"
proof -
  have "n \<in> set (sort (map fst (dd_Configs desc)))" if "st \<in> settings_of desc n" for n st
    using that by (force simp: settings_of_def split: option.splits dest: map_of_SomeD)
  with fbe_configs_spec [OF assms sorted_sort, of "map fst (dd_Configs desc)"] show ?thesis
    unfolding findBulkEndpoints_def by (auto split: option.splits)
qed

theorem findBulkEndpoints_correct_witness:
  "findBulkEndpoints sim_desc = Some (1, 0, 0, 2, 2)
   \<and> (\<exists>st \<in> settings_of sim_desc 1. usable st \<and> 2 = first_bulk DirectionIn (is_Endpoints st))"
proof -
  have "list_all (list_all (list_all (\<lambda>st. numbers_ok (is_Endpoints st))))
      (map snd (dd_Configs sim_desc))"
    by (simp add: sim_desc_def sim_setting_def numbers_ok_def)
  from findBulkEndpoints_correct [OF this] show ?thesis
    by (auto simp: sim_endpoints)
qed

text \<open>C10: the device list of the diagnostics is strictly ordered by bus and address (so the
  unspecified iteration order of the Go map does not show); if no two devices share bus and
  address it describes exactly the devices that the USB library visited; and a candidate is
  reported iff one of them has a configured identity.\<close>

theorem enumerateUSB_sorted:
  assumes "enumerateUSB g includeDeviceStrings t = ((devices, candidateFound), t')"
    and "usb_call (g_OpenDevices g (\<lambda>_. includeDeviceStrings)) t = ((visited, opened), t1)"
    and "distinct (map (\<lambda>d. usbDeviceKey (dd_Bus d) (dd_Address d)) visited)"
  shows "sorted_wrt (<) (map (\<lambda>i. (inf_Bus i, inf_Device i)) devices)
     \<and> device_identity ` set devices = (device_identity \<circ> device_info (t_usbIDs t)) ` set visited
     \<and> (candidateFound \<longleftrightarrow> (\<exists>d \<in> set visited. \<exists>i \<in> set (t_usbIDs t).
          Vendor i = dd_Vendor d \<and> Product i = dd_Product d))"
proof -
  obtain m t2 where r: "read_strings g opened (collect_descriptors (t_usbIDs t) visited []) t1 = (m, t2)"
    by fastforce
  have k: "keyed m"
    by (rule read_strings_keyed [OF collect_keyed r]) (simp add: keyed_def)
  have d: "devices = sort_key (\<lambda>i. (inf_Bus i, inf_Device i)) (map snd m)"
    and c: "candidateFound = list_ex inf_Candidate (map snd m)"
    using assms(1) by (auto simp: enumerateUSB_def assms(2) r Let_def)
  have "distinct (map (\<lambda>i. (inf_Bus i, inf_Device i)) devices)"
    unfolding d by (rule distinct_map_sort_key [OF keyed_distinct [OF k]])
  moreover have "sorted (map (\<lambda>i. (inf_Bus i, inf_Device i)) devices)"
    unfolding d by (rule sorted_sort_key)
  moreover have "map (device_identity \<circ> snd) m = map (device_identity \<circ> device_info (t_usbIDs t)) visited"
    using read_strings_identity [OF r] collect_new [OF assms(3), of "[]" "t_usbIDs t"] by (simp add: o_def)
  then have img: "device_identity ` snd ` set m = (device_identity \<circ> device_info (t_usbIDs t)) ` set visited"
    by (metis image_comp list.set_map)
  moreover have "candidateFound \<longleftrightarrow> (\<exists>x \<in> device_identity ` snd ` set m. snd (snd (snd (snd x))))"
    by (auto simp: c list_ex_iff device_identity_def)
  then have "candidateFound \<longleftrightarrow> (\<exists>d \<in> set visited. \<exists>i \<in> set (t_usbIDs t).
          Vendor i = dd_Vendor d \<and> Product i = dd_Product d)"
    unfolding img by (simp add: device_identity_def device_info_def usb_matches_iff)
  ultimately show ?thesis by (simp add: strict_sorted_iff d)
qed

theorem enumerateUSB_sorted_witness:
  "\<exists>devices t'. enumerateUSB sim_gousb False sim_start = ((devices, True), t')
     \<and> device_identity ` set devices
         = {device_identity (device_info [\<lparr>Vendor = 0x1a86, Product = 0x5512\<rparr>] sim_desc)}"
proof -
  obtain ds where e: "enumerateUSB sim_gousb False sim_start = ((ds, True), sim_start)"
    using sim_enumerate by blast
  have o: "usb_call (g_OpenDevices sim_gousb (\<lambda>_. False)) sim_start = (([sim_desc], []), sim_start)"
    by (simp add: sim_gousb_def usb_call_def sim_start_def)
  have ids: "t_usbIDs sim_start = [\<lparr>Vendor = 0x1a86, Product = 0x5512\<rparr>]" by (simp add: sim_start_def)
  from enumerateUSB_sorted [OF e o] e show ?thesis by (simp add: ids)
qed

end
