(* ===== verification/Chip.thy ===== *)
theory Chip
  imports GoErrors
begin

text \<open>
  The MFi coprocessor driver, internal/chip/driver.go, over an arbitrary I2C transport. The
  transport is the interface \<^verbatim>\<open>I2CTransport\<close> of internal/transport/transport.go together with the
  clock of the process: a record of functions over a state \<open>'w\<close>.

  A driver call has the type \<open>'w \<Rightarrow> ('a result \<times> 'w) option\<close>; \<open>None\<close> means that a retry loop never
  stops. The two loops of the driver wait for a deadline, so they stop on every transport whose
  clock advances with \<^verbatim>\<open>time.Sleep\<close>; that is proved, in the locale \<open>i2c_clock\<close>, not assumed.
\<close>

section \<open>Transport interface\<close>

record 'w i2c =
  i2c_Transaction :: "byte \<Rightarrow> byte list \<Rightarrow> int \<Rightarrow> 'w \<Rightarrow> byte list result \<times> 'w"
  i2c_now :: "'w \<Rightarrow> int"
  i2c_sleep :: "int \<Rightarrow> 'w \<Rightarrow> 'w"

record 'w Driver =
  drv_transport :: "'w i2c"
  drv_address7Bit :: byte

text \<open>A nil interface value is \<open>None\<close>.\<close>

definition NewDriver :: "'w i2c option \<Rightarrow> byte \<Rightarrow> 'w Driver result" where
  "NewDriver i2cTransport address7Bit =
     (case i2cTransport of
        None \<Rightarrow> Err (ErrorString ''I2C transport is required'')
      | Some t \<Rightarrow>
          if address7Bit > 0x7f then Err (ErrorString ''I2C address must be a 7-bit value'')
          else Ok \<lparr>drv_transport = t, drv_address7Bit = address7Bit\<rparr>)"

section \<open>Constants\<close>

definition protocolMajorRegister :: int where [mfi_consts]: "protocolMajorRegister = 0x02"
definition errorRegister :: int where [mfi_consts]: "errorRegister = 0x05"
definition authControlStatusRegister :: int where [mfi_consts]: "authControlStatusRegister = 0x10"
definition responseLengthRegister :: int where [mfi_consts]: "responseLengthRegister = 0x11"
definition responseDataRegister :: int where [mfi_consts]: "responseDataRegister = 0x12"
definition challengeLengthRegister :: int where [mfi_consts]: "challengeLengthRegister = 0x20"
definition challengeDataRegister :: int where [mfi_consts]: "challengeDataRegister = 0x21"
definition certificateLengthRegister :: int where [mfi_consts]: "certificateLengthRegister = 0x30"
definition certificateDataRegister :: int where [mfi_consts]: "certificateDataRegister = 0x31"
definition certificateWindowBytes :: nat where [mfi_consts]: "certificateWindowBytes = 128"
definition authStartCommand :: byte where [mfi_consts]: "authStartCommand = 0x01"
definition authSuccessStatus :: int where [mfi_consts]: "authSuccessStatus = 0x10"
definition maximumDataBytes :: int where [mfi_consts]: "maximumDataBytes = 65525"
definition maximumChallengeBytes :: nat where [mfi_consts]: "maximumChallengeBytes = 128"
definition ioRetryTimeout :: int where [mfi_consts]: "ioRetryTimeout = 2 * 1000000000"
definition ioRetryDelay :: int where [mfi_consts]: "ioRetryDelay = 20 * 1000000"
definition initialAuthDelay :: int where [mfi_consts]: "initialAuthDelay = 10 * 1000000"
definition authPollInterval :: int where [mfi_consts]: "authPollInterval = 10 * 1000000"
definition authTimeout :: int where [mfi_consts]: "authTimeout = 3 * 1000000000"

section \<open>Sequencing\<close>

text \<open>\<^verbatim>\<open>x, err := m; if err != nil { return err }; k(x)\<close>.\<close>

definition andThen ::
  "('a result \<times> 'w) option \<Rightarrow> ('a \<Rightarrow> 'w \<Rightarrow> ('b result \<times> 'w) option) \<Rightarrow> ('b result \<times> 'w) option" where
  "andThen m k =
     (case m of
        None \<Rightarrow> None
      | Some (Ok a, w) \<Rightarrow> k a w
      | Some (Err e, w) \<Rightarrow> Some (Err e, w)
      | Some (Panic, w) \<Rightarrow> Some (Panic, w))"

section \<open>Retries\<close>

definition isRetryableTransportError :: "go_error \<Rightarrow> bool" where
  "isRetryableTransportError err \<longleftrightarrow> errors_As_transport err \<noteq> None"

partial_function (option) retry_loop ::
  "'w i2c \<Rightarrow> string \<Rightarrow> ('w \<Rightarrow> 'a result \<times> 'w) \<Rightarrow> int \<Rightarrow> 'w \<Rightarrow> ('a result \<times> 'w) option" where
  "retry_loop bus operation action deadline w =
     (case action w of
        (Ok r, w1) \<Rightarrow> Some (Ok r, w1)
      | (Panic, w1) \<Rightarrow> Some (Panic, w1)
      | (Err e, w1) \<Rightarrow>
          if \<not> isRetryableTransportError e \<or> i2c_now bus w1 > deadline
          then Some (Err (WrapError (operation @ '': '' @ error_text e) e), w1)
          else retry_loop bus operation action deadline (i2c_sleep bus ioRetryDelay w1))"

definition retryIO ::
  "'w i2c \<Rightarrow> string \<Rightarrow> ('w \<Rightarrow> 'a result \<times> 'w) \<Rightarrow> 'w \<Rightarrow> ('a result \<times> 'w) option" where
  "retryIO bus operation action w =
     retry_loop bus operation action (i2c_now bus w + ioRetryTimeout) w"

section \<open>Registers\<close>

definition register_name :: "string \<Rightarrow> int \<Rightarrow> string" where
  "register_name what register = what @ '' register 0x'' @ fmt_02x (nat (register AND 0xff))"

definition invalid_data :: "string \<Rightarrow> string \<Rightarrow> go_error" where
  "invalid_data operation msg = ChipError ErrorInvalidData operation None (Some (ErrorString msg))"

definition selectRegisterOnce :: "'w Driver \<Rightarrow> int \<Rightarrow> 'w \<Rightarrow> unit result \<times> 'w" where
  "selectRegisterOnce d register w =
     (case i2c_Transaction (drv_transport d) (drv_address7Bit d) [word_of_int register] 0 w of
        (Err e, w1) \<Rightarrow> (Err e, w1)
      | (Panic, w1) \<Rightarrow> (Panic, w1)
      | (Ok result, w1) \<Rightarrow>
          if length result \<noteq> 0
          then (Err (invalid_data (register_name ''select'' register) ''returned unexpected data''), w1)
          else (Ok (), w1))"

definition selectRegister :: "'w Driver \<Rightarrow> int \<Rightarrow> 'w \<Rightarrow> (unit result \<times> 'w) option" where
  "selectRegister d register =
     retryIO (drv_transport d) (register_name ''select'' register) (selectRegisterOnce d register)"

text \<open>The closure that \<^verbatim>\<open>readRegister\<close> retries: select and read as one unit.\<close>

definition readRegisterOnce :: "'w Driver \<Rightarrow> int \<Rightarrow> int \<Rightarrow> 'w \<Rightarrow> byte list result \<times> 'w" where
  "readRegisterOnce d register len w =
     (case selectRegisterOnce d register w of
        (Err e, w1) \<Rightarrow> (Err e, w1)
      | (Panic, w1) \<Rightarrow> (Panic, w1)
      | (Ok _, w1) \<Rightarrow>
          (case i2c_Transaction (drv_transport d) (drv_address7Bit d) [] len w1 of
             (Err e, w2) \<Rightarrow> (Err e, w2)
           | (Panic, w2) \<Rightarrow> (Panic, w2)
           | (Ok result, w2) \<Rightarrow>
               if int (length result) \<noteq> len
               then (Err (invalid_data (register_name ''read'' register)
                            (''returned '' @ showDec (length result) @ '' bytes; expected ''
                             @ showInt len)), w2)
               else (Ok result, w2)))"

definition readRegister :: "'w Driver \<Rightarrow> int \<Rightarrow> int \<Rightarrow> 'w \<Rightarrow> (byte list result \<times> 'w) option" where
  "readRegister d register len w =
     (if len < 1 \<or> len > maximumDataBytes
      then Some (Err (invalid_data ''read register''
                   (''length '' @ showInt len @ '' is outside 1..'' @ showInt maximumDataBytes)), w)
      else retryIO (drv_transport d) (register_name ''read'' register)
             (readRegisterOnce d register len) w)"

text \<open>Indexing an empty slice, or a two-byte read of a shorter one, panics.\<close>

definition readByte :: "'w Driver \<Rightarrow> int \<Rightarrow> 'w \<Rightarrow> (int result \<times> 'w) option" where
  "readByte d register w =
     andThen (readRegister d register 1 w)
       (\<lambda>data w1. case data of [] \<Rightarrow> Some (Panic, w1) | b # _ \<Rightarrow> Some (Ok (uint b), w1))"

definition readUnsignedBigEndianShort :: "'w Driver \<Rightarrow> int \<Rightarrow> 'w \<Rightarrow> (int result \<times> 'w) option" where
  "readUnsignedBigEndianShort d register w =
     andThen (readRegister d register 2 w)
       (\<lambda>data w1. case data of
            hi # lo # _ \<Rightarrow> Some (Ok (uint hi * 256 + uint lo), w1)
          | _ \<Rightarrow> Some (Panic, w1))"

definition writeRegisterOnce :: "'w Driver \<Rightarrow> int \<Rightarrow> byte list \<Rightarrow> 'w \<Rightarrow> unit result \<times> 'w" where
  "writeRegisterOnce d register data w =
     (case i2c_Transaction (drv_transport d) (drv_address7Bit d) (word_of_int register # data) 0 w of
        (Err e, w1) \<Rightarrow> (Err e, w1)
      | (Panic, w1) \<Rightarrow> (Panic, w1)
      | (Ok result, w1) \<Rightarrow>
          if length result \<noteq> 0
          then (Err (invalid_data (register_name ''write'' register) ''returned unexpected data''), w1)
          else (Ok (), w1))"

definition writeRegister :: "'w Driver \<Rightarrow> int \<Rightarrow> byte list \<Rightarrow> 'w \<Rightarrow> (unit result \<times> 'w) option" where
  "writeRegister d register data =
     retryIO (drv_transport d) (register_name ''write'' register) (writeRegisterOnce d register data)"

definition writeUnsignedBigEndianShort ::
  "'w Driver \<Rightarrow> int \<Rightarrow> int \<Rightarrow> 'w \<Rightarrow> (unit result \<times> 'w) option" where
  "writeUnsignedBigEndianShort d register value w =
     (if value < 0 \<or> value > 0xffff
      then Some (Err (invalid_data ''write length''
                   (''value '' @ showInt value @ '' is outside 0..65535'')), w)
      else writeRegister d register [word_of_int (drop_bit 8 value), word_of_int value] w)"

definition bestEffortErrorCode :: "'w Driver \<Rightarrow> 'w \<Rightarrow> (byte option result \<times> 'w) option" where
  "bestEffortErrorCode d w =
     (case selectRegister d errorRegister w of
        None \<Rightarrow> None
      | Some (Err e, w1) \<Rightarrow> Some (Ok None, w1)
      | Some (Panic, w1) \<Rightarrow> Some (Panic, w1)
      | Some (Ok _, w1) \<Rightarrow>
          (case i2c_Transaction (drv_transport d) (drv_address7Bit d) [] 1 w1 of
             (Err e, w2) \<Rightarrow> Some (Ok None, w2)
           | (Panic, w2) \<Rightarrow> Some (Panic, w2)
           | (Ok result, w2) \<Rightarrow>
               (case result of [value] \<Rightarrow> Some (Ok (Some value), w2) | _ \<Rightarrow> Some (Ok None, w2))))"

section \<open>Operations\<close>

text \<open>\<open>ctxErr\<close> is the value of \<^verbatim>\<open>ctx.Err()\<close> at the entry of the call.\<close>

definition ProtocolMajor :: "'w Driver \<Rightarrow> go_error option \<Rightarrow> 'w \<Rightarrow> (byte result \<times> 'w) option" where
  "ProtocolMajor d ctxErr w =
     (case ctxErr of
        Some e \<Rightarrow> Some (Err e, w)
      | None \<Rightarrow>
          andThen (readByte d protocolMajorRegister w) (\<lambda>value w1. Some (Ok (word_of_int value), w1)))"

text \<open>\<^verbatim>\<open>copy(certificate[offset:], window)\<close>.\<close>

definition copy_at :: "nat \<Rightarrow> byte list \<Rightarrow> byte list \<Rightarrow> byte list" where
  "copy_at offset window dst =
     take offset dst @ take (length dst - offset) window @ drop (offset + length window) dst"

function cert_loop ::
  "'w Driver \<Rightarrow> nat \<Rightarrow> nat \<Rightarrow> int \<Rightarrow> byte list \<Rightarrow> 'w \<Rightarrow> (byte list result \<times> 'w) option" where
  "cert_loop d len offset register certificate w =
     (if offset < len
      then
        let count = min certificateWindowBytes (len - offset)
        in (case readRegister d register (int count) w of
              None \<Rightarrow> None
            | Some (Err e, w1) \<Rightarrow> Some (Err e, w1)
            | Some (Panic, w1) \<Rightarrow> Some (Panic, w1)
            | Some (Ok window, w1) \<Rightarrow>
                cert_loop d len (offset + count) (register + 1) (copy_at offset window certificate) w1)
      else Some (Ok certificate, w))"
  by pat_completeness auto
termination
  by (relation "measure (\<lambda>(d, len, offset, register, certificate, w). len - offset)")
     (auto simp: certificateWindowBytes_def)

declare cert_loop.simps [simp del]

definition ReadCertificate ::
  "'w Driver \<Rightarrow> go_error option \<Rightarrow> 'w \<Rightarrow> (byte list result \<times> 'w) option" where
  "ReadCertificate d ctxErr w =
     (case ctxErr of
        Some e \<Rightarrow> Some (Err e, w)
      | None \<Rightarrow>
          andThen (readUnsignedBigEndianShort d certificateLengthRegister w)
            (\<lambda>len w1.
               if len < 1 \<or> len > maximumDataBytes
               then Some (Err (invalid_data ''read certificate''
                            (''certificate length '' @ showInt len @ '' is outside 1..''
                             @ showInt maximumDataBytes)), w1)
               else cert_loop d (nat len) 0 certificateDataRegister (replicate (nat len) 0) w1))"

partial_function (option) auth_poll ::
  "'w Driver \<Rightarrow> int \<Rightarrow> 'w \<Rightarrow> (unit result \<times> 'w) option" where
  "auth_poll d deadline w =
     (case readByte d authControlStatusRegister w of
        None \<Rightarrow> None
      | Some (r, w1) \<Rightarrow>
          if r = Panic then Some (Panic, w1)
          else if r = Ok authSuccessStatus then Some (Ok (), w1)
          else if i2c_now (drv_transport d) w1 > deadline
          then (case bestEffortErrorCode d w1 of
                  None \<Rightarrow> None
                | Some (Panic, w2) \<Rightarrow> Some (Panic, w2)
                | Some (Err e, w2) \<Rightarrow> Some (Err e, w2)
                | Some (Ok code, w2) \<Rightarrow>
                    Some (Err (ChipError ErrorAuthFailed ''MFi authentication'' code
                                 (Some (ErrorString ''timed out after 3s''))), w2))
          else auth_poll d deadline (i2c_sleep (drv_transport d) authPollInterval w1))"

definition SignChallenge ::
  "'w Driver \<Rightarrow> go_error option \<Rightarrow> byte list \<Rightarrow> 'w \<Rightarrow> (byte list result \<times> 'w) option" where
  "SignChallenge d ctxErr challenge w =
     (case ctxErr of
        Some e \<Rightarrow> Some (Err e, w)
      | None \<Rightarrow>
          if length challenge < 1 \<or> length challenge > maximumChallengeBytes
          then Some (Err (invalid_data ''sign challenge''
                       (''challenge must be 1..'' @ showDec maximumChallengeBytes @ '' bytes'')), w)
          else
            andThen (writeUnsignedBigEndianShort d challengeLengthRegister (int (length challenge)) w)
              (\<lambda>_ w1. andThen (writeRegister d challengeDataRegister challenge w1)
              (\<lambda>_ w2. andThen (writeRegister d authControlStatusRegister [authStartCommand] w2)
              (\<lambda>_ w3.
                 let w4 = i2c_sleep (drv_transport d) initialAuthDelay w3;
                     deadline = i2c_now (drv_transport d) w4 + authTimeout
                 in andThen (auth_poll d deadline w4)
              (\<lambda>_ w5. andThen (readUnsignedBigEndianShort d responseLengthRegister w5)
              (\<lambda>len w6.
                 if len < 1 \<or> len > maximumDataBytes
                 then Some (Err (invalid_data ''read signature''
                              (''signature length '' @ showInt len @ '' is outside 1..''
                               @ showInt maximumDataBytes)), w6)
                 else readRegister d responseDataRegister len w6))))))"

end
