(* ===== verification/ChipCorrect.thy ===== *)
theory ChipCorrect
  imports Chip
begin

text \<open>
  The driver on an arbitrary transport. The locale \<open>i2c_clock\<close> states what the driver relies on:
  the clock never goes back, and \<^verbatim>\<open>time.Sleep\<close> advances it. Inside it every driver operation is
  shown to return, to return data of the announced length, and to panic only if the transport
  does.
\<close>

section \<open>Outcomes\<close>

definition bus_safe :: "'w i2c \<Rightarrow> bool" where
  "bus_safe bus \<longleftrightarrow> (\<forall>a wd n w. fst (i2c_Transaction bus a wd n w) \<noteq> Panic)"

text \<open>\<open>lands bus w m Q\<close>: the call \<open>m\<close>, made in state \<open>w\<close>, returns, not earlier than it started; a
  value satisfies \<open>Q\<close>, and a panic is the transport's.\<close>

definition lands :: "'w i2c \<Rightarrow> 'w \<Rightarrow> ('a result \<times> 'w) option \<Rightarrow> ('a \<Rightarrow> bool) \<Rightarrow> bool" where
  "lands bus w m Q \<longleftrightarrow>
     (\<exists>r w'. m = Some (r, w') \<and> i2c_now bus w \<le> i2c_now bus w'
        \<and> (case r of Ok a \<Rightarrow> Q a | Err e \<Rightarrow> True | Panic \<Rightarrow> \<not> bus_safe bus))"

lemma lands_Ok [intro]: "i2c_now bus w \<le> i2c_now bus w' \<Longrightarrow> Q a \<Longrightarrow> lands bus w (Some (Ok a, w')) Q"
  by (simp add: lands_def)

lemma lands_Err [intro]: "i2c_now bus w \<le> i2c_now bus w' \<Longrightarrow> lands bus w (Some (Err e, w')) Q"
  by (simp add: lands_def)

lemma lands_weaken: "lands bus w m Q \<Longrightarrow> (\<And>a. Q a \<Longrightarrow> R a) \<Longrightarrow> lands bus w m R"
  unfolding lands_def by (elim exE, rename_tac r w', case_tac r) auto

lemma lands_later: "lands bus w1 m Q \<Longrightarrow> i2c_now bus w \<le> i2c_now bus w1 \<Longrightarrow> lands bus w m Q"
  by (force simp: lands_def)

lemma landsE:
  assumes "lands bus w m Q"
  obtains r w' where "m = Some (r, w')" "i2c_now bus w \<le> i2c_now bus w'"
    "\<And>a. r = Ok a \<Longrightarrow> Q a" "r = Panic \<Longrightarrow> \<not> bus_safe bus"
  using assms unfolding lands_def by (elim exE conjE) (rename_tac r w', case_tac r; simp)

lemma lands_andThen:
  assumes "lands bus w m Q"
    and "\<And>a w1. Q a \<Longrightarrow> i2c_now bus w \<le> i2c_now bus w1 \<Longrightarrow> lands bus w (k a w1) R"
  shows "lands bus w (andThen m k) R"
proof -
  from assms(1) obtain r w1 where m: "m = Some (r, w1)" "i2c_now bus w \<le> i2c_now bus w1"
    "case r of Ok a \<Rightarrow> Q a | Err e \<Rightarrow> True | Panic \<Rightarrow> \<not> bus_safe bus"
    by (auto simp: lands_def)
  then show ?thesis
    using assms(2) by (cases r) (auto simp: andThen_def lands_def)
qed

lemma andThen_Ok_D:
  assumes "andThen m k = Some (Ok b, w')"
  obtains a w1 where "m = Some (Ok a, w1)" "k a w1 = Some (Ok b, w')"
  using assms by (auto simp: andThen_def split: option.splits result.splits prod.splits)

text \<open>A single attempt: it takes time, and its value satisfies \<open>Q\<close>.\<close>

definition attempts :: "'w i2c \<Rightarrow> ('w \<Rightarrow> 'a result \<times> 'w) \<Rightarrow> ('a \<Rightarrow> bool) \<Rightarrow> bool" where
  "attempts bus action Q \<longleftrightarrow>
     (\<forall>w r w'. action w = (r, w') \<longrightarrow> i2c_now bus w \<le> i2c_now bus w'
        \<and> (case r of Ok a \<Rightarrow> Q a | Err e \<Rightarrow> True | Panic \<Rightarrow> \<not> bus_safe bus))"

lemma attemptsD:
  assumes "attempts bus action Q" and "action w = (r, w')"
  shows "i2c_now bus w \<le> i2c_now bus w'"
    and "case r of Ok a \<Rightarrow> Q a | Err e \<Rightarrow> True | Panic \<Rightarrow> \<not> bus_safe bus"
  using assms unfolding attempts_def by blast+

section \<open>Copying windows\<close>

lemma length_copy_at:
  "offset + length window \<le> length dst \<Longrightarrow> length (copy_at offset window dst) = length dst"
  by (simp add: copy_at_def)

lemma copy_at_append:
  assumes "length window \<le> length rest"
  shows "copy_at (length done) window (done @ rest) = (done @ window) @ drop (length window) rest"
  using assms by (simp add: copy_at_def)

section \<open>The interface to the transport\<close>

locale i2c_clock =
  fixes bus :: "'w i2c"
  assumes transaction_clock: "i2c_now bus w \<le> i2c_now bus (snd (i2c_Transaction bus a wd n w))"
    and sleep_clock: "0 \<le> t \<Longrightarrow> i2c_now bus w + t \<le> i2c_now bus (i2c_sleep bus t w)"
begin

lemma transaction_clockD:
  "i2c_Transaction bus a wd n w = (r, w') \<Longrightarrow> i2c_now bus w \<le> i2c_now bus w'"
  using transaction_clock [of w a wd n] by simp

lemma transaction_safeD:
  "i2c_Transaction bus a wd n w = (Panic, w') \<Longrightarrow> \<not> bus_safe bus"
  unfolding bus_safe_def by (metis fst_conv)

lemma retry_loop_lands:
  assumes att: "attempts bus action Q"
  shows "lands bus w (retry_loop bus operation action deadline w) Q"
proof (induction "nat (deadline - i2c_now bus w + 1)" arbitrary: w rule: less_induct)
  case less
  obtain r w1 where a: "action w = (r, w1)" by fastforce
  note D = attemptsD [OF att a]
  show ?case
  proof (cases "\<exists>e. r = Err e \<and> isRetryableTransportError e \<and> \<not> i2c_now bus w1 > deadline")
    case False
    then show ?thesis
      using D by (cases r) (auto simp: retry_loop.simps [of bus operation action deadline w] a lands_def)
  next
    case True
    then obtain e where e: "r = Err e" "isRetryableTransportError e" "i2c_now bus w1 \<le> deadline"
      by auto
    let ?w2 = "i2c_sleep bus ioRetryDelay w1"
    have s: "i2c_now bus w1 + ioRetryDelay \<le> i2c_now bus ?w2"
      by (rule sleep_clock) (simp add: ioRetryDelay_def)
    then have "nat (deadline - i2c_now bus ?w2 + 1) < nat (deadline - i2c_now bus w + 1)"
      using D(1) e(3) by (simp add: ioRetryDelay_def)
    from less.hyps [OF this]
    have "lands bus ?w2 (retry_loop bus operation action deadline ?w2) Q" .
    then have "lands bus w (retry_loop bus operation action deadline ?w2) Q"
      by (rule lands_later) (use s D(1) in \<open>simp add: ioRetryDelay_def\<close>)
    moreover have "retry_loop bus operation action deadline w
        = retry_loop bus operation action deadline ?w2"
      using e by (simp add: retry_loop.simps [of bus operation action deadline w] a)
    ultimately show ?thesis by simp
  qed
qed

lemma retryIO_lands: "attempts bus action Q \<Longrightarrow> lands bus w (retryIO bus operation action w) Q"
  unfolding retryIO_def by (rule retry_loop_lands)

lemma selectRegisterOnce_attempts:
  assumes "drv_transport d = bus"
  shows "attempts bus (selectRegisterOnce d register) (\<lambda>_. True)"
  unfolding attempts_def selectRegisterOnce_def assms
  by (auto split: result.splits prod.splits if_splits dest: transaction_clockD transaction_safeD)

lemma writeRegisterOnce_attempts:
  assumes "drv_transport d = bus"
  shows "attempts bus (writeRegisterOnce d register data) (\<lambda>_. True)"
  unfolding attempts_def writeRegisterOnce_def assms
  by (auto split: result.splits prod.splits if_splits dest: transaction_clockD transaction_safeD)

lemma readRegisterOnce_attempts:
  assumes "drv_transport d = bus"
  shows "attempts bus (readRegisterOnce d register len) (\<lambda>data. int (length data) = len)"
  unfolding attempts_def
proof (intro allI impI)
  fix w r w'
  assume r: "readRegisterOnce d register len w = (r, w')"
  obtain s w1 where s: "selectRegisterOnce d register w = (s, w1)" by fastforce
  note S = attemptsD [OF selectRegisterOnce_attempts [OF assms] s]
  show "i2c_now bus w \<le> i2c_now bus w' \<and> (case r of Ok data \<Rightarrow> int (length data) = len
      | Err e \<Rightarrow> True | Panic \<Rightarrow> \<not> bus_safe bus)"
  proof (cases s)
    case (Ok u)
    obtain q w2 where q: "i2c_Transaction bus (drv_address7Bit d) [] len w1 = (q, w2)" by fastforce
    show ?thesis
      using r s S Ok q assms transaction_clockD [OF q] transaction_safeD [of _ _ _ w1 w2]
      by (cases q) (auto simp: readRegisterOnce_def split: if_splits)
  qed (use r s S in \<open>auto simp: readRegisterOnce_def\<close>)
qed

lemma readRegister_lands:
  assumes "drv_transport d = bus"
  shows "lands bus w (readRegister d register len w)
     (\<lambda>data. int (length data) = len \<and> 1 \<le> len \<and> len \<le> maximumDataBytes)"
proof (cases "len < 1 \<or> len > maximumDataBytes")
  case True
  then show ?thesis by (auto simp: readRegister_def)
next
  case False
  with lands_weaken [OF retryIO_lands [OF readRegisterOnce_attempts [OF assms]],
      where R = "\<lambda>data. int (length data) = len \<and> 1 \<le> len \<and> len \<le> maximumDataBytes"]
  show ?thesis by (simp add: readRegister_def assms)
qed

lemma writeRegister_lands:
  "drv_transport d = bus \<Longrightarrow> lands bus w (writeRegister d register data w) (\<lambda>_. True)"
  using retryIO_lands [OF writeRegisterOnce_attempts] by (simp add: writeRegister_def)

lemma selectRegister_lands:
  "drv_transport d = bus \<Longrightarrow> lands bus w (selectRegister d register w) (\<lambda>_. True)"
  using retryIO_lands [OF selectRegisterOnce_attempts] by (simp add: selectRegister_def)

lemma readByte_lands:
  assumes "drv_transport d = bus"
  shows "lands bus w (readByte d register w) (\<lambda>v. 0 \<le> v \<and> v < 256)"
  unfolding readByte_def
proof (rule lands_andThen [OF readRegister_lands [OF assms]])
  fix data :: "byte list" and w1
  assume "int (length data) = 1 \<and> 1 \<le> (1 :: int) \<and> 1 \<le> maximumDataBytes"
    and t: "i2c_now bus w \<le> i2c_now bus w1"
  then obtain b rest where "data = b # rest" by (cases data) auto
  moreover have "uint b < 256" using unsigned_less [of b, where 'a = int] by simp
  ultimately show "lands bus w (case data of [] \<Rightarrow> Some (Panic, w1)
      | b # _ \<Rightarrow> Some (Ok (uint b), w1)) (\<lambda>v. 0 \<le> v \<and> v < 256)"
    using t by auto
qed

lemma readUnsignedBigEndianShort_lands:
  assumes "drv_transport d = bus"
  shows "lands bus w (readUnsignedBigEndianShort d register w) (\<lambda>v. 0 \<le> v \<and> v < 65536)"
  unfolding readUnsignedBigEndianShort_def
proof (rule lands_andThen [OF readRegister_lands [OF assms]])
  fix data :: "byte list" and w1
  assume "int (length data) = 2 \<and> 1 \<le> (2 :: int) \<and> 2 \<le> maximumDataBytes"
    and t: "i2c_now bus w \<le> i2c_now bus w1"
  then obtain hi lo where d: "data = [hi, lo]"
    by (cases data; cases "tl data") auto
  have "uint hi < 256" "uint lo < 256"
    using unsigned_less [of hi, where 'a = int] unsigned_less [of lo, where 'a = int] by simp_all
  then show "lands bus w (case data of hi # lo # _ \<Rightarrow> Some (Ok (uint hi * 256 + uint lo), w1)
      | _ \<Rightarrow> Some (Panic, w1)) (\<lambda>v. 0 \<le> v \<and> v < 65536)"
    using t by (auto simp: d)
qed

lemma writeUnsignedBigEndianShort_lands:
  "drv_transport d = bus \<Longrightarrow> lands bus w (writeUnsignedBigEndianShort d register v w) (\<lambda>_. True)"
  using writeRegister_lands by (auto simp: writeUnsignedBigEndianShort_def)

lemma bestEffortErrorCode_lands:
  assumes "drv_transport d = bus"
  shows "lands bus w (bestEffortErrorCode d w) (\<lambda>_. True)"
proof -
  obtain r w1 where s: "selectRegister d errorRegister w = Some (r, w1)"
    and t: "i2c_now bus w \<le> i2c_now bus w1"
    and p: "r = Panic \<Longrightarrow> \<not> bus_safe bus"
    by (rule landsE [OF selectRegister_lands [OF assms, of w errorRegister]]) blast
  show ?thesis
  proof (cases r)
    case (Ok u)
    obtain q w2 where q: "i2c_Transaction bus (drv_address7Bit d) [] 1 w1 = (q, w2)" by fastforce
    have "i2c_now bus w \<le> i2c_now bus w2" using t transaction_clockD [OF q] by simp
    then show ?thesis
      using s Ok q assms transaction_safeD [of _ _ _ w1 w2]
      by (cases q) (auto simp: bestEffortErrorCode_def lands_def split: list.splits)
  qed (use s t p in \<open>auto simp: bestEffortErrorCode_def lands_def\<close>)
qed

lemma ProtocolMajor_lands:
  assumes "drv_transport d = bus"
  shows "lands bus w (ProtocolMajor d ctxErr w) (\<lambda>_. True)"
proof (cases ctxErr)
  case None
  then show ?thesis
    unfolding ProtocolMajor_def
    by (auto intro!: lands_andThen [OF readByte_lands [OF assms]])
qed (auto simp: ProtocolMajor_def)

lemma cert_loop_lands:
  assumes "drv_transport d = bus" and "length certificate = len" and "offset \<le> len"
  shows "lands bus w (cert_loop d len offset register certificate w) (\<lambda>c. length c = len)"
  using assms(2,3)
proof (induction "len - offset" arbitrary: offset register certificate w rule: less_induct)
  case less
  show ?case
  proof (cases "offset < len")
    case False
    then show ?thesis using less.prems by (auto simp: cert_loop.simps)
  next
    case True
    let ?count = "min certificateWindowBytes (len - offset)"
    obtain r w1
      where r: "readRegister d register (int ?count) w = Some (r, w1)" "i2c_now bus w \<le> i2c_now bus w1"
        "\<And>a. r = Ok a \<Longrightarrow> int (length a) = int ?count \<and> 1 \<le> int ?count \<and> int ?count \<le> maximumDataBytes"
        "r = Panic \<Longrightarrow> \<not> bus_safe bus"
      by (rule landsE [OF readRegister_lands [OF assms(1), of w register "int ?count"]]) blast
    show ?thesis
    proof (cases r)
      case (Ok window)
      have "lands bus w1 (cert_loop d len (offset + ?count) (register + 1)
          (copy_at offset window certificate) w1) (\<lambda>c. length c = len)"
        using True r(3) Ok less.prems
        by (intro less.hyps) (auto simp: length_copy_at certificateWindowBytes_def)
      then show ?thesis
        using True r Ok by (subst cert_loop.simps) (auto simp: Let_def intro: lands_later)
    qed (use True r in \<open>subst cert_loop.simps, auto simp: Let_def lands_def\<close>)+
  qed
qed

lemma ReadCertificate_lands:
  assumes "drv_transport d = bus"
  shows "lands bus w (ReadCertificate d ctxErr w)
     (\<lambda>c. 1 \<le> length c \<and> int (length c) \<le> maximumDataBytes)"
proof (cases ctxErr)
  case None
  have "lands bus w (if len < 1 \<or> len > maximumDataBytes
               then Some (Err (invalid_data ''read certificate''
                            (''certificate length '' @ showInt len @ '' is outside 1..''
                             @ showInt maximumDataBytes)), w1)
               else cert_loop d (nat len) 0 certificateDataRegister (replicate (nat len) 0) w1)
     (\<lambda>c. 1 \<le> length c \<and> int (length c) \<le> maximumDataBytes)"
    if "i2c_now bus w \<le> i2c_now bus w1" for len w1
    using that lands_later [OF lands_weaken [OF cert_loop_lands [OF assms], of _ "nat len"]]
    by auto
  then show ?thesis
    unfolding ReadCertificate_def None option.case
    by (intro lands_andThen [OF readUnsignedBigEndianShort_lands [OF assms]])
qed (auto simp: ReadCertificate_def)

lemma auth_poll_lands:
  assumes "drv_transport d = bus"
  shows "lands bus w (auth_poll d deadline w) (\<lambda>_. True)"
proof (induction "nat (deadline - i2c_now bus w + 1)" arbitrary: w rule: less_induct)
  case less
  obtain r w1 where r: "readByte d authControlStatusRegister w = Some (r, w1)"
    and t: "i2c_now bus w \<le> i2c_now bus w1"
    and p: "r = Panic \<Longrightarrow> \<not> bus_safe bus"
    by (rule landsE [OF readByte_lands [OF assms, of w authControlStatusRegister]]) blast
  note step = auth_poll.simps [of d deadline w, unfolded r assms, simplified]
  show ?case
  proof (cases "r = Panic \<or> r = Ok authSuccessStatus")
    case True
    then show ?thesis using t p by (auto simp: step lands_def)
  next
    case notdone: False
    show ?thesis
    proof (cases "i2c_now bus w1 > deadline")
      case True
      obtain q w2 where q: "bestEffortErrorCode d w1 = Some (q, w2)" "i2c_now bus w1 \<le> i2c_now bus w2"
        "q = Panic \<Longrightarrow> \<not> bus_safe bus"
        by (rule landsE [OF bestEffortErrorCode_lands [OF assms, of w1]]) blast
      then show ?thesis
        using notdone True t by (cases q) (auto simp: step lands_def)
    next
      case False
      let ?w2 = "i2c_sleep bus authPollInterval w1"
      have s: "i2c_now bus w1 + authPollInterval \<le> i2c_now bus ?w2"
        by (rule sleep_clock) (simp add: authPollInterval_def)
      then have "lands bus ?w2 (auth_poll d deadline ?w2) (\<lambda>_. True)"
        using t False by (intro less.hyps) (simp add: authPollInterval_def)
      then have "lands bus w (auth_poll d deadline ?w2) (\<lambda>_. True)"
        by (rule lands_later) (use s t in \<open>simp add: authPollInterval_def\<close>)
      then show ?thesis using notdone False by (simp add: step)
    qed
  qed
qed

lemma SignChallenge_lands:
  assumes "drv_transport d = bus"
  shows "lands bus w (SignChallenge d ctxErr challenge w)
     (\<lambda>s. 1 \<le> length s \<and> int (length s) \<le> maximumDataBytes)"
proof (cases "ctxErr \<noteq> None \<or> length challenge < 1 \<or> length challenge > maximumChallengeBytes")
  case True
  then show ?thesis by (auto simp: SignChallenge_def split: option.split)
next
  case False
  have s: "i2c_now bus w \<le> i2c_now bus (i2c_sleep bus initialAuthDelay w3)"
    if "i2c_now bus w \<le> i2c_now bus w3" for w3
    using that sleep_clock [of initialAuthDelay w3] by (simp add: initialAuthDelay_def)
  have resp: "lands bus w (readRegister d responseDataRegister len w6)
      (\<lambda>s. 1 \<le> length s \<and> int (length s) \<le> maximumDataBytes)"
    if "i2c_now bus w \<le> i2c_now bus w6" for len w6
    by (rule lands_later [OF lands_weaken [OF readRegister_lands [OF assms]] that]) auto
  from False show ?thesis
    unfolding SignChallenge_def Let_def assms
    by (auto intro!: lands_andThen [OF lands_later [OF writeUnsignedBigEndianShort_lands [OF assms]]]
        lands_andThen [OF lands_later [OF writeRegister_lands [OF assms]]]
        lands_andThen [OF lands_later [OF auth_poll_lands [OF assms]]]
        lands_andThen [OF lands_later [OF readUnsignedBigEndianShort_lands [OF assms]]]
        lands_Err s resp [simplified])
qed

end

end
