(* ===== verification/ChipSpec.thy ===== *)
theory ChipSpec
  imports ChipCorrect
begin

text \<open>
  What the driver relies on in the coprocessor, as an abstract register machine: the register
  map of the constants in internal/chip/driver.go, with a certificate, a signing function and a
  signing phase. \<open>coprocessor\<close> relates a transport to such a machine. Every transaction may fail
  with a transport error, a failed write may have been carried out or not, and the machine
  finishes a signature whenever it likes.

  On top of it: a driver call returns the right bytes, or fails only after having retried for
  the whole retry window.
\<close>

section \<open>The abstract coprocessor\<close>

datatype mfi_phase = Idle | Signing "byte list" | Done "byte list"

record mfi =
  mfi_selected :: byte
  mfi_length :: "byte list"
  mfi_challenge :: "byte list"
  mfi_phase :: mfi_phase

definition be16 :: "nat \<Rightarrow> byte list" where
  "be16 n = [word_of_nat (n div 256), word_of_nat n]"

text \<open>A write of \<open>data\<close> to register \<open>r\<close>; with no data it only selects the register.\<close>

definition mfi_write :: "byte \<Rightarrow> byte list \<Rightarrow> mfi \<Rightarrow> mfi" where
  "mfi_write r data m =
     (let m1 = m\<lparr>mfi_selected := r\<rparr>
      in if data = [] then m1
         else if r = 0x20 then m1\<lparr>mfi_length := data\<rparr>
         else if r = 0x21 then m1\<lparr>mfi_challenge := data\<rparr>
         else if r = 0x10 \<and> data = [0x01] \<and> mfi_length m = be16 (length (mfi_challenge m))
         then m1\<lparr>mfi_phase := Signing (mfi_challenge m)\<rparr>
         else m1)"

text \<open>What a read of \<open>n\<close> bytes may return.\<close>

definition mfi_reply ::
  "byte list \<Rightarrow> (byte list \<Rightarrow> byte list) \<Rightarrow> mfi \<Rightarrow> nat \<Rightarrow> byte list \<Rightarrow> bool" where
  "mfi_reply cert sign m n data \<longleftrightarrow>
     length data = n
     \<and> (mfi_selected m = 0x30 \<and> n = 2 \<longrightarrow> data = be16 (length cert))
     \<and> (mfi_selected m \<ge> 0x31 \<longrightarrow>
          (let window = take 128 (drop (128 * (unat (mfi_selected m) - 0x31)) cert)
           in n \<le> length window \<longrightarrow> data = take n window))
     \<and> (mfi_selected m = 0x10 \<and> n = 1 \<longrightarrow> (data = [0x10] \<longleftrightarrow> (\<exists>c. mfi_phase m = Done c)))
     \<and> (\<forall>c. mfi_phase m = Done c \<longrightarrow>
          (mfi_selected m = 0x11 \<and> n = 2 \<longrightarrow> data = be16 (length (sign c)))
          \<and> (mfi_selected m = 0x12 \<and> n \<le> length (sign c) \<longrightarrow> data = take n (sign c)))"

text \<open>The machine on its own: a signature in progress may become available.\<close>

definition mfi_progress :: "mfi \<Rightarrow> mfi \<Rightarrow> bool" where
  "mfi_progress m m' \<longleftrightarrow>
     m' = m \<or> (\<exists>c. mfi_phase m = Signing c \<and> m' = m\<lparr>mfi_phase := Done c\<rparr>)"

definition transport_failure :: "go_error \<Rightarrow> bool" where
  "transport_failure e \<longleftrightarrow> errors_As_transport e \<noteq> None"

definition coprocessor ::
  "'w i2c \<Rightarrow> byte \<Rightarrow> byte list \<Rightarrow> (byte list \<Rightarrow> byte list) \<Rightarrow> ('w \<Rightarrow> mfi) \<Rightarrow> bool" where
  "coprocessor bus addr cert sign view \<longleftrightarrow>
     (\<forall>r data w res w'. i2c_Transaction bus addr (r # data) 0 w = (res, w') \<longrightarrow>
        (\<exists>m s. mfi_progress (view w) m
           \<and> (res = Ok [] \<and> view w' = mfi_write r data m
              \<or> (\<exists>e. res = Err e \<and> transport_failure e)
                \<and> (view w' = m\<lparr>mfi_selected := s\<rparr> \<or> view w' = mfi_write r data m))))
     \<and> (\<forall>n w res w'. 0 < n \<longrightarrow> i2c_Transaction bus addr [] (int n) w = (res, w') \<longrightarrow>
          mfi_progress (view w) (view w')
          \<and> ((\<exists>e. res = Err e \<and> transport_failure e)
             \<or> (\<exists>data. res = Ok data \<and> mfi_reply cert sign (view w') n data)))
     \<and> (\<forall>t w. mfi_progress (view w) (view (i2c_sleep bus t w)))"

section \<open>Total outcomes\<close>

text \<open>\<open>settles bus w m E Q\<close>: the call returns a value with \<open>Q\<close>, or fails with an error in \<open>E\<close> after
  more than the retry window.\<close>

definition settles ::
  "'w i2c \<Rightarrow> 'w \<Rightarrow> ('a result \<times> 'w) option \<Rightarrow> (go_error \<Rightarrow> 'w \<Rightarrow> bool)
     \<Rightarrow> ('a \<Rightarrow> 'w \<Rightarrow> bool) \<Rightarrow> bool" where
  "settles bus w m E Q \<longleftrightarrow>
     (\<exists>r w'. m = Some (r, w') \<and> i2c_now bus w \<le> i2c_now bus w'
        \<and> ((\<exists>a. r = Ok a \<and> Q a w')
           \<or> (\<exists>e. r = Err e \<and> E e w' \<and> i2c_now bus w + ioRetryTimeout < i2c_now bus w')))"

lemma settles_Ok [intro]: "i2c_now bus w \<le> i2c_now bus w' \<Longrightarrow> Q a w' \<Longrightarrow> settles bus w (Some (Ok a, w')) E Q"
  by (simp add: settles_def)

lemma settles_weaken:
  "settles bus w m E Q \<Longrightarrow> (\<And>a w'. Q a w' \<Longrightarrow> R a w') \<Longrightarrow> (\<And>e w'. E e w' \<Longrightarrow> F e w') \<Longrightarrow> settles bus w m F R"
  unfolding settles_def by blast

lemma settles_later:
  "settles bus w1 m E Q \<Longrightarrow> i2c_now bus w \<le> i2c_now bus w1 \<Longrightarrow> settles bus w m E Q"
  unfolding settles_def by (elim exE conjE disjE) fastforce+

lemma settles_andThen:
  assumes "settles bus w m E Q"
    and "\<And>a w1. Q a w1 \<Longrightarrow> i2c_now bus w \<le> i2c_now bus w1 \<Longrightarrow> settles bus w1 (k a w1) E R"
  shows "settles bus w (andThen m k) E R"
proof -
  from assms(1) obtain r w1 where m: "m = Some (r, w1)" "i2c_now bus w \<le> i2c_now bus w1"
    "(\<exists>a. r = Ok a \<and> Q a w1)
       \<or> (\<exists>e. r = Err e \<and> E e w1 \<and> i2c_now bus w + ioRetryTimeout < i2c_now bus w1)"
    by (auto simp: settles_def)
  from m(3) show ?thesis
  proof (elim disjE exE conjE)
    fix a assume "r = Ok a" "Q a w1"
    with m assms(2) show ?thesis by (auto simp: andThen_def intro: settles_later)
  next
    fix e assume "r = Err e" "E e w1" "i2c_now bus w + ioRetryTimeout < i2c_now bus w1"
    with m show ?thesis by (auto simp: andThen_def settles_def)
  qed
qed

text \<open>One attempt under an invariant \<open>I\<close>: it succeeds with \<open>Q\<close>, or fails with a transport error and
  keeps \<open>I\<close>.\<close>

definition tries :: "('w \<Rightarrow> 'a result \<times> 'w) \<Rightarrow> ('w \<Rightarrow> bool) \<Rightarrow> ('a \<Rightarrow> 'w \<Rightarrow> bool) \<Rightarrow> bool" where
  "tries action I Q \<longleftrightarrow>
     (\<forall>w r w'. I w \<longrightarrow> action w = (r, w') \<longrightarrow>
        (\<exists>a. r = Ok a \<and> Q a w') \<or> (\<exists>e. r = Err e \<and> transport_failure e \<and> I w'))"

context i2c_clock
begin

lemma retry_loop_settles:
  assumes att: "attempts bus action P" and trs: "tries action I Q"
    and sleep: "\<And>w t. I w \<Longrightarrow> I (i2c_sleep bus t w)"
    and "I w" and "i2c_now bus w0 + ioRetryTimeout \<le> deadline" and "i2c_now bus w0 \<le> i2c_now bus w"
  shows "settles bus w0 (retry_loop bus operation action deadline w)
     (\<lambda>e w'. transport_failure e \<and> I w') Q"
  using assms(4,6)
proof (induction "nat (deadline - i2c_now bus w + 1)" arbitrary: w rule: less_induct)
  case less
  obtain r w1 where a: "action w = (r, w1)" by fastforce
  note D = attemptsD [OF att a]
  note unfold = retry_loop.simps [of bus operation action deadline w, unfolded a, simplified]
  from trs less.prems(1) a consider (ok) b where "r = Ok b" "Q b w1"
    | (err) e where "r = Err e" "transport_failure e" "I w1"
    unfolding tries_def by blast
  then show ?case
  proof cases
    case ok
    then show ?thesis using D(1) less.prems(2) by (auto simp: unfold)
  next
    case err
    show ?thesis
    proof (cases "i2c_now bus w1 > deadline")
      case True
      then show ?thesis using err D(1) less.prems(2) assms(5)
        by (auto simp: unfold settles_def transport_failure_def)
    next
      case False
      let ?w2 = "i2c_sleep bus ioRetryDelay w1"
      have s: "i2c_now bus w1 + ioRetryDelay \<le> i2c_now bus ?w2"
        by (rule sleep_clock) (simp add: ioRetryDelay_def)
      then have "settles bus w0 (retry_loop bus operation action deadline ?w2)
          (\<lambda>e w'. transport_failure e \<and> I w') Q"
        using D(1) False less.prems(2) err sleep
        by (intro less.hyps) (auto simp: ioRetryDelay_def)
      then show ?thesis
        using err False by (simp add: unfold isRetryableTransportError_def transport_failure_def)
    qed
  qed
qed

lemma retryIO_settles:
  assumes "attempts bus action P" "tries action I Q" "\<And>w t. I w \<Longrightarrow> I (i2c_sleep bus t w)" "I w"
  shows "settles bus w (retryIO bus operation action w) (\<lambda>e w'. transport_failure e \<and> I w') Q"
  unfolding retryIO_def by (rule retry_loop_settles [OF assms]) auto

end

section \<open>Register accesses\<close>

text \<open>Facts about the machine that its own progress and a change of the selected register keep.\<close>

definition mfi_stable :: "(mfi \<Rightarrow> bool) \<Rightarrow> bool" where
  "mfi_stable P \<longleftrightarrow>
     (\<forall>m. P m \<longrightarrow> (\<forall>s. P (m\<lparr>mfi_selected := s\<rparr>)) \<and> (\<forall>m'. mfi_progress m m' \<longrightarrow> P m'))"

lemma stable_progress: "mfi_stable P \<Longrightarrow> P m \<Longrightarrow> mfi_progress m m' \<Longrightarrow> P m'"
  by (auto simp: mfi_stable_def)

lemma stable_select: "mfi_stable P \<Longrightarrow> P m \<Longrightarrow> P (m\<lparr>mfi_selected := s\<rparr>)"
  by (auto simp: mfi_stable_def)

lemma mfi_write_Nil [simp]: "mfi_write r [] m = m\<lparr>mfi_selected := r\<rparr>"
  by (simp add: mfi_write_def)

lemma mfi_progress_selected: "mfi_progress m m' \<Longrightarrow> mfi_selected m' = mfi_selected m"
  by (auto simp: mfi_progress_def)

lemma mfi_reply_length: "mfi_reply cert sign m n data \<Longrightarrow> length data = n"
  by (simp add: mfi_reply_def)

lemma coprocessor_write:
  assumes "coprocessor bus addr cert sign view"
    and "i2c_Transaction bus addr (r # data) 0 w = (res, w')"
    and "mfi_stable P" and "P (view w)" and "\<And>m. P m \<Longrightarrow> P (mfi_write r data m)"
  shows "res = Ok [] \<and> (\<exists>m. P m \<and> view w' = mfi_write r data m)
     \<or> (\<exists>e. res = Err e \<and> transport_failure e \<and> P (view w'))"
proof -
  from assms(1,2) obtain m s where m: "mfi_progress (view w) m"
    and c: "res = Ok [] \<and> view w' = mfi_write r data m
              \<or> (\<exists>e. res = Err e \<and> transport_failure e)
                \<and> (view w' = m\<lparr>mfi_selected := s\<rparr> \<or> view w' = mfi_write r data m)"
    unfolding coprocessor_def by blast
  have "P m" using assms(3,4) m by (rule stable_progress)
  with c show ?thesis using assms(5) stable_select [OF assms(3)] by auto
qed

lemma coprocessor_read:
  assumes "coprocessor bus addr cert sign view"
    and "i2c_Transaction bus addr [] len w = (res, w')" and "0 < len"
    and "mfi_stable P" and "P (view w)"
  shows "P (view w') \<and> mfi_selected (view w') = mfi_selected (view w)
     \<and> ((\<exists>e. res = Err e \<and> transport_failure e)
        \<or> (\<exists>data. res = Ok data \<and> mfi_reply cert sign (view w') (nat len) data))"
proof -
  have "i2c_Transaction bus addr [] (int (nat len)) w = (res, w')" "0 < nat len"
    using assms(2,3) by simp_all
  with assms(1) have "mfi_progress (view w) (view w')"
    "(\<exists>e. res = Err e \<and> transport_failure e)
     \<or> (\<exists>data. res = Ok data \<and> mfi_reply cert sign (view w') (nat len) data)"
    unfolding coprocessor_def by blast+
  then show ?thesis
    using assms(4,5) by (auto dest: stable_progress mfi_progress_selected)
qed

lemma coprocessor_sleep:
  "coprocessor bus addr cert sign view \<Longrightarrow> mfi_stable P \<Longrightarrow> P (view w) \<Longrightarrow> P (view (i2c_sleep bus t w))"
  unfolding coprocessor_def using stable_progress by blast

lemma selectRegisterOnce_tries:
  assumes "coprocessor bus addr cert sign view" and "mfi_stable P"
    and "drv_transport d = bus" "drv_address7Bit d = addr"
  shows "tries (selectRegisterOnce d register) (\<lambda>w. P (view w))
     (\<lambda>_ w'. P (view w') \<and> mfi_selected (view w') = word_of_int register)"
  unfolding tries_def
proof (intro allI impI)
  fix w r w'
  assume P: "P (view w)" and r: "selectRegisterOnce d register w = (r, w')"
  obtain q w1 where q: "i2c_Transaction bus addr [word_of_int register] 0 w = (q, w1)" by fastforce
  from coprocessor_write [OF assms(1) q assms(2) P] stable_select [OF assms(2)]
  show "(\<exists>a. r = Ok a \<and> P (view w') \<and> mfi_selected (view w') = word_of_int register)
     \<or> (\<exists>e. r = Err e \<and> transport_failure e \<and> P (view w'))"
    using r q by (auto simp: selectRegisterOnce_def assms(3,4))
qed

lemma readRegisterOnce_tries:
  assumes "coprocessor bus addr cert sign view" and "mfi_stable P"
    and "drv_transport d = bus" "drv_address7Bit d = addr" and "1 \<le> len"
  shows "tries (readRegisterOnce d register len) (\<lambda>w. P (view w))
     (\<lambda>data w'. P (view w') \<and> mfi_selected (view w') = word_of_int register
        \<and> mfi_reply cert sign (view w') (nat len) data)"
  unfolding tries_def
proof (intro allI impI)
  fix w r w'
  assume P: "P (view w)" and r: "readRegisterOnce d register len w = (r, w')"
  obtain s w1 where s: "selectRegisterOnce d register w = (s, w1)" by fastforce
  from selectRegisterOnce_tries [OF assms(1-4), of register] P s
  consider (sel) "s = Ok ()" "P (view w1)" "mfi_selected (view w1) = word_of_int register"
    | (err) e where "s = Err e" "transport_failure e" "P (view w1)"
    unfolding tries_def by fastforce
  then show "(\<exists>data. r = Ok data \<and> P (view w') \<and> mfi_selected (view w') = word_of_int register
        \<and> mfi_reply cert sign (view w') (nat len) data)
     \<or> (\<exists>e. r = Err e \<and> transport_failure e \<and> P (view w'))"
  proof cases
    case sel
    obtain q w2 where q: "i2c_Transaction bus addr [] len w1 = (q, w2)" by fastforce
    have r': "r = (case q of Ok data \<Rightarrow> if int (length data) \<noteq> len
          then Err (invalid_data (register_name ''read'' register)
                 (''returned '' @ showDec (length data) @ '' bytes; expected '' @ showInt len))
          else Ok data | Err e \<Rightarrow> Err e | Panic \<Rightarrow> Panic)" "w' = w2"
      using r s sel(1) q by (auto simp: readRegisterOnce_def assms(3,4) split: result.splits if_splits)
    from coprocessor_read [OF assms(1) q _ assms(2) sel(2)] assms(5)
    have c: "P (view w2)" "mfi_selected (view w2) = word_of_int register"
      "(\<exists>e. q = Err e \<and> transport_failure e)
       \<or> (\<exists>data. q = Ok data \<and> mfi_reply cert sign (view w2) (nat len) data)"
      by (simp_all add: sel(3))
    from c(3) show ?thesis
      using c(1,2) r' assms(5) by (elim disjE exE conjE) (auto dest: mfi_reply_length)
  qed (use r s in \<open>auto simp: readRegisterOnce_def\<close>)
qed

lemma writeRegisterOnce_tries:
  assumes "coprocessor bus addr cert sign view" and "mfi_stable P"
    and "drv_transport d = bus" "drv_address7Bit d = addr"
    and "\<And>m. P m \<Longrightarrow> P (mfi_write (word_of_int register) data m) \<and> R (mfi_write (word_of_int register) data m)"
  shows "tries (writeRegisterOnce d register data) (\<lambda>w. P (view w)) (\<lambda>_ w'. R (view w'))"
  unfolding tries_def
proof (intro allI impI)
  fix w r w'
  assume P: "P (view w)" and r: "writeRegisterOnce d register data w = (r, w')"
  obtain q w1 where q: "i2c_Transaction bus addr (word_of_int register # data) 0 w = (q, w1)" by fastforce
  from coprocessor_write [OF assms(1) q assms(2) P] assms(5)
  show "(\<exists>a. r = Ok a \<and> R (view w')) \<or> (\<exists>e. r = Err e \<and> transport_failure e \<and> P (view w'))"
    using r q by (auto simp: writeRegisterOnce_def assms(3,4))
qed

end
