(* ===== verification/ChipProps.thy ===== *)
theory ChipProps
  imports ChipSpec
begin

text \<open>
  The driver against the abstract coprocessor: reading the certificate and signing a challenge
  return exactly what the coprocessor holds, whatever transport errors occur on the way.
\<close>

section \<open>Numbers on the wire\<close>

lemma be16_value:
  assumes "n < 65536" and "be16 n = [hi, lo]"
  shows "uint hi * 256 + uint lo = int n"
proof -
  have "int (n div 256) * 256 + int (n mod 256) = int n"
    using div_mult_mod_eq [of n 256] by linarith
  with assms show ?thesis by (auto simp: be16_def unsigned_of_nat take_bit_eq_mod)
qed

lemma be16_write: "[word_of_int (drop_bit 8 (int n)), word_of_int (int n)] = be16 n"
proof -
  have "int n div 256 = int (n div 256)" by simp
  then show ?thesis by (simp only: be16_def drop_bit_eq_div) simp
qed

section \<open>Phases of a signature\<close>

definition signing :: "byte list \<Rightarrow> mfi \<Rightarrow> bool" where
  "signing ch m \<longleftrightarrow> mfi_phase m = Signing ch \<or> mfi_phase m = Done ch"

definition sign_error :: "go_error \<Rightarrow> bool" where
  "sign_error e \<longleftrightarrow> transport_failure e \<or> chip_IsKind e ErrorAuthFailed"

definition loaded :: "nat \<Rightarrow> byte list option \<Rightarrow> mfi \<Rightarrow> bool" where
  "loaded n ch m \<longleftrightarrow>
     mfi_length m = be16 n \<and> (case ch of None \<Rightarrow> True | Some c \<Rightarrow> mfi_challenge m = c)"

lemma signing_stable: "mfi_stable (signing ch)"
  by (auto simp: mfi_stable_def signing_def mfi_progress_def)

lemma loaded_stable: "mfi_stable (loaded n ch)"
  by (auto simp: mfi_stable_def loaded_def mfi_progress_def split: option.splits)

lemma done_stable: "mfi_stable (\<lambda>m. mfi_phase m = Done ch)"
  by (auto simp: mfi_stable_def mfi_progress_def)

section \<open>A chip as a register file\<close>

text \<open>Any chip with 256 readable registers: a one-byte write selects the register, a read of \<open>n\<close>
  bytes returns the first \<open>n\<close> bytes of the selected one. Every transaction may fail with a
  transport error.\<close>

definition register_file :: "'w i2c \<Rightarrow> byte \<Rightarrow> (byte \<Rightarrow> byte list) \<Rightarrow> ('w \<Rightarrow> byte) \<Rightarrow> bool" where
  "register_file bus addr content selected \<longleftrightarrow>
     (\<forall>r w res w'. i2c_Transaction bus addr [r] 0 w = (res, w') \<longrightarrow>
        res = Ok [] \<and> selected w' = r \<or> (\<exists>e. res = Err e \<and> transport_failure e))
     \<and> (\<forall>n w res w'. 0 < n \<longrightarrow> i2c_Transaction bus addr [] (int n) w = (res, w') \<longrightarrow>
        res = Ok (take n (content (selected w))) \<or> (\<exists>e. res = Err e \<and> transport_failure e))"

text \<open>The bytes behind the certificate windows as the driver numbers them: window \<open>i\<close> is asked for
  as register \<open>0x31 + i\<close>, of which the low byte is sent.\<close>

definition windows_of :: "(byte \<Rightarrow> byte list) \<Rightarrow> nat \<Rightarrow> byte list" where
  "windows_of content n = map (\<lambda>i. content (word_of_nat (0x31 + i div 128)) ! (i mod 128)) [0..<n]"

lemma windows_of_window:
  assumes "128 * i < n" and "length (content (word_of_nat (0x31 + i))) = 128"
  shows "take 128 (drop (128 * i) (windows_of content n))
     = take (min 128 (n - 128 * i)) (content (word_of_nat (0x31 + i)))"
proof (rule nth_equalityI)
  fix j assume "j < length (take 128 (drop (128 * i) (windows_of content n)))"
  then have j: "j < 128" "128 * i + j < n" by (auto simp: windows_of_def)
  then have "(128 * i + j) div 128 = i" "(128 * i + j) mod 128 = j" by auto
  then show "take 128 (drop (128 * i) (windows_of content n)) ! j
      = take (min 128 (n - 128 * i)) (content (word_of_nat (0x31 + i))) ! j"
    using j by (simp add: windows_of_def)
qed (use assms in \<open>simp add: windows_of_def min_def\<close>)

lemma readRegisterOnce_file:
  assumes "register_file bus addr content selected" and "drv_transport d = bus" "drv_address7Bit d = addr"
    and "1 \<le> len" and "len \<le> int (length (content (word_of_int register)))"
  shows "tries (readRegisterOnce d register len) (\<lambda>w. True)
     (\<lambda>data w'. data = take (nat len) (content (word_of_int register)))"
  unfolding tries_def
proof (intro allI impI)
  fix w r w'
  assume r: "readRegisterOnce d register len w = (r, w')"
  obtain s w1 where s: "i2c_Transaction bus addr [word_of_int register] 0 w = (s, w1)" by fastforce
  obtain q w2 where q: "i2c_Transaction bus addr [] len w1 = (q, w2)" by fastforce
  have "i2c_Transaction bus addr [] (int (nat len)) w1 = (q, w2)" "0 < nat len" using q assms(4) by simp_all
  with assms(1) s consider
      (ok) "s = Ok []" "q = Ok (take (nat len) (content (word_of_int register)))"
    | (select) e where "s = Err e" "transport_failure e"
    | (read) e where "s = Ok []" "q = Err e" "transport_failure e"
    unfolding register_file_def by metis
  then show "(\<exists>a. r = Ok a \<and> a = take (nat len) (content (word_of_int register)))
     \<or> (\<exists>e. r = Err e \<and> transport_failure e \<and> True)"
    using r s q assms(4,5)
    by cases (auto simp: readRegisterOnce_def selectRegisterOnce_def assms(2,3))
qed

section \<open>Registers\<close>

context i2c_clock
begin

lemma readRegister_settles:
  assumes "coprocessor bus addr cert sign view" and "mfi_stable P"
    and "drv_transport d = bus" "drv_address7Bit d = addr"
    and "P (view w)" and "1 \<le> len" and "len \<le> maximumDataBytes"
  shows "settles bus w (readRegister d register len w) (\<lambda>e w'. transport_failure e \<and> P (view w'))
     (\<lambda>data w'. P (view w') \<and> mfi_selected (view w') = word_of_int register
        \<and> mfi_reply cert sign (view w') (nat len) data)"
  using retryIO_settles [OF readRegisterOnce_attempts [OF assms(3)] readRegisterOnce_tries [OF assms(1-4,6)]
      coprocessor_sleep [OF assms(1,2)] assms(5)] assms(6,7)
  by (simp add: readRegister_def assms(3))

lemma writeRegister_settles:
  assumes "coprocessor bus addr cert sign view" and "mfi_stable P"
    and "drv_transport d = bus" "drv_address7Bit d = addr" and "P (view w)"
    and "\<And>m. P m \<Longrightarrow> P (mfi_write (word_of_int register) data m) \<and> R (mfi_write (word_of_int register) data m)"
  shows "settles bus w (writeRegister d register data w) (\<lambda>e w'. transport_failure e \<and> P (view w'))
     (\<lambda>_ w'. R (view w'))"
  using retryIO_settles [OF writeRegisterOnce_attempts [OF assms(3)]
      writeRegisterOnce_tries [OF assms(1-4), of register data R] coprocessor_sleep [OF assms(1,2)] assms(5)]
    assms(6)
  by (simp add: writeRegister_def assms(3))

lemma readByte_settles:
  assumes "coprocessor bus addr cert sign view" and "mfi_stable P"
    and "drv_transport d = bus" "drv_address7Bit d = addr" and "P (view w)"
  shows "settles bus w (readByte d register w) (\<lambda>e w'. transport_failure e \<and> P (view w'))
     (\<lambda>v w'. P (view w') \<and> mfi_selected (view w') = word_of_int register
        \<and> (\<exists>b. v = uint b \<and> mfi_reply cert sign (view w') 1 [b]))"
  unfolding readByte_def
proof (rule settles_andThen [OF readRegister_settles [OF assms]])
  fix data :: "byte list" and w1
  assume a: "P (view w1) \<and> mfi_selected (view w1) = word_of_int register
    \<and> mfi_reply cert sign (view w1) (nat 1) data"
  then obtain b where "data = [b]"
    by (auto dest!: mfi_reply_length simp: length_Suc_conv)
  with a show "settles bus w1 (case data of [] \<Rightarrow> Some (Panic, w1) | b # _ \<Rightarrow> Some (Ok (uint b), w1))
      (\<lambda>e w'. transport_failure e \<and> P (view w'))
      (\<lambda>v w'. P (view w') \<and> mfi_selected (view w') = word_of_int register
        \<and> (\<exists>b. v = uint b \<and> mfi_reply cert sign (view w') 1 [b]))"
    by (auto intro!: settles_Ok)
qed (simp_all add: maximumDataBytes_def)

lemma readShort_settles:
  assumes "coprocessor bus addr cert sign view" and "mfi_stable P"
    and "drv_transport d = bus" "drv_address7Bit d = addr" and "P (view w)"
    and "\<And>m data. P m \<Longrightarrow> mfi_selected m = word_of_int register \<Longrightarrow> mfi_reply cert sign m 2 data
           \<Longrightarrow> data = be16 n" and "n < 65536"
  shows "settles bus w (readUnsignedBigEndianShort d register w)
     (\<lambda>e w'. transport_failure e \<and> P (view w')) (\<lambda>v w'. P (view w') \<and> v = int n)"
  unfolding readUnsignedBigEndianShort_def
proof (rule settles_andThen [OF readRegister_settles [OF assms(1-5)]])
  fix data :: "byte list" and w1
  assume a: "P (view w1) \<and> mfi_selected (view w1) = word_of_int register
    \<and> mfi_reply cert sign (view w1) (nat 2) data"
  then have d: "data = be16 n" using assms(6) [of "view w1" data] by simp
  obtain hi lo where b: "be16 n = [hi, lo]" by (simp add: be16_def)
  from d show "settles bus w1 (case data of hi # lo # _ \<Rightarrow> Some (Ok (uint hi * 256 + uint lo), w1)
      | _ \<Rightarrow> Some (Panic, w1)) (\<lambda>e w'. transport_failure e \<and> P (view w'))
      (\<lambda>v w'. P (view w') \<and> v = int n)"
    using a be16_value [OF assms(7) b] by (auto simp: b intro!: settles_Ok)
qed (simp_all add: maximumDataBytes_def)

text \<open>Reading the windows of the certificate.\<close>

lemma cert_loop_settles:
  assumes win: "\<And>i w. 128 * i < length cert \<Longrightarrow>
      settles bus w (readRegister d (certificateDataRegister + int i) (int (min 128 (length cert - 128 * i))) w)
        (\<lambda>e w'. transport_failure e) (\<lambda>data w'. data = take 128 (drop (128 * i) cert))"
  shows "length rest = length cert - offset \<Longrightarrow> offset = min (128 * i) (length cert) \<Longrightarrow>
     settles bus w (cert_loop d (length cert) offset (certificateDataRegister + int i)
         (take offset cert @ rest) w)
       (\<lambda>e w'. transport_failure e) (\<lambda>c w'. c = cert)"
proof (induction "length cert - offset" arbitrary: offset i rest w rule: less_induct)
  case less
  show ?case
  proof (cases "offset < length cert")
    case False
    then show ?thesis
      using less.prems by (auto simp: cert_loop.simps [of d _ "length cert"] intro!: settles_Ok)
  next
    case True
    then have off: "offset = 128 * i" using less.prems(2) by (simp add: min_def split: if_splits)
    let ?count = "min certificateWindowBytes (length cert - offset)"
    let ?reg = "certificateDataRegister + int i"
    let ?win = "take 128 (drop offset cert)"
    have len: "length ?win = ?count" by (simp add: certificateWindowBytes_def)
    have next_step: "settles bus w1 (cert_loop d (length cert) (offset + ?count) (?reg + 1)
          (copy_at offset ?win (take offset cert @ rest)) w1) (\<lambda>e w'. transport_failure e) (\<lambda>c w'. c = cert)"
      for w1
    proof -
      have "take offset cert @ ?win = take (offset + ?count) cert"
        by (auto simp: take_add [symmetric] certificateWindowBytes_def min_def)
      then have c: "copy_at offset ?win (take offset cert @ rest)
          = take (offset + ?count) cert @ drop ?count rest"
        using copy_at_append [of ?win rest "take offset cert"] True less.prems(1) len by simp
      have r: "?reg + 1 = certificateDataRegister + int (i + 1)" by simp
      show ?thesis
        unfolding c r using True off less.prems(1)
        by (intro less.hyps) (auto simp: certificateWindowBytes_def min_def)
    qed
    have "settles bus w (andThen (readRegister d ?reg (int ?count) w)
        (\<lambda>window w1. cert_loop d (length cert) (offset + ?count) (?reg + 1)
           (copy_at offset window (take offset cert @ rest)) w1))
        (\<lambda>e w'. transport_failure e) (\<lambda>c w'. c = cert)"
    proof (rule settles_andThen)
      show "settles bus w (readRegister d ?reg (int ?count) w) (\<lambda>e w'. transport_failure e)
          (\<lambda>data w'. data = ?win)"
        using win [of i w] True by (simp add: off certificateWindowBytes_def)
    qed (use next_step in auto)
    moreover have "cert_loop d (length cert) offset ?reg (take offset cert @ rest) w
      = andThen (readRegister d ?reg (int ?count) w)
        (\<lambda>window w1. cert_loop d (length cert) (offset + ?count) (?reg + 1)
           (copy_at offset window (take offset cert @ rest)) w1)"
      using True by (subst cert_loop.simps) (simp add: Let_def andThen_def)
    ultimately show ?thesis by simp
  qed
qed

text \<open>Up to 207 windows, the registers do not wrap around.\<close>

lemma cert_window_settles:
  assumes "coprocessor bus addr cert sign view"
    and "drv_transport d = bus" "drv_address7Bit d = addr" and "length cert \<le> 26496"
    and "128 * i < length cert"
  shows "settles bus w (readRegister d (certificateDataRegister + int i) (int (min 128 (length cert - 128 * i))) w)
        (\<lambda>e w'. transport_failure e) (\<lambda>data w'. data = take 128 (drop (128 * i) cert))"
proof -
  have i: "i < 207" using assms(4,5) by simp
  let ?count = "min 128 (length cert - 128 * i)"
  define rw :: byte where "rw = word_of_int (certificateDataRegister + int i)"
  have "rw = word_of_nat (0x31 + i)"
    by (simp add: rw_def certificateDataRegister_def)
  then have reg: "unat rw = 0x31 + i"
    using i by (simp only: unsigned_of_nat) (simp add: take_bit_eq_mod)
  have "data = take 128 (drop (128 * i) cert)"
    if "mfi_selected m = word_of_int (certificateDataRegister + int i)"
      "mfi_reply cert sign m (nat (int ?count)) data" for m data
  proof -
    have m: "mfi_selected m = rw" by (simp only: that(1) rw_def)
    have "rw \<ge> 0x31" by (simp add: word_le_nat_alt reg)
    with that(2) show ?thesis by (auto simp: mfi_reply_def Let_def m reg min_def)
  qed
  then show ?thesis
    using assms(5)
    by (intro settles_weaken [OF readRegister_settles [OF assms(1) _ assms(2,3), where P = "\<lambda>_. True"]])
       (auto simp: mfi_stable_def maximumDataBytes_def)
qed

lemma ReadCertificate_settles:
  assumes "coprocessor bus addr cert sign view"
    and "drv_transport d = bus" "drv_address7Bit d = addr"
    and "cert \<noteq> []" and "length cert \<le> 26496"
  shows "settles bus w (ReadCertificate d None w) (\<lambda>e w'. transport_failure e) (\<lambda>c w'. c = cert)"
proof -
  have "settles bus w1 (cert_loop d (length cert) 0 certificateDataRegister
      (replicate (length cert) 0) w1) (\<lambda>e w'. transport_failure e) (\<lambda>c w'. c = cert)" for w1
    using cert_loop_settles [OF cert_window_settles [OF assms(1-3,5)], of "replicate (length cert) 0" 0 0 w1] by simp
  moreover have "1 \<le> int (length cert)" using assms(4) by (cases cert) auto
  ultimately show ?thesis
    unfolding ReadCertificate_def option.case using assms(5)
    by (intro settles_andThen [OF settles_weaken [OF readShort_settles [OF assms(1) _ assms(2,3),
            where P = "\<lambda>_. True" and n = "length cert"]]])
       (auto simp: mfi_stable_def maximumDataBytes_def certificateLengthRegister_def mfi_reply_def)
qed

text \<open>The same loop on a register file.\<close>

lemma readRegister_file:
  assumes "register_file bus addr content selected" and "drv_transport d = bus" "drv_address7Bit d = addr"
    and "1 \<le> len" and "len \<le> int (length (content (word_of_int register)))" and "len \<le> maximumDataBytes"
  shows "settles bus w (readRegister d register len w) (\<lambda>e w'. transport_failure e)
     (\<lambda>data w'. data = take (nat len) (content (word_of_int register)))"
  using retryIO_settles [OF readRegisterOnce_attempts [OF assms(2)] readRegisterOnce_file [OF assms(1-5)]] assms(4,6)
  by (simp add: readRegister_def assms(2))

lemma ReadCertificate_file:
  assumes "register_file bus addr content selected" and "drv_transport d = bus" "drv_address7Bit d = addr"
    and "\<And>r. length (content r) = 128" and "take 2 (content 0x30) = be16 n" and "1 \<le> n" "n \<le> 65525"
  shows "settles bus w (ReadCertificate d None w) (\<lambda>e w'. transport_failure e)
     (\<lambda>c w'. c = windows_of content n)"
proof -
  let ?cert = "windows_of content n"
  have n: "length ?cert = n" by (simp add: windows_of_def)
  have "settles bus w (readRegister d (certificateDataRegister + int i) (int (min 128 (length ?cert - 128 * i))) w)
        (\<lambda>e w'. transport_failure e) (\<lambda>data w'. data = take 128 (drop (128 * i) ?cert))"
    if i: "128 * i < length ?cert" for i w
  proof -
    have r: "(word_of_int (certificateDataRegister + int i) :: byte) = word_of_nat (0x31 + i)"
      by (simp add: certificateDataRegister_def)
    show ?thesis
      using readRegister_file [OF assms(1-3), of "int (min 128 (n - 128 * i))" "certificateDataRegister + int i" w]
        windows_of_window [of i n content] i
      unfolding r by (simp add: n assms(4) maximumDataBytes_def)
  qed
  from cert_loop_settles [of ?cert, OF this, of "replicate n 0" 0 0]
  have loop: "settles bus w1 (cert_loop d n 0 certificateDataRegister (replicate n 0) w1)
      (\<lambda>e w'. transport_failure e) (\<lambda>c w'. c = ?cert)" for w1
    by (simp add: n)
  obtain hi lo where b: "be16 n = [hi, lo]" by (simp add: be16_def)
  have v: "uint hi * 256 + uint lo = int n" using be16_value [OF _ b] assms(7) by simp
  have short: "settles bus w (readUnsignedBigEndianShort d certificateLengthRegister w)
      (\<lambda>e w'. transport_failure e) (\<lambda>l w'. l = int n)"
    unfolding readUnsignedBigEndianShort_def
  proof (rule settles_andThen)
    show "settles bus w (readRegister d certificateLengthRegister 2 w) (\<lambda>e w'. transport_failure e)
        (\<lambda>data w'. data = [hi, lo])"
      using readRegister_file [OF assms(1-3), of 2 certificateLengthRegister w] assms(5)
      by (simp add: certificateLengthRegister_def assms(4) b maximumDataBytes_def)
  qed (auto simp: v intro!: settles_Ok)
  show ?thesis
    unfolding ReadCertificate_def option.case using assms(6,7) loop
    by (intro settles_andThen [OF short]) (auto simp: maximumDataBytes_def)
qed

text \<open>Signing.\<close>

lemma bestEffortErrorCode_total:
  assumes "coprocessor bus addr cert sign view"
    and "drv_transport d = bus" "drv_address7Bit d = addr"
  shows "\<exists>code w'. bestEffortErrorCode d w = Some (Ok code, w') \<and> i2c_now bus w \<le> i2c_now bus w'"
proof -
  have T: "mfi_stable (\<lambda>_. True)" by (simp add: mfi_stable_def)
  have "settles bus w (selectRegister d errorRegister w)
      (\<lambda>e w'. transport_failure e \<and> True) (\<lambda>_ w'. True \<and> mfi_selected (view w') = word_of_int errorRegister)"
    using retryIO_settles [OF selectRegisterOnce_attempts [OF assms(2)]
        selectRegisterOnce_tries [OF assms(1) T assms(2,3)]]
    by (simp add: selectRegister_def assms(2))
  then obtain r w1 where r: "selectRegister d errorRegister w = Some (r, w1)"
    "i2c_now bus w \<le> i2c_now bus w1" "(\<exists>a. r = Ok a) \<or> (\<exists>e. r = Err e)"
    unfolding settles_def by blast
  obtain q w2 where q: "i2c_Transaction bus addr [] 1 w1 = (q, w2)" by fastforce
  have q': "i2c_now bus w1 \<le> i2c_now bus w2" "q \<noteq> Panic"
    using transaction_clockD [OF q] coprocessor_read [OF assms(1) q _ T] by auto
  show ?thesis
    using r q q'
    by (cases q) (auto simp: bestEffortErrorCode_def assms(2,3) split: list.splits)
qed

lemma auth_poll_settles:
  assumes "coprocessor bus addr cert sign view"
    and "drv_transport d = bus" "drv_address7Bit d = addr"
    and "signing ch (view w)" and "i2c_now bus w0 + ioRetryTimeout \<le> deadline"
    and "i2c_now bus w0 \<le> i2c_now bus w"
  shows "settles bus w0 (auth_poll d deadline w) (\<lambda>e w'. sign_error e)
     (\<lambda>_ w'. mfi_phase (view w') = Done ch)"
  using assms(4,6)
proof (induction "nat (deadline - i2c_now bus w + 1)" arbitrary: w rule: less_induct)
  case less
  note rb = readByte_settles [OF assms(1) signing_stable assms(2,3) less.prems(1),
      of authControlStatusRegister]
  obtain r w1 where r: "readByte d authControlStatusRegister w = Some (r, w1)"
    and t: "i2c_now bus w \<le> i2c_now bus w1" and s: "signing ch (view w1)" and np: "r \<noteq> Panic"
    and ok: "r = Ok authSuccessStatus \<Longrightarrow> mfi_phase (view w1) = Done ch"
  proof -
    from rb obtain r w1 where *: "readByte d authControlStatusRegister w = Some (r, w1)"
      "i2c_now bus w \<le> i2c_now bus w1" "signing ch (view w1)"
      "(\<exists>b. r = Ok (uint b) \<and> mfi_selected (view w1) = word_of_int authControlStatusRegister
          \<and> mfi_reply cert sign (view w1) 1 [b]) \<or> (\<exists>e. r = Err e)"
      unfolding settles_def by blast
    have "mfi_phase (view w1) = Done ch" if rv: "r = Ok authSuccessStatus"
    proof -
      from rv *(4) obtain b where b: "uint b = authSuccessStatus"
        "mfi_selected (view w1) = word_of_int authControlStatusRegister"
        "mfi_reply cert sign (view w1) 1 [b]" by (metis result.distinct(1) result.inject(1))
      have "b = 0x10" by (rule word_uint_eqI) (simp add: b(1) authSuccessStatus_def)
      with b(2,3) have "\<exists>c. mfi_phase (view w1) = Done c"
        by (auto simp: mfi_reply_def authControlStatusRegister_def)
      with *(3) show ?thesis by (auto simp: signing_def)
    qed
    with * that show thesis by blast
  qed
  note step = auth_poll.simps [of d deadline w, unfolded r assms(2), simplified]
  show ?case
  proof (cases "r = Ok authSuccessStatus")
    case True
    then show ?thesis using ok t less.prems(2) by (auto simp: step intro!: settles_Ok)
  next
    case waiting: False
    show ?thesis
    proof (cases "i2c_now bus w1 > deadline")
      case True
      obtain code w2 where "bestEffortErrorCode d w1 = Some (Ok code, w2)" "i2c_now bus w1 \<le> i2c_now bus w2"
        using bestEffortErrorCode_total [OF assms(1-3)] by blast
      then show ?thesis using waiting np True t less.prems(2) assms(5)
        by (auto simp: step settles_def sign_error_def chip_IsKind_def)
    next
      case False
      let ?w2 = "i2c_sleep bus authPollInterval w1"
      have c: "i2c_now bus w1 + authPollInterval \<le> i2c_now bus ?w2"
        by (rule sleep_clock) (simp add: authPollInterval_def)
      have "signing ch (view ?w2)"
        using coprocessor_sleep [OF assms(1) signing_stable s] .
      then have "settles bus w0 (auth_poll d deadline ?w2) (\<lambda>e w'. sign_error e)
          (\<lambda>_ w'. mfi_phase (view w') = Done ch)"
        using t False c less.prems(2) by (intro less.hyps) (auto simp: authPollInterval_def)
      then show ?thesis using waiting np False by (simp add: step)
    qed
  qed
qed

lemma challenge_writes_settle:
  assumes "coprocessor bus addr cert sign view"
    and "drv_transport d = bus" "drv_address7Bit d = addr" and "ch \<noteq> []"
  shows "length ch < 65536 \<Longrightarrow>
      settles bus w (writeUnsignedBigEndianShort d challengeLengthRegister (int (length ch)) w)
        (\<lambda>e w'. sign_error e) (\<lambda>_ w'. loaded (length ch) None (view w'))"
    and "loaded (length ch) None (view w) \<Longrightarrow>
      settles bus w (writeRegister d challengeDataRegister ch w)
        (\<lambda>e w'. sign_error e) (\<lambda>_ w'. loaded (length ch) (Some ch) (view w'))"
    and "loaded (length ch) (Some ch) (view w) \<Longrightarrow>
      settles bus w (writeRegister d authControlStatusRegister [authStartCommand] w)
        (\<lambda>e w'. sign_error e) (\<lambda>_ w'. signing ch (view w'))"
proof -
  note W = settles_weaken [OF writeRegister_settles [OF assms(1) _ assms(2,3)], where F = "\<lambda>e w'. sign_error e"]
  have T: "mfi_stable (\<lambda>_. True)" by (simp add: mfi_stable_def)
  have be: "be16 n \<noteq> []" for n by (simp add: be16_def)
  show "length ch < 65536 \<Longrightarrow>
      settles bus w (writeUnsignedBigEndianShort d challengeLengthRegister (int (length ch)) w)
        (\<lambda>e w'. sign_error e) (\<lambda>_ w'. loaded (length ch) None (view w'))"
    unfolding writeUnsignedBigEndianShort_def be16_write
    by (simp, rule W [OF T]) (auto simp: mfi_write_def Let_def loaded_def sign_error_def
        challengeLengthRegister_def be)
  show "loaded (length ch) None (view w) \<Longrightarrow>
      settles bus w (writeRegister d challengeDataRegister ch w)
        (\<lambda>e w'. sign_error e) (\<lambda>_ w'. loaded (length ch) (Some ch) (view w'))"
    by (rule W [OF loaded_stable [of "length ch" None]])
       (auto simp: mfi_write_def Let_def loaded_def sign_error_def challengeDataRegister_def assms(4))
  show "loaded (length ch) (Some ch) (view w) \<Longrightarrow>
      settles bus w (writeRegister d authControlStatusRegister [authStartCommand] w)
        (\<lambda>e w'. sign_error e) (\<lambda>_ w'. signing ch (view w'))"
    by (rule W [OF loaded_stable [of "length ch" "Some ch"]])
       (auto simp: mfi_write_def Let_def loaded_def sign_error_def authControlStatusRegister_def
         authStartCommand_def signing_def)
qed

lemma response_settles:
  assumes "coprocessor bus addr cert sign view"
    and "drv_transport d = bus" "drv_address7Bit d = addr" and "mfi_phase (view w) = Done ch"
    and "sign ch \<noteq> []" and "int (length (sign ch)) \<le> maximumDataBytes"
  shows "settles bus w
     (andThen (readUnsignedBigEndianShort d responseLengthRegister w)
        (\<lambda>len w6.
           if len < 1 \<or> len > maximumDataBytes
           then Some (Err (invalid_data ''read signature''
                        (''signature length '' @ showInt len @ '' is outside 1..''
                         @ showInt maximumDataBytes)), w6)
           else readRegister d responseDataRegister len w6))
     (\<lambda>e w'. sign_error e) (\<lambda>s w'. s = sign ch)"
proof (rule settles_andThen)
  show "settles bus w (readUnsignedBigEndianShort d responseLengthRegister w) (\<lambda>e w'. sign_error e)
      (\<lambda>v w'. mfi_phase (view w') = Done ch \<and> v = int (length (sign ch)))"
    using assms(4,6)
    by (intro settles_weaken [OF readShort_settles [OF assms(1) done_stable assms(2,3)]])
       (auto simp: mfi_reply_def responseLengthRegister_def maximumDataBytes_def sign_error_def)
next
  fix len w6
  assume a: "mfi_phase (view w6) = Done ch \<and> len = int (length (sign ch))"
  have l: "1 \<le> int (length (sign ch))" using assms(5) by (cases "sign ch") auto
  have "settles bus w6 (readRegister d responseDataRegister len w6) (\<lambda>e w'. sign_error e) (\<lambda>s w'. s = sign ch)"
    using a assms(6) l
    by (intro settles_weaken [OF readRegister_settles [OF assms(1) done_stable assms(2,3)]])
       (auto simp: mfi_reply_def responseDataRegister_def sign_error_def)
  with a l assms(6) show "settles bus w6 (if len < 1 \<or> len > maximumDataBytes
           then Some (Err (invalid_data ''read signature''
                        (''signature length '' @ showInt len @ '' is outside 1..''
                         @ showInt maximumDataBytes)), w6)
           else readRegister d responseDataRegister len w6)
     (\<lambda>e w'. sign_error e) (\<lambda>s w'. s = sign ch)" by auto
qed

lemma auth_phase_settles:
  assumes "coprocessor bus addr cert sign view"
    and "drv_transport d = bus" "drv_address7Bit d = addr" and "signing ch (view w)"
  shows "settles bus w (auth_poll d (i2c_now bus (i2c_sleep bus initialAuthDelay w) + authTimeout)
       (i2c_sleep bus initialAuthDelay w)) (\<lambda>e w'. sign_error e) (\<lambda>_ w'. mfi_phase (view w') = Done ch)"
  using sleep_clock [of initialAuthDelay w]
  by (intro auth_poll_settles [OF assms(1-3)] coprocessor_sleep [OF assms(1) signing_stable assms(4)])
     (auto simp: initialAuthDelay_def ioRetryTimeout_def authTimeout_def)

lemma SignChallenge_settles:
  assumes "coprocessor bus addr cert sign view"
    and "drv_transport d = bus" "drv_address7Bit d = addr"
    and "1 \<le> length ch" "length ch \<le> 128"
    and "sign ch \<noteq> []" and "int (length (sign ch)) \<le> maximumDataBytes"
  shows "settles bus w (SignChallenge d None ch w) (\<lambda>e w'. sign_error e) (\<lambda>s w'. s = sign ch)"
proof -
  have ne: "ch \<noteq> []" using assms(4) by (cases ch) auto
  note writes = challenge_writes_settle [OF assms(1-3) ne]
  have guard: "\<not> (length ch < 1 \<or> length ch > maximumChallengeBytes)"
    using assms(5) ne by (simp add: maximumChallengeBytes_def)
  show ?thesis
    unfolding SignChallenge_def option.case if_not_P [OF guard] Let_def assms(2)
    using assms(5)
    by (intro settles_andThen [OF writes(1)] settles_andThen [OF writes(2)]
        settles_andThen [OF writes(3)] settles_andThen [OF auth_phase_settles [OF assms(1-3)]]
        response_settles [OF assms(1-3) _ assms(6,7)]) simp_all
qed

end

section \<open>A coprocessor that answers\<close>

text \<open>An executable instance of the register machine behind a bus that takes one nanosecond per
  transaction, answers the transactions scheduled by \<open>sim_faults\<close> with a NACK, and finishes a
  signature during the first sleep.\<close>

record sim_chip =
  sim_mfi :: mfi
  sim_now :: int
  sim_faults :: "bool list"

definition pad_to :: "nat \<Rightarrow> byte list \<Rightarrow> byte list" where
  "pad_to n xs = take n (xs @ replicate n 0)"

definition sim_reply :: "byte list \<Rightarrow> (byte list \<Rightarrow> byte list) \<Rightarrow> mfi \<Rightarrow> nat \<Rightarrow> byte list" where
  "sim_reply cert sign m n = pad_to n
     (if mfi_selected m = 0x30 then be16 (length cert)
      else if mfi_selected m \<ge> 0x31
      then take 128 (drop (128 * (unat (mfi_selected m) - 0x31)) cert)
      else case mfi_phase m of
        Done c \<Rightarrow>
          if mfi_selected m = 0x10 then [0x10]
          else if mfi_selected m = 0x11 then be16 (length (sign c))
          else if mfi_selected m = 0x12 then sign c else []
      | _ \<Rightarrow> [])"

definition sim_finish :: "mfi \<Rightarrow> mfi" where
  "sim_finish m = (case mfi_phase m of Signing c \<Rightarrow> m\<lparr>mfi_phase := Done c\<rparr> | _ \<Rightarrow> m)"

definition sim_bus :: "byte list \<Rightarrow> (byte list \<Rightarrow> byte list) \<Rightarrow> sim_chip i2c" where
  "sim_bus cert sign = \<lparr>
     i2c_Transaction = (\<lambda>a wd n w.
       let w1 = w\<lparr>sim_now := sim_now w + 1, sim_faults := tl (sim_faults w)\<rparr>
       in if sim_faults w \<noteq> [] \<and> hd (sim_faults w)
          then (Err (TransportError ErrorNACK ''test'' None), w1)
          else case wd of
            [] \<Rightarrow> (Ok (sim_reply cert sign (sim_mfi w) (nat n)), w1)
          | r # data \<Rightarrow> (Ok [], w1\<lparr>sim_mfi := mfi_write r data (sim_mfi w)\<rparr>)),
     i2c_now = sim_now,
     i2c_sleep = (\<lambda>t w. w\<lparr>sim_now := sim_now w + max t 0, sim_mfi := sim_finish (sim_mfi w)\<rparr>)\<rparr>"

definition sim_power_on :: "bool list \<Rightarrow> sim_chip" where
  "sim_power_on faults = \<lparr>sim_mfi = \<lparr>mfi_selected = 0, mfi_length = [], mfi_challenge = [],
     mfi_phase = Idle\<rparr>, sim_now = 0, sim_faults = faults\<rparr>"

interpretation sim: i2c_clock "sim_bus cert sign" for cert sign
  by unfold_locales (auto simp: sim_bus_def Let_def split: list.splits)

lemma pad_to_props: "length (pad_to n xs) = n" "n \<le> length xs \<Longrightarrow> pad_to n xs = take n xs"
  by (auto simp: pad_to_def)

lemma sim_reply_ok: "mfi_reply cert sign m n (sim_reply cert sign m n)"
proof -
  have be: "pad_to 2 (be16 k) = be16 k" for k by (simp add: pad_to_def be16_def numeral_2_eq_2)
  have one: "pad_to 1 [0x10] = [0x10]" "pad_to 1 [] \<noteq> [0x10]" by (simp_all add: pad_to_def)
  have lt: "\<not> (0x31 :: byte) \<le> 0x30" "\<not> (0x31 :: byte) \<le> 0x10" "\<not> (0x31 :: byte) \<le> 0x11"
    "\<not> (0x31 :: byte) \<le> 0x12"
    by (simp_all add: word_le_nat_alt)
  show ?thesis
    unfolding mfi_reply_def Let_def
  proof (intro conjI impI allI)
    show "length (sim_reply cert sign m n) = n" by (simp add: sim_reply_def pad_to_props)
  next
    assume "0x31 \<le> mfi_selected m"
      "n \<le> length (take 128 (drop (128 * (unat (mfi_selected m) - 0x31)) cert))"
    then show "sim_reply cert sign m n
        = take n (take 128 (drop (128 * (unat (mfi_selected m) - 0x31)) cert))"
      using lt by (auto simp: sim_reply_def pad_to_props)
  qed (use lt be one in \<open>auto simp: sim_reply_def pad_to_props split: mfi_phase.splits\<close>)
qed

lemma sim_finish_progress: "mfi_progress m (sim_finish m)"
  by (auto simp: mfi_progress_def sim_finish_def split: mfi_phase.splits)

lemma sim_coprocessor: "coprocessor (sim_bus cert sign) a cert sign sim_mfi"
proof -
  have refl: "mfi_progress m m" for m by (simp add: mfi_progress_def)
  have "\<exists>m s. mfi_progress (sim_mfi w) m
           \<and> (res = Ok [] \<and> sim_mfi w' = mfi_write r data m
              \<or> (\<exists>e. res = Err e \<and> transport_failure e)
                \<and> (sim_mfi w' = m\<lparr>mfi_selected := s\<rparr> \<or> sim_mfi w' = mfi_write r data m))"
    if "i2c_Transaction (sim_bus cert sign) a (r # data) 0 w = (res, w')" for r data w res w'
    using that refl [of "sim_mfi w"]
    by (intro exI [of _ "sim_mfi w"] exI [of _ "mfi_selected (sim_mfi w)"])
       (auto simp: sim_bus_def Let_def transport_failure_def split: if_splits)
  moreover have "mfi_progress (sim_mfi w) (sim_mfi w')
          \<and> ((\<exists>e. res = Err e \<and> transport_failure e)
             \<or> (\<exists>data. res = Ok data \<and> mfi_reply cert sign (sim_mfi w') n data))"
    if "i2c_Transaction (sim_bus cert sign) a [] (int n) w = (res, w')" for n w res w'
    using that refl [of "sim_mfi w"] sim_reply_ok [of cert sign "sim_mfi w" n]
    by (auto simp: sim_bus_def Let_def transport_failure_def split: if_splits)
  moreover have "mfi_progress (sim_mfi w) (sim_mfi (i2c_sleep (sim_bus cert sign) t w))" for t w
    using sim_finish_progress by (simp add: sim_bus_def)
  ultimately show ?thesis unfolding coprocessor_def by blast
qed

section \<open>Outcomes of the driver\<close>

lemma lands_outcome:
  "lands bus w m Q \<Longrightarrow>
     \<exists>r w'. m = Some (r, w') \<and> (bus_safe bus \<longrightarrow> r \<noteq> Panic) \<and> (\<forall>a. r = Ok a \<longrightarrow> Q a)"
  by (erule landsE) blast

definition last_attempt ::
  "'w i2c \<Rightarrow> string \<Rightarrow> ('w \<Rightarrow> 'a result \<times> 'w) \<Rightarrow> int \<Rightarrow> 'a result \<Rightarrow> 'w \<Rightarrow> bool" where
  "last_attempt bus operation action deadline r w' \<longleftrightarrow>
     (\<exists>w1 q. action w1 = (q, w') \<and>
     (case r of
        Ok a \<Rightarrow> q = Ok a
      | Panic \<Rightarrow> q = Panic
      | Err e \<Rightarrow> \<exists>e'. q = Err e' \<and> e = WrapError (operation @ '': '' @ error_text e') e'
           \<and> (transport_failure e \<longrightarrow> deadline < i2c_now bus w')))"

lemma retry_loop_last:
  assumes "retry_loop bus operation action deadline w = Some y"
  shows "last_attempt bus operation action deadline (fst y) (snd y)"
proof (rule retry_loop.raw_induct [where P = "\<lambda>bus operation action deadline w y.
      last_attempt bus operation action deadline (fst y) (snd y)", OF _ assms], goal_cases)
  case (1 rec bus operation action deadline w y)
  obtain q w1 where a: "action w = (q, w1)" by fastforce
  show ?case
  proof (cases "\<exists>e. q = Err e \<and> isRetryableTransportError e \<and> \<not> i2c_now bus w1 > deadline")
    case True
    then have "rec bus operation action deadline (i2c_sleep bus ioRetryDelay w1) = Some y"
      using 1(2) a by auto
    then show ?thesis by (rule 1(1))
  next
    case False
    then show ?thesis
      unfolding last_attempt_def
      using 1(2) a by (intro exI [of _ w] exI [of _ q])
        (cases q; auto simp: isRetryableTransportError_def transport_failure_def)
  qed
qed

section \<open>Properties\<close>

text \<open>C11. Reading the certificate: against a coprocessor that holds a certificate of 1 to 26496
  bytes, \<^verbatim>\<open>ReadCertificate\<close> always returns, and it returns exactly that certificate, put together
  from the 128-byte windows, whatever transport errors hit the individual transactions. It
  reports an error only if a transport error persisted for more than the two-second retry
  window, and that error wraps the transport error.\<close>

theorem ReadCertificate_correct:
  assumes "i2c_clock bus" and "coprocessor bus addr cert sign view"
    and "NewDriver (Some bus) addr = Ok d"
    and "cert \<noteq> []" and "length cert \<le> 26496"
  shows "\<exists>r w'. ReadCertificate d None w = Some (r, w')
     \<and> (r = Ok cert
        \<or> (\<exists>e. r = Err e \<and> transport_failure e \<and> i2c_now bus w + ioRetryTimeout < i2c_now bus w'))"
  using i2c_clock.ReadCertificate_settles [OF assms(1,2) _ _ assms(4,5), of d w] assms(3)
  by (auto simp: NewDriver_def settles_def split: if_splits)

theorem ReadCertificate_correct_witness:
  "\<exists>r w'. ReadCertificate \<lparr>drv_transport = sim_bus (replicate 300 7) rev, drv_address7Bit = 0x11\<rparr> None
        (sim_power_on [False, True]) = Some (r, w')
     \<and> (r = Ok (replicate 300 7)
        \<or> (\<exists>e. r = Err e \<and> transport_failure e
             \<and> i2c_now (sim_bus (replicate 300 7) rev) (sim_power_on [False, True]) + ioRetryTimeout
                 < i2c_now (sim_bus (replicate 300 7) rev) w'))"
  by (rule ReadCertificate_correct [OF sim.i2c_clock_axioms sim_coprocessor [of _ _ "0x11"]])
     (simp_all add: NewDriver_def)

text \<open>C12. Signing: against such a coprocessor, \<^verbatim>\<open>SignChallenge\<close> with a challenge of 1 to 128
  bytes always returns, and a returned signature is the coprocessor's signature of exactly this
  challenge, whatever transport errors occur and however long the coprocessor takes. It
  fails only after more than two seconds, with a transport error or with \<^verbatim>\<open>ErrorAuthFailed\<close>.\<close>

theorem SignChallenge_correct:
  assumes "i2c_clock bus" and "coprocessor bus addr cert sign view"
    and "NewDriver (Some bus) addr = Ok d"
    and "1 \<le> length ch" "length ch \<le> 128"
    and "sign ch \<noteq> []" and "length (sign ch) \<le> 65525"
  shows "\<exists>r w'. SignChallenge d None ch w = Some (r, w')
     \<and> (r = Ok (sign ch)
        \<or> (\<exists>e. r = Err e \<and> (transport_failure e \<or> chip_IsKind e ErrorAuthFailed)
             \<and> i2c_now bus w + ioRetryTimeout < i2c_now bus w'))"
  using i2c_clock.SignChallenge_settles [OF assms(1,2) _ _ assms(4-6), of d w] assms(3,7)
  by (auto simp: NewDriver_def settles_def sign_error_def maximumDataBytes_def split: if_splits)

theorem SignChallenge_correct_witness:
  "\<exists>r w'. SignChallenge \<lparr>drv_transport = sim_bus [1] rev, drv_address7Bit = 0x11\<rparr> None [1, 2, 3]
        (sim_power_on [False, True]) = Some (r, w')
     \<and> (r = Ok [3, 2, 1]
        \<or> (\<exists>e. r = Err e \<and> (transport_failure e \<or> chip_IsKind e ErrorAuthFailed)
             \<and> i2c_now (sim_bus [1] rev) (sim_power_on [False, True]) + ioRetryTimeout
                 < i2c_now (sim_bus [1] rev) w'))"
  using SignChallenge_correct [OF sim.i2c_clock_axioms sim_coprocessor [of "[1]" rev "0x11"],
      of "\<lparr>drv_transport = sim_bus [1] rev, drv_address7Bit = 0x11\<rparr>" "[1, 2, 3]"
        "sim_power_on [False, True]"]
  by (simp add: NewDriver_def)

text \<open>C13. The driver on any transport whose clock does not go back: every operation returns,
  whatever the transport answers; a certificate and a signature have 1 to 65525 bytes; and the
  driver panics only if the transport does.\<close>

theorem driver_returns:
  assumes "i2c_clock (drv_transport d)"
  shows "(\<exists>r w'. ProtocolMajor d ctxErr w = Some (r, w') \<and> (bus_safe (drv_transport d) \<longrightarrow> r \<noteq> Panic))
    \<and> (\<exists>r w'. ReadCertificate d ctxErr w = Some (r, w') \<and> (bus_safe (drv_transport d) \<longrightarrow> r \<noteq> Panic)
         \<and> (\<forall>c. r = Ok c \<longrightarrow> 1 \<le> length c \<and> length c \<le> 65525))
    \<and> (\<exists>r w'. SignChallenge d ctxErr ch w = Some (r, w') \<and> (bus_safe (drv_transport d) \<longrightarrow> r \<noteq> Panic)
         \<and> (\<forall>s. r = Ok s \<longrightarrow> 1 \<le> length s \<and> length s \<le> 65525))"
  using lands_outcome [OF i2c_clock.ProtocolMajor_lands [OF assms refl, of w ctxErr]]
    lands_outcome [OF i2c_clock.ReadCertificate_lands [OF assms refl, of w ctxErr]]
    lands_outcome [OF i2c_clock.SignChallenge_lands [OF assms refl, of w ctxErr ch]]
  by (simp add: maximumDataBytes_def)

theorem driver_returns_witness:
  "(\<exists>r w'. ProtocolMajor \<lparr>drv_transport = sim_bus [1] rev, drv_address7Bit = 0x11\<rparr> None
       (sim_power_on [True]) = Some (r, w'))
    \<and> (\<exists>r w'. ReadCertificate \<lparr>drv_transport = sim_bus [1] rev, drv_address7Bit = 0x11\<rparr> None
       (sim_power_on [True]) = Some (r, w'))
    \<and> (\<exists>r w'. SignChallenge \<lparr>drv_transport = sim_bus [1] rev, drv_address7Bit = 0x11\<rparr> None [1]
       (sim_power_on [True]) = Some (r, w'))"
  using driver_returns [of "\<lparr>drv_transport = sim_bus [1] rev, drv_address7Bit = 0x11\<rparr>" None
      "sim_power_on [True]" "[1]"] sim.i2c_clock_axioms [of "[1]" rev]
  by auto

text \<open>Retries: what \<^verbatim>\<open>retryIO\<close> returns is what its last attempt returned; an error is that of
  the last attempt, wrapped under the name of the operation; and the error is a transport error
  only if more than two seconds have passed.\<close>

theorem retryIO_last_attempt:
  assumes "retryIO bus operation action w = Some (r, w')"
  shows "\<exists>w1 q. action w1 = (q, w') \<and>
     (case r of
        Ok a \<Rightarrow> q = Ok a
      | Panic \<Rightarrow> q = Panic
      | Err e \<Rightarrow> \<exists>e'. q = Err e' \<and> e = WrapError (operation @ '': '' @ error_text e') e'
           \<and> (transport_failure e \<longrightarrow> i2c_now bus w + ioRetryTimeout < i2c_now bus w'))"
  using retry_loop_last [OF assms [unfolded retryIO_def]]
  unfolding last_attempt_def fst_conv snd_conv .

theorem retryIO_last_attempt_witness:
  "\<exists>w1 q. (\<lambda>w :: sim_chip. (Err (ErrorString ''x'') :: unit result, w)) w1 = (q, sim_power_on []) \<and>
     (\<exists>e'. q = Err e' \<and> WrapError ''op: x'' (ErrorString ''x'') = WrapError (''op'' @ '': '' @ error_text e') e')"
proof -
  have "retryIO (sim_bus [1] rev) ''op'' (\<lambda>w. (Err (ErrorString ''x'') :: unit result, w)) (sim_power_on [])
      = Some (Err (WrapError ''op: x'' (ErrorString ''x'')), sim_power_on [])"
    by (simp add: retryIO_def retry_loop.simps isRetryableTransportError_def)
  from retryIO_last_attempt [OF this] show ?thesis by auto
qed

text \<open>C15. The certificate loop on a chip with 256 registers of 128 bytes that announces a
  certificate of \<open>n\<close> bytes: unless a transport error persists for more than two seconds,
  \<^verbatim>\<open>ReadCertificate\<close> returns \<open>n\<close> bytes, and byte \<open>i\<close> is byte \<open>i mod 128\<close> of register
  \<open>(0x31 + i div 128) mod 256\<close>. Up to 26496 bytes these are the certificate registers 0x31 to
  0xff; but every \<open>n\<close> up to 65525 is accepted, and of a longer certificate the bytes from 26496
  on are the contents of register 0 and its successors, no certificate data.\<close>

theorem ReadCertificate_wraps:
  assumes "i2c_clock bus" and "register_file bus addr content selected"
    and "NewDriver (Some bus) addr = Ok d"
    and "\<And>r. length (content r) = 128" and "take 2 (content 0x30) = be16 n" and "1 \<le> n" "n \<le> 65525"
  shows "\<exists>r w'. ReadCertificate d None w = Some (r, w')
     \<and> ((\<exists>cert. r = Ok cert \<and> length cert = n
          \<and> (\<forall>i<n. cert ! i = content (word_of_nat ((0x31 + i div 128) mod 256)) ! (i mod 128))
          \<and> (\<forall>j<128. 26496 + j < n \<longrightarrow> cert ! (26496 + j) = content 0 ! j))
        \<or> (\<exists>e. r = Err e \<and> transport_failure e \<and> i2c_now bus w + ioRetryTimeout < i2c_now bus w'))"
proof -
  let ?cert = "windows_of content n"
  have m: "(word_of_nat (k mod 256) :: byte) = word_of_nat k" for k
    by (simp add: word_of_nat_eq_iff take_bit_eq_mod)
  have c: "?cert ! i = content (word_of_nat (0x31 + i div 128)) ! (i mod 128)" if "i < n" for i
    using that by (simp add: windows_of_def)
  moreover have "?cert ! (26496 + j) = content 0 ! j" if "j < 128" "26496 + j < n" for j
  proof -
    have "26496 + j = j + 128 * 207" by simp
    then have "(26496 + j) div 128 = 207" "(26496 + j) mod 128 = j"
      using that(1) by (simp_all only: div_mult_self2 mod_mult_self2) simp_all
    moreover have "(word_of_nat (0x31 + 207) :: byte) = 0" using m [of "0x31 + 207"] by simp
    ultimately show ?thesis using c [OF that(2)] by (simp only:)
  qed
  moreover have "length ?cert = n" by (simp add: windows_of_def)
  ultimately have ok: "length ?cert = n
      \<and> (\<forall>i<n. ?cert ! i = content (word_of_nat ((0x31 + i div 128) mod 256)) ! (i mod 128))
      \<and> (\<forall>j<128. 26496 + j < n \<longrightarrow> ?cert ! (26496 + j) = content 0 ! j)"
    unfolding m by blast
  have "drv_transport d = bus" "drv_address7Bit d = addr"
    using assms(3) by (auto simp: NewDriver_def split: if_splits)
  from i2c_clock.ReadCertificate_file [OF assms(1,2) this assms(4-7), of w] ok
  show ?thesis unfolding settles_def by blast
qed

text \<open>A register file: register \<open>r\<close> holds 128 times the byte \<open>r\<close>, but register 0x30 starts with
  the length 30000.\<close>

definition rom_content :: "byte \<Rightarrow> byte list" where
  "rom_content r = (if r = 0x30 then be16 30000 @ replicate 126 0 else replicate 128 r)"

definition rom_bus :: "(byte \<times> int) i2c" where
  "rom_bus = \<lparr>i2c_Transaction = (\<lambda>a wd n (s, now). case wd of
       [] \<Rightarrow> (Ok (take (nat n) (rom_content s)), (s, now + 1))
     | r # _ \<Rightarrow> (Ok [], (r, now + 1))),
     i2c_now = snd, i2c_sleep = (\<lambda>t (s, now). (s, now + max t 0))\<rparr>"

interpretation rom: i2c_clock rom_bus
  by unfold_locales (auto simp: rom_bus_def split: list.splits)

theorem ReadCertificate_wraps_witness:
  "\<exists>r w'. ReadCertificate \<lparr>drv_transport = rom_bus, drv_address7Bit = 0x11\<rparr> None (0, 0) = Some (r, w')
     \<and> ((\<exists>cert. r = Ok cert \<and> length cert = 30000 \<and> cert ! 26496 = 0)
        \<or> (\<exists>e. r = Err e \<and> transport_failure e \<and> i2c_now rom_bus (0, 0) + ioRetryTimeout < i2c_now rom_bus w'))"
proof -
  have "register_file rom_bus 0x11 rom_content fst"
    by (auto simp: register_file_def rom_bus_def)
  moreover have "length (rom_content r) = 128" for r by (simp add: rom_content_def be16_def)
  moreover have "take 2 (rom_content 0x30) = be16 30000" by (simp add: rom_content_def be16_def)
  moreover have "rom_content 0 ! 0 = 0" by (simp add: rom_content_def)
  ultimately show ?thesis
    using ReadCertificate_wraps [OF rom.i2c_clock_axioms, of "0x11" rom_content fst
        "\<lparr>drv_transport = rom_bus, drv_address7Bit = 0x11\<rparr>" 30000 "(0, 0)"]
    by (fastforce simp: NewDriver_def)
qed

end
