(* ===== verification/Stack.thy ===== *)
theory Stack
  imports Ch341Props ChipProps
begin

text \<open>
  The driver on the CH341 transport, as cmd/remote-mfi-for-xcertplay/main.go puts them together.
  The transport model of \<open>Ch341\<close> provides the interface \<open>i2c_clock\<close> that the driver theory relies
  on, so every driver call on the real transport returns.
\<close>

section \<open>The transport as an I2C bus\<close>

definition ch341_i2c :: "'u gousb \<Rightarrow> 'u ch341 i2c" where
  "ch341_i2c g = \<lparr>i2c_Transaction = Transaction g, i2c_now = t_clock, i2c_sleep = ch341_sleep g\<rparr>"

lemma ch341_i2c_simps [simp]:
  "i2c_Transaction (ch341_i2c g) = Transaction g"
  "i2c_now (ch341_i2c g) = t_clock"
  "i2c_sleep (ch341_i2c g) = ch341_sleep g"
  by (simp_all add: ch341_i2c_def)

lemma currentSession_clock: "currentSession g t = (r, t') \<Longrightarrow> t_extends t t'"
  by (cases "t_session t")
     (auto simp: currentSession_def ensureSessionLocked_def split: if_splits dest: ensure_loop_extends)

lemma Transaction_clock:
  assumes "Transaction g a w n t = (r, t')"
  shows "t_extends t t'"
  using assms
proof (cases rule: Transaction_cases)
  case (ran stream s t1 t2)
  have "t_extends t t2"
    using currentSession_clock [OF ran(2)] t_quiet_extends [OF execute_quiet [OF ran(3)]]
    by (rule t_extends_trans)
  then show ?thesis
    using ran(4) invalidateSession_extends [of t2 g s]
    by (auto intro: t_extends_trans split: result.splits if_splits)
qed (auto dest: currentSession_clock)

interpretation ch341_bus: i2c_clock "ch341_i2c g" for g :: "'u gousb"
proof unfold_locales
  fix w :: "'u ch341" and a wd n
  show "i2c_now (ch341_i2c g) w \<le> i2c_now (ch341_i2c g) (snd (i2c_Transaction (ch341_i2c g) a wd n w))"
    using Transaction_clock [of g a wd n w] by (cases "Transaction g a wd n w") (auto simp: t_extends_def)
qed (simp add: ch341_sleep_clock)

section \<open>Errors of the transport\<close>

text \<open>A closed set of errors: what the CH341 transport reports is always a \<^verbatim>\<open>*transport.Error\<close>.\<close>

lemma transport_failure_simps [simp]:
  "transport_failure (TransportError k op c)"
  "transport_failure (protocol_error op msg)"
  "transport_failure (classifyUSBError op e)"
  "transport_failure closed_error"
  by (simp_all add: transport_failure_def protocol_error_def classifyUSBError_def closed_error_def)

lemma openSession_error: "openSession g d i t = (Inl e, t') \<Longrightarrow> transport_failure e"
  by (auto simp: openSession_def split: option.splits prod.splits sum.splits)

lemma ensure_loop_error:
  "ensure_loop g ids le t = (Inl e, t') \<Longrightarrow> (\<And>x. le = Some x \<Longrightarrow> transport_failure x) \<Longrightarrow>
     transport_failure e"
proof (induction ids arbitrary: le t)
  case Nil
  then show ?case by (auto split: option.splits)
next
  case (Cons i ids)
  obtain o1 t1 where o1: "usb_call (g_OpenDeviceWithVIDPID g (Vendor i) (Product i)) t = (o1, t1)"
    by fastforce
  show ?case
  proof (cases "\<exists>d. o1 = (Some d, None)")
    case False
    then show ?thesis
      using Cons.prems o1
      by (cases o1) (auto split: option.splits intro: Cons.IH)
  next
    case True
    then obtain d where d: "o1 = (Some d, None)" by blast
    obtain s2 t2 where s2: "openSession g d (USBID_String i) t1 = (s2, t2)" by fastforce
    show ?thesis
    proof (cases s2)
      case (Inl x)
      with Cons.prems(1) o1 d s2
      have "ensure_loop g ids (Some x) (snd (usb_call (g_DeviceClose g (dev_id d)) t2)) = (Inl e, t')"
        by simp
      then show ?thesis by (rule Cons.IH) (use s2 Inl openSession_error in auto)
    qed (use Cons.prems(1) o1 d s2 in auto)
  qed
qed

lemma currentSession_error: "currentSession g t = (Inl e, t') \<Longrightarrow> transport_failure e"
  by (auto simp: currentSession_def ensureSessionLocked_def split: if_splits option.splits
      dest: ensure_loop_error)

lemma bulkWrite_error: "bulkWrite g ep data timeout t = (Some e, t') \<Longrightarrow> transport_failure e"
  by (auto simp: bulkWrite_def split: prod.splits sum.splits if_splits)

lemma bulk_read_loop_error:
  "bulk_read_loop g ep ps mx fst_to quiet ae data t = (Err e, t') \<Longrightarrow> transport_failure e"
proof (induction g ep ps mx fst_to quiet ae data t rule: bulk_read_loop.induct)
  case (1 g ep ps mx fst_to quiet ae data t)
  let ?size = "min (mx - length data) ps"
  let ?to = "if length data = 0 then fst_to else quiet"
  obtain rd t1 where c: "usb_call (g_ReadContext g ep ?to ?size) t = (rd, t1)" by fastforce
  show ?case
  proof (cases "length data < mx \<and> (\<exists>got. rd = Inr got \<and> length got \<noteq> 0 \<and> \<not> length got > ?size)")
    case True
    then obtain got where got: "rd = Inr got" "length got \<noteq> 0" "\<not> length got > ?size"
      "length data < mx" by blast
    then have "bulk_read_loop g ep ps mx fst_to quiet ae (data @ got) t1 = (Err e, t')"
      using 1(2) c by (simp add: bulk_read_loop.simps [of g ep ps mx fst_to quiet ae data t])
    then show ?thesis
      using 1(1) [OF got(4) refl refl c [symmetric] got(1)] got(2,3) by blast
  next
    case False
    then show ?thesis using 1(2) c
      by (auto simp: bulk_read_loop.simps [of g ep ps mx fst_to quiet ae data t] Let_def
          split: if_splits sum.splits)
  qed
qed

lemma checkStatusBytes_error: "checkStatusBytes st = Some e \<Longrightarrow> transport_failure e"
proof -
  have "csb_loop k st = Some e \<Longrightarrow> transport_failure e" for k
    by (induction st arbitrary: k) (auto split: if_splits)
  then show "checkStatusBytes st = Some e \<Longrightarrow> transport_failure e"
    by (simp add: checkStatusBytes_def)
qed

lemma instructionLengths_error: "instructionLengths seg = Err e \<Longrightarrow> transport_failure e"
  by (auto dest: instructionLengths_Err)

lemma exec_loop_error: "exec_loop g s timeout segs resp t = (Err e, t') \<Longrightarrow> transport_failure e"
proof (induction segs arbitrary: resp t)
  case Nil
  then show ?case by simp
next
  case (Cons seg segs)
  obtain w t1 where w: "bulkWrite g (ses_output s) seg timeout t = (w, t1)" by fastforce
  show ?case
  proof (cases "\<exists>a b. w = None \<and> instructionLengths seg = Ok (a, b) \<and> a + b > 0")
    case False
    with Cons w show ?thesis
      by (auto split: option.splits result.splits dest: bulkWrite_error instructionLengths_error)
  next
    case True
    then obtain a b where ab: "w = None" "instructionLengths seg = Ok (a, b)" "a + b > 0" by blast
    obtain rd t2 where rd: "bulkReadAtMost g (ses_input s) (nat (a + b))
        (if b > 0 then timeout else responseQuietTimeout) responseQuietTimeout (b = 0) t1
        = (rd, t2)" by fastforce
    show ?thesis
      using Cons.prems ab w rd
      by (auto simp: Let_def bulkReadAtMost_def split: result.splits if_splits option.splits
          dest: Cons.IH bulk_read_loop_error checkStatusBytes_error)
  qed
qed

lemma execute_error:
  assumes "execute g s stream wl n t = (Err e, t')" and "speed_command (t_speed t) = Ok c"
  shows "transport_failure e"
  using assms
  by (auto simp: execute_def encodeConfiguration_def Let_def
      split: result.splits prod.splits option.splits if_splits dest: bulkWrite_error exec_loop_error)

definition speed_ok :: "'u ch341 \<Rightarrow> bool" where
  "speed_ok t \<longleftrightarrow> (\<exists>c. speed_command (t_speed t) = Ok c)"

lemma Close_speed: "Close g t = (e, t') \<Longrightarrow> t_speed t' = t_speed t"
  by (auto simp: Close_def Let_def t_quiet_def t_extends_def split: if_splits option.splits prod.splits
      dest!: usb_call_quietD session_close_quiet)

lemma ch341_reach_speed: "ch341_reach g t \<Longrightarrow> speed_ok t"
proof (induction rule: ch341_reach.induct)
  case (reach_new ids speed now u t)
  then show ?case by (auto simp: speed_ok_def dest: NewCh341_Ok)
next
  case (reach_step t t')
  have "t_speed t' = t_speed t"
    using reach_step.hyps(2) ch341_reach_wf [OF reach_step.hyps(1)]
  proof cases
    case (step_transaction a w n r)
    then show ?thesis by (auto simp: t_extends_def dest: Transaction_clock)
  next
    case (step_inspect b st)
    then show ?thesis
      using ch341_reach_wf [OF reach_step.hyps(1)]
      by (auto simp: t_extends_def dest: InspectUSB_extends)
  next
    case (step_close e)
    then show ?thesis by (auto dest: Close_speed)
  next
    case (step_sleep d)
    then show ?thesis using ch341_sleep_quiet [of t g d] by (auto simp: t_quiet_def t_extends_def)
  qed
  with reach_step.IH show ?case by (simp add: speed_ok_def)
qed

lemma Transaction_error:
  assumes "Transaction g a w n t = (Err e, t')" and "speed_ok t"
  shows "transport_failure e"
  using assms(1)
proof (cases rule: Transaction_cases)
  case (invalid e')
  then show ?thesis by (simp add: transport_failure_def transport_IsKind_def)
next
  case (nosession e')
  then show ?thesis by (auto dest: currentSession_error)
next
  case (ran stream s t1 t2)
  have "t_speed t1 = t_speed t" using currentSession_clock [OF ran(2)] by (simp add: t_extends_def)
  then show ?thesis using assms(2) ran(3) by (auto simp: speed_ok_def dest: execute_error)
qed

section \<open>Inspection\<close>

text \<open>An attempt to open a session ends in a session for one of the configured identities, or in a
  \<^verbatim>\<open>*transport.Error\<close>.\<close>

lemma openSession_fails: "openSession g d i t = (Inl e, t') \<Longrightarrow> \<exists>k op c. e = TransportError k op c"
  by (auto simp: openSession_def protocol_error_def classifyUSBError_def
      split: option.splits prod.splits sum.splits)

lemma ensure_loop_outcome:
  "ensure_loop g ids le t = (r, t') \<Longrightarrow> (\<And>x. le = Some x \<Longrightarrow> \<exists>k op c. x = TransportError k op c) \<Longrightarrow>
     case r of Inl e \<Rightarrow> \<exists>k op c. e = TransportError k op c
             | Inr s \<Rightarrow> \<exists>i \<in> set ids. ses_identity s = USBID_String i"
proof (induction ids arbitrary: le t)
  case Nil
  then show ?case by (auto split: option.splits)
next
  case (Cons i ids)
  obtain o1 t1 where o1: "usb_call (g_OpenDeviceWithVIDPID g (Vendor i) (Product i)) t = (o1, t1)"
    by fastforce
  have next_id: "?case" if "ensure_loop g ids le' t2 = (r, t')" "\<And>x. le' = Some x \<Longrightarrow> \<exists>k op c. x = TransportError k op c"
    for le' t2
    using Cons.IH [OF that] by (auto split: sum.splits)
  show ?case
  proof (cases "\<exists>d. o1 = (Some d, None)")
    case False
    obtain dev err where oe: "o1 = (dev, err)" by fastforce
    show ?thesis
    proof (cases err)
      case (Some e)
      with oe Cons.prems(1) o1 show ?thesis
        by (intro next_id [of "Some (classifyUSBError (''open CH341 '' @ USBID_String i) e)" t1])
           (auto simp: classifyUSBError_def split: option.splits)
    next
      case None
      with oe False Cons.prems o1 show ?thesis by (intro next_id [of le t1]) (auto split: option.splits)
    qed
  next
    case True
    then obtain d where d: "o1 = (Some d, None)" by blast
    obtain s2 t2 where s2: "openSession g d (USBID_String i) t1 = (s2, t2)" by fastforce
    show ?thesis
    proof (cases s2)
      case (Inl x)
      with Cons.prems(1) o1 d s2
      have "ensure_loop g ids (Some x) (snd (usb_call (g_DeviceClose g (dev_id d)) t2)) = (r, t')"
        by simp
      then show ?thesis by (rule next_id) (use s2 Inl openSession_fails in auto)
    qed (use Cons.prems(1) o1 d s2 openSession_extends [OF s2] in auto)
  qed
qed

text \<open>The session of the transport belongs to a configured identity.\<close>

definition configured :: "'u ch341 \<Rightarrow> bool" where
  "configured t \<longleftrightarrow> (\<forall>s. t_session t = Some s \<longrightarrow> (\<exists>i \<in> set (t_usbIDs t). ses_identity s = USBID_String i))"

lemma configured_drops:
  "configured t \<Longrightarrow> t_extends t t' \<Longrightarrow> t_session t' = t_session t \<or> t_session t' = None \<Longrightarrow> configured t'"
  by (auto simp: configured_def t_extends_def)

lemma ensureSessionLocked_configured:
  assumes "ensureSessionLocked g t = (r, t')" and "configured t"
  shows "configured t' \<and> (case r of Inl e \<Rightarrow> \<exists>k op c. e = TransportError k op c
     | Inr s \<Rightarrow> t_session t' = Some s \<and> (\<exists>i \<in> set (t_usbIDs t). ses_identity s = USBID_String i))"
proof (cases "t_session t")
  case None
  with assms(1) have e: "ensure_loop g (t_usbIDs t) None t = (r, t')" by (simp add: ensureSessionLocked_def)
  from ensure_loop_outcome [OF e] ensure_loop_extends [OF e None] show ?thesis
    by (auto simp: configured_def t_extends_def split: sum.splits)
next
  case (Some s)
  with assms show ?thesis by (auto simp: ensureSessionLocked_def configured_def)
qed

lemma currentSession_configured: "currentSession g t = (r, t') \<Longrightarrow> configured t \<Longrightarrow> configured t'"
  by (auto simp: currentSession_def split: if_splits dest: ensureSessionLocked_configured)

lemma Transaction_configured:
  assumes "Transaction g a w n t = (r, t')" and "configured t"
  shows "configured t'"
  using assms(1)
proof (cases rule: Transaction_cases)
  case (ran stream s t1 t2)
  have "configured t2"
    using configured_drops [OF currentSession_configured [OF ran(2) assms(2)]] execute_quiet [OF ran(3)]
    by (simp add: t_quiet_def)
  then have "configured (invalidateSession g s t2)"
    by (rule configured_drops) (use invalidateSession_extends [of t2 g s] in \<open>auto split: option.splits\<close>)
  with \<open>configured t2\<close> ran(4) show ?thesis by (auto split: result.splits if_splits)
qed (use assms(2) in \<open>auto dest: currentSession_configured\<close>)

lemma enumerateUSB_configured: "enumerateUSB g b t = (r, t') \<Longrightarrow> configured t \<Longrightarrow> configured t'"
  by (rule configured_drops) (auto simp: t_quiet_def dest: enumerateUSB_quiet)

lemma InspectUSB_configured:
  assumes "InspectUSB g b t = (st, t')" and "configured t"
  shows "configured t'"
proof -
  obtain ds c t1 where e: "enumerateUSB g b t = ((ds, c), t1)" by (metis prod.exhaust)
  from enumerateUSB_configured [OF this assms(2)] assms(1) e show ?thesis
    by (auto simp: InspectUSB_def split: if_splits sum.splits prod.splits
        dest: ensureSessionLocked_configured)
qed

lemma ch341_reach_configured: "ch341_reach g t \<Longrightarrow> configured t"
proof (induction rule: ch341_reach.induct)
  case (reach_new ids speed now u t)
  then show ?case by (auto simp: configured_def dest: NewCh341_Ok)
next
  case (reach_step t t')
  from reach_step.hyps(2) reach_step.IH show ?case
  proof cases
    case (step_close e)
    then show ?thesis
      using Close_state [OF _ ch341_reach_wf [OF reach_step.hyps(1)]] by (auto simp: configured_def)
  next
    case (step_sleep d)
    then show ?thesis
      using configured_drops [OF reach_step.IH] ch341_sleep_quiet [of t g d] by (simp add: t_quiet_def)
  qed (auto dest: Transaction_configured InspectUSB_configured)
qed

section \<open>Properties\<close>

text \<open>Every error of a transaction on a transport that the program has set up is a
  \<^verbatim>\<open>*transport.Error\<close>, so the driver's retry loop takes it as retryable.\<close>

theorem Transaction_errors_retryable:
  assumes "ch341_reach g t" and "Transaction g address7Bit writeData readLength t = (Err e, t')"
  shows "isRetryableTransportError e"
  using Transaction_error [OF assms(2) ch341_reach_speed [OF assms(1)]]
  by (simp add: transport_failure_def isRetryableTransportError_def)

theorem Transaction_errors_retryable_witness:
  "isRetryableTransportError (invalid_request ''I2C address must be a 7-bit value'')"
proof (rule Transaction_errors_retryable [OF sim_open_reach])
  show "Transaction sim_gousb 0x80 [1] 0 sim_open
      = (Err (invalid_request ''I2C address must be a 7-bit value''), sim_open)"
    by (simp add: Transaction_def encodeTransaction_def)
qed

text \<open>The driver on the CH341 transport returns from every operation, whatever the USB device
  and the coprocessor do, and never panics if the USB library respects the reader contract.\<close>

theorem driver_on_ch341_returns:
  assumes "NewDriver (Some (ch341_i2c g)) address7Bit = Ok d"
  shows "(\<exists>r t'. ProtocolMajor d ctxErr t = Some (r, t') \<and> (reads_fit g \<longrightarrow> r \<noteq> Panic))
     \<and> (\<exists>r t'. ReadCertificate d ctxErr t = Some (r, t') \<and> (reads_fit g \<longrightarrow> r \<noteq> Panic))
     \<and> (\<exists>r t'. SignChallenge d ctxErr ch t = Some (r, t') \<and> (reads_fit g \<longrightarrow> r \<noteq> Panic))"
proof -
  have d: "drv_transport d = ch341_i2c g" using assms by (auto simp: NewDriver_def split: if_splits)
  have safe: "reads_fit g \<Longrightarrow> bus_safe (ch341_i2c g)"
    by (simp add: bus_safe_def Transaction_never_panics)
  show ?thesis
    using lands_outcome [OF ch341_bus.ProtocolMajor_lands [OF d, of t ctxErr]]
      lands_outcome [OF ch341_bus.ReadCertificate_lands [OF d, of t ctxErr]]
      lands_outcome [OF ch341_bus.SignChallenge_lands [OF d, of t ctxErr ch]] safe
    by blast
qed

theorem driver_on_ch341_returns_witness:
  "\<exists>r t'. SignChallenge \<lparr>drv_transport = ch341_i2c sim_gousb, drv_address7Bit = 0x11\<rparr> None [1, 2] sim_start
     = Some (r, t')"
  using driver_on_ch341_returns [of sim_gousb "0x11"
      "\<lparr>drv_transport = ch341_i2c sim_gousb, drv_address7Bit = 0x11\<rparr>" None sim_start "[1, 2]"]
  by (auto simp: NewDriver_def)

text \<open>C17. The status of an inspection is right in every reachable state: the state is \<^verbatim>\<open>missing\<close> exactly
  if no visited device has a configured identity, \<^verbatim>\<open>ready\<close> exactly if one has and the transport ends
  up with a session, whose identity, one of the configured ones, is reported, and otherwise \<^verbatim>\<open>error\<close>;
  anything but \<^verbatim>\<open>ready\<close> has a reason and no identity; a closed transport is never \<^verbatim>\<open>ready\<close>; and an
  inspection never drops or replaces an open session.\<close>

theorem InspectUSB_status:
  assumes "ch341_reach g t" and "InspectUSB g includeDeviceStrings t = (status, t')"
    and "enumerateUSB g includeDeviceStrings t = ((devices, candidateFound), t1)"
  shows "us_Devices status = devices
     \<and> us_State status = (if \<not> candidateFound then ''missing''
          else if t_session t' = None then ''error'' else ''ready'')
     \<and> (if us_State status = ''ready''
         then (\<exists>s i. t_session t' = Some s \<and> i \<in> set (t_usbIDs t) \<and> ses_identity s = USBID_String i
                 \<and> us_VIDPID status = USBID_String i) \<and> us_Reason status = []
         else us_VIDPID status = [] \<and> us_Reason status \<noteq> [])
     \<and> (t_closed t \<longrightarrow> us_State status \<noteq> ''ready'')
     \<and> (t_session t = None \<or> t_session t' = t_session t)"
proof -
  have q: "t_quiet t t1" by (rule enumerateUSB_quiet [OF assms(3)])
  have cf: "configured t1" by (rule enumerateUSB_configured [OF assms(3) ch341_reach_configured [OF assms(1)]])
  have wf: "ch341_wf t1" by (rule t_quiet_wf [OF q ch341_reach_wf [OF assms(1)]])
  obtain s2 t2 where s2: "ensureSessionLocked g t1 = (s2, t2)" by fastforce
  note C = ensureSessionLocked_configured [OF s2 cf] and X = ensureSessionLocked_extends [OF s2 wf]
  have keep: "t_session t1 = Some s \<Longrightarrow> t2 = t1" for s using s2 by (simp add: ensureSessionLocked_def)
  have same: "t_session t1 = t_session t" "t_closed t1 = t_closed t" "t_usbIDs t1 = t_usbIDs t"
    using q by (simp_all add: t_quiet_def t_extends_def)
  consider "\<not> candidateFound" | "candidateFound" "t_closed t1" | "candidateFound" "\<not> t_closed t1" by blast
  then show ?thesis
  proof cases
    case 3
    show ?thesis
    proof (cases s2)
      case (Inl e)
      then have e: "error_text e \<noteq> []" using C by auto
      have n: "t_session t2 = None" using X 3 Inl by simp
      then have "t_session t = None" using keep same(1) by (metis not_None_eq)
      with 3 Inl e n assms(2,3) s2 show ?thesis by (auto simp: InspectUSB_def)
    next
      case (Inr s)
      have "t_session t = None \<or> t_session t2 = t_session t"
        using keep same(1) by (metis not_None_eq)
      with 3 Inr C assms(2,3) s2 same show ?thesis by (auto simp: InspectUSB_def)
    qed
  next
    case 2
    then have "t_session t1 = None" using wf by (auto simp: ch341_wf_def)
    with 2 assms(2,3) same show ?thesis by (auto simp: InspectUSB_def)
  qed (use assms(2,3) same in \<open>auto simp: InspectUSB_def\<close>)
qed

theorem InspectUSB_status_witness:
  "us_State (fst (InspectUSB sim_gousb False sim_start)) = ''ready''
   \<and> us_VIDPID (fst (InspectUSB sim_gousb False sim_start))
       = USBID_String \<lparr>Vendor = 0x1a86, Product = 0x5512\<rparr>"
proof -
  obtain ds where e: "enumerateUSB sim_gousb False sim_start = ((ds, True), sim_start)"
    using sim_enumerate by blast
  have r: "ch341_reach sim_gousb sim_start" by (rule reach_new [OF sim_start_new])
  have s: "t_session (snd (InspectUSB sim_gousb False sim_start)) \<noteq> None"
    using sim_open_eq by (simp add: sim_open_def)
  from InspectUSB_status [OF r prod.collapse [symmetric] e] s show ?thesis
    by (auto simp: sim_start_def)
qed

end
