(* ===== verification/SigCache.thy ===== *)
theory SigCache
  imports Digest "HOL-Library.AList"
begin

text \<open>
  The signature cache of internal/biz/service.go. The locale \<open>expiring_cache\<close> states what the
  service relies on: a lookup answers with the last stored entry until its expiry time, and a
  lookup changes nothing that a later lookup could see. The cache of the program, an association
  list for the Go map, is an interpretation of it.
\<close>

section \<open>Cache\<close>

record signatureEntry =
  se_challengeDigest :: "byte list"
  se_signature :: "byte list"
  se_expiresAt :: int

record signatureCache =
  sc_ttl :: int
  sc_entries :: "(string \<times> signatureEntry) list"

definition cacheTTL :: int where [mfi_consts]: "cacheTTL = 60 * 1000000000"

definition newSignatureCache :: "int \<Rightarrow> signatureCache" where
  "newSignatureCache ttl = \<lparr>sc_ttl = ttl, sc_entries = []\<rparr>"

definition cache_get ::
  "int \<Rightarrow> string \<Rightarrow> signatureCache \<Rightarrow> signatureEntry option \<times> signatureCache" where
  "cache_get now requestID c =
     (case map_of (sc_entries c) requestID of
        None \<Rightarrow> (None, c)
      | Some entry \<Rightarrow>
          if now > se_expiresAt entry
          then (None, c\<lparr>sc_entries := AList.delete requestID (sc_entries c)\<rparr>)
          else (Some entry, c))"

definition cache_put :: "string \<Rightarrow> signatureEntry \<Rightarrow> signatureCache \<Rightarrow> signatureCache" where
  "cache_put requestID entry c = c\<lparr>sc_entries := AList.update requestID entry (sc_entries c)\<rparr>"

definition cache_len :: "signatureCache \<Rightarrow> nat" where
  "cache_len c = length (sc_entries c)"

section \<open>Interface\<close>

locale expiring_cache =
  fixes get :: "int \<Rightarrow> 'k \<Rightarrow> 'c \<Rightarrow> 'v option \<times> 'c"
    and put :: "'k \<Rightarrow> 'v \<Rightarrow> 'c \<Rightarrow> 'c"
    and stored :: "'c \<Rightarrow> 'k \<Rightarrow> 'v option"
    and expires :: "'v \<Rightarrow> int"
  assumes get_value: "fst (get now k c) =
      (case stored c k of None \<Rightarrow> None | Some v \<Rightarrow> if now > expires v then None else Some v)"
    and get_stored: "stored (snd (get now k c)) k' =
      (if k' = k \<and> fst (get now k c) = None then None else stored c k')"
    and put_stored: "stored (put k v c) k' = (if k' = k then Some v else stored c k')"
begin

text \<open>What a lookup at time \<open>now\<close> would answer.\<close>

definition live :: "int \<Rightarrow> 'c \<Rightarrow> 'k \<Rightarrow> 'v option" where
  "live now c k = fst (get now k c)"

lemma live_alt: "live now c k =
    (case stored c k of None \<Rightarrow> None | Some v \<Rightarrow> if now > expires v then None else Some v)"
  by (simp add: live_def get_value)

lemma live_after_get: "now \<le> now' \<Longrightarrow> live now' (snd (get now k c)) k' = live now' c k'"
  by (auto simp: live_alt get_stored get_value split: option.splits if_splits)

lemma live_after_put: "live now (put k v c) k' =
    (if k' = k then if now > expires v then None else Some v else live now c k')"
  by (simp add: live_alt put_stored)

lemma live_until_expiry: "live now c k = Some v \<Longrightarrow> now \<le> now' \<Longrightarrow> now' \<le> expires v \<Longrightarrow> live now' c k = Some v"
  by (auto simp: live_alt split: option.splits if_splits)

lemma live_expires: "live now c k = Some v \<Longrightarrow> now \<le> expires v"
  by (auto simp: live_alt split: option.splits if_splits)

lemma stored_after_get: "stored (snd (get now k c)) k' = Some v \<Longrightarrow> stored c k' = Some v"
  by (simp add: get_stored split: if_splits)

lemma dropped_by_get:
  "stored c k' = Some v \<Longrightarrow> stored (snd (get now k c)) k' = None \<Longrightarrow> expires v < now"
  by (auto simp: get_stored get_value split: if_splits option.splits)

lemma hit_stored: "fst (get now k c) = Some v \<Longrightarrow> stored c k = Some v \<and> now \<le> expires v"
  by (auto simp: get_value split: option.splits if_splits)

lemma miss_expired: "fst (get now k c) = None \<Longrightarrow> stored c k = Some v \<Longrightarrow> expires v < now"
  by (auto simp: get_value split: option.splits if_splits)

end

definition cache_stored :: "signatureCache \<Rightarrow> string \<Rightarrow> signatureEntry option" where
  "cache_stored c = map_of (sc_entries c)"

interpretation sigcache: expiring_cache cache_get cache_put cache_stored se_expiresAt
proof unfold_locales
  fix now k c k' v
  show "fst (cache_get now k c) = (case cache_stored c k of None \<Rightarrow> None
      | Some v \<Rightarrow> if now > se_expiresAt v then None else Some v)"
    by (simp add: cache_get_def cache_stored_def split: option.splits)
  show "cache_stored (snd (cache_get now k c)) k'
      = (if k' = k \<and> fst (cache_get now k c) = None then None else cache_stored c k')"
    by (auto simp: cache_get_def cache_stored_def delete_conv' split: option.splits)
  show "cache_stored (cache_put k v c) k' = (if k' = k then Some v else cache_stored c k')"
    by (simp add: cache_put_def cache_stored_def update_conv')
qed

section \<open>Well-formedness\<close>

text \<open>The association list represents a Go map: one entry per key, so its length is the number of
  keys.\<close>

definition cache_wf :: "signatureCache \<Rightarrow> bool" where
  "cache_wf c \<longleftrightarrow> distinct (map fst (sc_entries c))"

lemma cache_wf_new [simp]: "cache_wf (newSignatureCache ttl)"
  by (simp add: cache_wf_def newSignatureCache_def)

lemma cache_wf_get: "cache_wf c \<Longrightarrow> cache_wf (snd (cache_get now k c))"
  by (auto simp: cache_wf_def cache_get_def distinct_delete split: option.splits)

lemma cache_wf_put: "cache_wf c \<Longrightarrow> cache_wf (cache_put k v c)"
  by (simp add: cache_wf_def cache_put_def distinct_update)

lemma cache_len_card: "cache_wf c \<Longrightarrow> cache_len c = card (dom (cache_stored c))"
  using distinct_card [of "map fst (sc_entries c)"]
  by (simp add: cache_wf_def cache_len_def cache_stored_def dom_map_of_conv_image_fst)

section \<open>Properties\<close>

text \<open>The cache answers a request id with the entry stored last, exactly until its expiry time
  has passed; a lookup of any id in between does not matter, and no entry of another id is
  touched.\<close>

theorem cache_lookup_after_put:
  assumes "earlier \<le> now"
  shows "fst (cache_get now k' (snd (cache_get earlier k2 (cache_put k entry c)))) =
     (if k' = k then if now > se_expiresAt entry then None else Some entry
      else fst (cache_get now k' c))"
  using sigcache.live_after_get [OF assms, of k2 "cache_put k entry c" k']
    sigcache.live_after_put [of now k entry c k']
  by (simp add: sigcache.live_def)

theorem cache_lookup_after_put_witness:
  "fst (cache_get 60 ''a'' (snd (cache_get 5 ''b'' (cache_put ''a''
       \<lparr>se_challengeDigest = [1], se_signature = [2], se_expiresAt = 60\<rparr> (newSignatureCache cacheTTL)))))
     = Some \<lparr>se_challengeDigest = [1], se_signature = [2], se_expiresAt = 60\<rparr>"
  using cache_lookup_after_put [of 5 60 "''a''" "''b''" "''a''"
      "\<lparr>se_challengeDigest = [1], se_signature = [2], se_expiresAt = 60\<rparr>" "newSignatureCache cacheTTL"]
  by simp

end
