(* ===== verification/Service.thy ===== *)
theory Service
  imports Stack SigCache
begin

text \<open>
  The service of internal/biz/service.go: the chip gate, the certificate slot and the idempotent
  signing. A call runs in its own goroutine and touches shared state (the gate, the cache, the
  certificate pointer, the hardware) in several places, so each call is a small program: \<open>pc\<close>
  names the places between two accesses, and \<open>thread_run\<close> runs the code from one place to the
  next. The code between two places is one definition of this theory. Interleavings of many calls
  are the step relation of \<open>ServiceConc\<close>; \<open>run_thread\<close> runs one call alone.

  The chip driver is the interface \<^verbatim>\<open>ChipDriver\<close>, a record of functions over the hardware state
  \<open>'w\<close>; \<^verbatim>\<open>context.WithoutCancel\<close> makes its context argument irrelevant. The UUID parser
  (github.com/google/uuid) is a parameter \<open>uuid_ok\<close>.
\<close>

section \<open>Data\<close>

record 'w chip_driver =
  cd_ProtocolMajor :: "'w \<Rightarrow> (byte result \<times> 'w) option"
  cd_ReadCertificate :: "'w \<Rightarrow> (byte list result \<times> 'w) option"
  cd_SignChallenge :: "byte list \<Rightarrow> 'w \<Rightarrow> (byte list result \<times> 'w) option"
  cd_now :: "'w \<Rightarrow> int"

record Certificate =
  ct_ProtocolMajor :: byte
  ct_Data :: "byte list"
  ct_Base64 :: string
  ct_SHA256Hex :: string
  ct_Cached :: bool
  ct_WaitDuration :: int
  ct_ChipDuration :: int

record SignResult =
  sr_Signature :: "byte list"
  sr_Cached :: bool
  sr_WaitDuration :: int
  sr_ChipDuration :: int

record HealthStatus =
  hs_Chip :: string
  hs_Reason :: string
  hs_VIDPID :: string
  hs_Devices :: "USBDeviceInfo list"

record RuntimeStatus =
  rs_CacheEntries :: nat
  rs_LockHolder :: string
  rs_LockHeld :: int

text \<open>\<open>gt_token\<close>: the one-element channel is full. The zero \<^verbatim>\<open>time.Time\<close> is \<open>None\<close>.\<close>

record chipGate =
  gt_token :: bool
  gt_holder :: string
  gt_acquired :: "int option"

record 'w service =
  sv_gate :: chipGate
  sv_cache :: signatureCache
  sv_certificate :: "Certificate option"
  sv_world :: 'w

definition chipWaitDeadline :: int where [mfi_consts]: "chipWaitDeadline = 8 * 1000000000"

definition newChipGate :: chipGate where
  "newChipGate = \<lparr>gt_token = False, gt_holder = [], gt_acquired = None\<rparr>"

definition NewService ::
  "'w chip_driver option \<Rightarrow> (bool \<Rightarrow> 'w \<Rightarrow> USBStatus \<times> 'w) option \<Rightarrow> 'w \<Rightarrow> 'w service result" where
  "NewService driver inspector w =
     (case driver of
        None \<Rightarrow> Err (ErrorString ''chip driver is required'')
      | Some _ \<Rightarrow>
          (case inspector of
             None \<Rightarrow> Err (ErrorString ''USB inspector is required'')
           | Some _ \<Rightarrow> Ok \<lparr>sv_gate = newChipGate, sv_cache = newSignatureCache cacheTTL,
                          sv_certificate = None, sv_world = w\<rparr>))"

definition sv_now :: "'w chip_driver \<Rightarrow> 'w service \<Rightarrow> int" where
  "sv_now d sv = cd_now d (sv_world sv)"

section \<open>Gate\<close>

text \<open>The first branch of the \<^verbatim>\<open>select\<close> in \<^verbatim>\<open>acquire\<close> is ready when the channel is empty. The source names
  the holder right after taking the token and clears the name right before giving it back, so
  between these two accesses \<^verbatim>\<open>status\<close> may already, or still, report no holder; the model takes each
  pair as one step.\<close>

definition gate_acquire :: "string \<Rightarrow> int \<Rightarrow> chipGate \<Rightarrow> chipGate option" where
  "gate_acquire holder now g =
     (if gt_token g then None
      else Some \<lparr>gt_token = True, gt_holder = holder, gt_acquired = Some now\<rparr>)"

definition gate_release :: "chipGate \<Rightarrow> chipGate" where
  "gate_release g = \<lparr>gt_token = False, gt_holder = [], gt_acquired = None\<rparr>"

text \<open>A holder without acquisition time would report the age of the zero time; the two are set and
  cleared together.\<close>

definition gate_status :: "int \<Rightarrow> chipGate \<Rightarrow> string \<times> int" where
  "gate_status now g =
     (if gt_holder g = [] then ([], 0)
      else (gt_holder g, now - (case gt_acquired g of None \<Rightarrow> 0 | Some t \<Rightarrow> t)))"

section \<open>Errors and cached results\<close>

definition normalizeHardwareError :: "go_error \<Rightarrow> go_error" where
  "normalizeHardwareError err =
     (if transport_IsKind err ErrorDeviceMissing
      then WrapError (sentinel_text ErrChipMissing @ '': '' @ error_text err) (Sentinel ErrChipMissing)
      else err)"

definition cachedResult :: "signatureEntry \<Rightarrow> byte list \<Rightarrow> SignResult result" where
  "cachedResult entry digest =
     (if se_challengeDigest entry \<noteq> digest then Err (Sentinel ErrRequestIDReuse)
      else Ok \<lparr>sr_Signature = se_signature entry, sr_Cached = True, sr_WaitDuration = 0,
               sr_ChipDuration = 0\<rparr>)"

section \<open>Signing\<close>

text \<open>\<open>Some r\<close>: the function returns \<open>r\<close>; \<open>None\<close>: it goes on to the next place.\<close>

definition Sign_lookup ::
  "'w chip_driver \<Rightarrow> string \<Rightarrow> byte list \<Rightarrow> 'w service \<Rightarrow> SignResult result option \<times> 'w service" where
  "Sign_lookup d requestID challenge sv =
     (case cache_get (sv_now d sv) requestID (sv_cache sv) of
        (Some entry, c) \<Rightarrow> (Some (cachedResult entry (sha256_Sum256 challenge)), sv\<lparr>sv_cache := c\<rparr>)
      | (None, c) \<Rightarrow> (None, sv\<lparr>sv_cache := c\<rparr>))"

definition Sign_enter ::
  "'w chip_driver \<Rightarrow> (string \<Rightarrow> bool) \<Rightarrow> string \<Rightarrow> byte list \<Rightarrow> 'w service
     \<Rightarrow> SignResult result option \<times> 'w service" where
  "Sign_enter d uuid_ok requestID challenge sv =
     (if \<not> uuid_ok requestID then (Some (Err (Sentinel ErrRequestIDFormat)), sv)
      else if length challenge < 1 \<or> length challenge > 128
      then (Some (Err (Sentinel ErrChallengeSize)), sv)
      else Sign_lookup d requestID challenge sv)"

definition Sign_store ::
  "'w chip_driver \<Rightarrow> string \<Rightarrow> byte list \<Rightarrow> int \<Rightarrow> int \<Rightarrow> byte list \<Rightarrow> 'w service
     \<Rightarrow> SignResult \<times> 'w service" where
  "Sign_store d requestID challenge waitDuration chipStarted signature sv =
     (let entry = \<lparr>se_challengeDigest = sha256_Sum256 challenge, se_signature = signature,
                   se_expiresAt = sv_now d sv + sc_ttl (sv_cache sv)\<rparr>
      in (\<lparr>sr_Signature = se_signature entry, sr_Cached = False, sr_WaitDuration = waitDuration,
           sr_ChipDuration = sv_now d sv - chipStarted\<rparr>,
          sv\<lparr>sv_cache := cache_put requestID entry (sv_cache sv)\<rparr>))"

section \<open>Certificate\<close>

text \<open>The first look at the stored certificate leaves the wait duration alone, the second, under
  the gate, sets it.\<close>

definition Certificate_load :: "int option \<Rightarrow> 'w service \<Rightarrow> Certificate option" where
  "Certificate_load wait sv =
     (case sv_certificate sv of
        None \<Rightarrow> None
      | Some cached \<Rightarrow>
          Some (case wait of
                  None \<Rightarrow> cached\<lparr>ct_Cached := True\<rparr>
                | Some waitDuration \<Rightarrow> cached\<lparr>ct_Cached := True, ct_WaitDuration := waitDuration\<rparr>))"

definition new_certificate :: "byte \<Rightarrow> byte list \<Rightarrow> Certificate" where
  "new_certificate protocolMajor data =
     \<lparr>ct_ProtocolMajor = protocolMajor, ct_Data = data, ct_Base64 = base64_EncodeToString data,
      ct_SHA256Hex = hex_EncodeToString (sha256_Sum256 data), ct_Cached = False,
      ct_WaitDuration = 0, ct_ChipDuration = 0\<rparr>"

definition Certificate_store ::
  "'w chip_driver \<Rightarrow> int \<Rightarrow> int \<Rightarrow> byte \<Rightarrow> byte list \<Rightarrow> 'w service \<Rightarrow> Certificate \<times> 'w service" where
  "Certificate_store d waitDuration chipStarted protocolMajor data sv =
     (let stored = new_certificate protocolMajor data
      in (stored\<lparr>ct_WaitDuration := waitDuration, ct_ChipDuration := sv_now d sv - chipStarted\<rparr>,
          sv\<lparr>sv_certificate := Some stored\<rparr>))"

section \<open>Calls as threads\<close>

datatype call = CallCertificate | CallSign string "byte list" | CallProbe

datatype reply =
    ReplyCertificate Certificate
  | ReplySign SignResult
  | ReplyProbe byte
  | ReplyError go_error
  | ReplyPanic

fun call_holder :: "call \<Rightarrow> string" where
  "call_holder CallCertificate = ''certificate''"
| "call_holder (CallSign requestID challenge) = requestID"
| "call_holder CallProbe = ''startup-probe''"

fun reply_of :: "('a \<Rightarrow> reply) \<Rightarrow> 'a result \<Rightarrow> reply" where
  "reply_of f (Ok a) = f a"
| "reply_of f (Err e) = ReplyError e"
| "reply_of f Panic = ReplyPanic"

text \<open>The places of a call. From \<open>Holding\<close> to \<open>Releasing\<close> it holds the gate; the deferred
  \<^verbatim>\<open>release()\<close> runs on every way out, a panic included.\<close>

datatype pc =
    Entering call
  | Waiting call int
  | Holding call int
  | Calling call int int
  | ReadingCertificate int int byte
  | StoringCertificate int int byte "byte list"
  | StoringSignature string "byte list" int int "byte list"
  | Releasing reply
  | Returned reply

fun enter :: "'w chip_driver \<Rightarrow> (string \<Rightarrow> bool) \<Rightarrow> call \<Rightarrow> 'w service \<Rightarrow> pc \<times> 'w service" where
  "enter d uuid_ok CallCertificate sv =
     (case Certificate_load None sv of
        Some c \<Rightarrow> (Returned (ReplyCertificate c), sv)
      | None \<Rightarrow> (Waiting CallCertificate (sv_now d sv), sv))"
| "enter d uuid_ok (CallSign requestID challenge) sv =
     (case Sign_enter d uuid_ok requestID challenge sv of
        (Some r, sv1) \<Rightarrow> (Returned (reply_of ReplySign r), sv1)
      | (None, sv1) \<Rightarrow> (Waiting (CallSign requestID challenge) (sv_now d sv1), sv1))"
| "enter d uuid_ok CallProbe sv = (Waiting CallProbe (sv_now d sv), sv)"

text \<open>Under the gate: look again, then start the chip clock.\<close>

fun recheck :: "'w chip_driver \<Rightarrow> call \<Rightarrow> int \<Rightarrow> 'w service \<Rightarrow> pc \<times> 'w service" where
  "recheck d CallCertificate waitDuration sv =
     (case Certificate_load (Some waitDuration) sv of
        Some c \<Rightarrow> (Releasing (ReplyCertificate c), sv)
      | None \<Rightarrow> (Calling CallCertificate waitDuration (sv_now d sv), sv))"
| "recheck d (CallSign requestID challenge) waitDuration sv =
     (case Sign_lookup d requestID challenge sv of
        (Some r, sv1) \<Rightarrow> (Releasing (reply_of ReplySign r), sv1)
      | (None, sv1) \<Rightarrow> (Calling (CallSign requestID challenge) waitDuration (sv_now d sv1), sv1))"
| "recheck d CallProbe waitDuration sv = (Calling CallProbe waitDuration (sv_now d sv), sv)"

text \<open>The calls of the driver; an error goes through \<^verbatim>\<open>normalizeHardwareError\<close>.\<close>

fun hardware_reply :: "('a \<Rightarrow> pc) \<Rightarrow> 'a result \<Rightarrow> pc" where
  "hardware_reply f (Ok a) = f a"
| "hardware_reply f (Err e) = Releasing (ReplyError (normalizeHardwareError e))"
| "hardware_reply f Panic = Releasing ReplyPanic"

definition on_hardware ::
  "('a \<Rightarrow> pc) \<Rightarrow> 'w service \<Rightarrow> ('a result \<times> 'w) option \<Rightarrow> (pc \<times> 'w service) option" where
  "on_hardware f sv m =
     (case m of None \<Rightarrow> None | Some (r, w) \<Rightarrow> Some (hardware_reply f r, sv\<lparr>sv_world := w\<rparr>))"

fun chip_call :: "'w chip_driver \<Rightarrow> call \<Rightarrow> int \<Rightarrow> int \<Rightarrow> 'w service \<Rightarrow> (pc \<times> 'w service) option" where
  "chip_call d CallCertificate waitDuration chipStarted sv =
     on_hardware (ReadingCertificate waitDuration chipStarted) sv (cd_ProtocolMajor d (sv_world sv))"
| "chip_call d (CallSign requestID challenge) waitDuration chipStarted sv =
     on_hardware (StoringSignature requestID challenge waitDuration chipStarted) sv
       (cd_SignChallenge d challenge (sv_world sv))"
| "chip_call d CallProbe waitDuration chipStarted sv =
     on_hardware (\<lambda>v. Releasing (ReplyProbe v)) sv (cd_ProtocolMajor d (sv_world sv))"

text \<open>One step of a call; \<open>None\<close>: it is blocked at the gate, has returned, or the driver does not
  return.\<close>

fun thread_run ::
  "'w chip_driver \<Rightarrow> (string \<Rightarrow> bool) \<Rightarrow> pc \<Rightarrow> 'w service \<Rightarrow> (pc \<times> 'w service) option" where
  "thread_run d uuid_ok (Entering c) sv = Some (enter d uuid_ok c sv)"
| "thread_run d uuid_ok (Waiting c started) sv =
     (case gate_acquire (call_holder c) (sv_now d sv) (sv_gate sv) of
        None \<Rightarrow> None
      | Some g \<Rightarrow> Some (Holding c (sv_now d sv - started), sv\<lparr>sv_gate := g\<rparr>))"
| "thread_run d uuid_ok (Holding c waitDuration) sv = Some (recheck d c waitDuration sv)"
| "thread_run d uuid_ok (Calling c waitDuration chipStarted) sv = chip_call d c waitDuration chipStarted sv"
| "thread_run d uuid_ok (ReadingCertificate waitDuration chipStarted protocolMajor) sv =
     on_hardware (StoringCertificate waitDuration chipStarted protocolMajor) sv
       (cd_ReadCertificate d (sv_world sv))"
| "thread_run d uuid_ok (StoringCertificate waitDuration chipStarted protocolMajor data) sv =
     (let (c, sv1) = Certificate_store d waitDuration chipStarted protocolMajor data sv
      in Some (Releasing (ReplyCertificate c), sv1))"
| "thread_run d uuid_ok (StoringSignature requestID challenge waitDuration chipStarted signature) sv =
     (let (r, sv1) = Sign_store d requestID challenge waitDuration chipStarted signature sv
      in Some (Releasing (ReplySign r), sv1))"
| "thread_run d uuid_ok (Releasing r) sv =
     Some (Returned r, sv\<lparr>sv_gate := gate_release (sv_gate sv)\<rparr>)"
| "thread_run d uuid_ok (Returned r) sv = None"

text \<open>A call on its own: nobody else changes the state between its steps. Eight steps are enough
  for every call, since each step goes forward in the order of the places.\<close>

fun run_thread ::
  "nat \<Rightarrow> 'w chip_driver \<Rightarrow> (string \<Rightarrow> bool) \<Rightarrow> pc \<Rightarrow> 'w service \<Rightarrow> (reply \<times> 'w service) option" where
  "run_thread fuel d uuid_ok (Returned r) sv = Some (r, sv)"
| "run_thread 0 d uuid_ok p sv = None"
| "run_thread (Suc fuel) d uuid_ok p sv =
     (case thread_run d uuid_ok p sv of
        None \<Rightarrow> None
      | Some (p1, sv1) \<Rightarrow> run_thread fuel d uuid_ok p1 sv1)"

definition service_call ::
  "'w chip_driver \<Rightarrow> (string \<Rightarrow> bool) \<Rightarrow> call \<Rightarrow> 'w service \<Rightarrow> (reply \<times> 'w service) option" where
  "service_call d uuid_ok c sv = run_thread 8 d uuid_ok (Entering c) sv"

section \<open>Calls without the gate\<close>

definition Reset :: "'w service \<Rightarrow> unit result \<times> 'w service" where
  "Reset sv = (Ok (), sv)"

definition inspectUSB ::
  "(bool \<Rightarrow> 'w \<Rightarrow> USBStatus \<times> 'w) \<Rightarrow> bool \<Rightarrow> 'w service \<Rightarrow> HealthStatus \<times> 'w service" where
  "inspectUSB inspector includeDeviceStrings sv =
     (let (status, w) = inspector includeDeviceStrings (sv_world sv)
      in (\<lparr>hs_Chip = us_State status, hs_Reason = us_Reason status, hs_VIDPID = us_VIDPID status,
           hs_Devices = us_Devices status\<rparr>, sv\<lparr>sv_world := w\<rparr>))"

definition Health :: "(bool \<Rightarrow> 'w \<Rightarrow> USBStatus \<times> 'w) \<Rightarrow> 'w service \<Rightarrow> HealthStatus \<times> 'w service" where
  "Health inspector sv = inspectUSB inspector False sv"

definition Diagnostics :: "(bool \<Rightarrow> 'w \<Rightarrow> USBStatus \<times> 'w) \<Rightarrow> 'w service \<Rightarrow> HealthStatus \<times> 'w service" where
  "Diagnostics inspector sv = inspectUSB inspector True sv"

definition Runtime :: "'w chip_driver \<Rightarrow> 'w service \<Rightarrow> RuntimeStatus" where
  "Runtime d sv =
     (let (holder, held) = gate_status (sv_now d sv) (sv_gate sv)
      in \<lparr>rs_CacheEntries = cache_len (sv_cache sv), rs_LockHolder = holder, rs_LockHeld = held\<rparr>)"

end
