(* ===== verification/ServiceConc.thy ===== *)
theory ServiceConc
  imports Service
begin

text \<open>
  Many calls of the service at once: every interleaving of the steps of \<open>thread_run\<close>, with
  timeouts and cancellations of waiting calls and with an environment that changes the hardware
  and lets time pass. The state also records, for the statements only, which call a thread
  runs and which signatures the chip has produced.

  The invariant \<open>system_inv\<close> gives mutual exclusion of the gate, at most one chip signature per
  request id and lifetime, and a certificate that never changes once stored.
\<close>

section \<open>Interface to the driver\<close>

text \<open>What the service relies on in \<^verbatim>\<open>ChipDriver\<close>: every call returns, and not before it started.\<close>

definition returns_later :: "('w \<Rightarrow> int) \<Rightarrow> ('w \<Rightarrow> ('a result \<times> 'w) option) \<Rightarrow> bool" where
  "returns_later now f \<longleftrightarrow> (\<forall>w. \<exists>r w'. f w = Some (r, w') \<and> now w \<le> now w')"

locale service_driver =
  fixes d :: "'w chip_driver"
  assumes protocol_major_returns: "returns_later (cd_now d) (cd_ProtocolMajor d)"
    and read_certificate_returns: "returns_later (cd_now d) (cd_ReadCertificate d)"
    and sign_challenge_returns: "returns_later (cd_now d) (cd_SignChallenge d ch)"

section \<open>Systems\<close>

record signing =
  sg_id :: string
  sg_challenge :: "byte list"
  sg_signature :: "byte list"
  sg_started :: int
  sg_expires :: int

record 'w system =
  sy_service :: "'w service"
  sy_threads :: "nat \<Rightarrow> (call \<times> pc) option"
  sy_log :: "signing list"

fun log_of :: "'w chip_driver \<Rightarrow> pc \<Rightarrow> 'w service \<Rightarrow> signing list" where
  "log_of d (StoringSignature requestID challenge waitDuration chipStarted signature) sv =
     [\<lparr>sg_id = requestID, sg_challenge = challenge, sg_signature = signature,
       sg_started = chipStarted, sg_expires = sv_now d sv + sc_ttl (sv_cache sv)\<rparr>]"
| "log_of d p sv = []"

inductive system_step :: "'w chip_driver \<Rightarrow> (string \<Rightarrow> bool) \<Rightarrow> 'w system \<Rightarrow> 'w system \<Rightarrow> bool"
  for d uuid_ok where
  spawn: "sy_threads s i = None \<Longrightarrow>
    system_step d uuid_ok s (s\<lparr>sy_threads := (sy_threads s)(i \<mapsto> (c, Entering c))\<rparr>)"
| run: "sy_threads s i = Some (c, p) \<Longrightarrow> thread_run d uuid_ok p (sy_service s) = Some (p', sv') \<Longrightarrow>
    system_step d uuid_ok s (s\<lparr>sy_service := sv', sy_threads := (sy_threads s)(i \<mapsto> (c, p')),
      sy_log := log_of d p (sy_service s) @ sy_log s\<rparr>)"
| timeout: "sy_threads s i = Some (c, Waiting c' started) \<Longrightarrow>
    started + chipWaitDeadline \<le> sv_now d (sy_service s) \<Longrightarrow>
    system_step d uuid_ok s
      (s\<lparr>sy_threads := (sy_threads s)(i \<mapsto> (c, Returned (ReplyError (Sentinel ErrChipBusy))))\<rparr>)"
| cancel: "sy_threads s i = Some (c, Waiting c' started) \<Longrightarrow>
    e = ContextCanceled \<or> e = ContextDeadlineExceeded \<Longrightarrow>
    system_step d uuid_ok s
      (s\<lparr>sy_threads := (sy_threads s)(i \<mapsto> (c, Returned (ReplyError e)))\<rparr>)"
| environment: "cd_now d (sv_world (sy_service s)) \<le> cd_now d w \<Longrightarrow>
    system_step d uuid_ok s (s\<lparr>sy_service := (sy_service s)\<lparr>sv_world := w\<rparr>\<rparr>)"

definition system_start :: "'w service \<Rightarrow> 'w system" where
  "system_start sv = \<lparr>sy_service = sv, sy_threads = (\<lambda>_. None), sy_log = []\<rparr>"

inductive system_reach :: "'w chip_driver \<Rightarrow> (string \<Rightarrow> bool) \<Rightarrow> 'w system \<Rightarrow> bool" for d uuid_ok where
  start: "NewService (Some d) (Some inspector) w = Ok sv \<Longrightarrow> system_reach d uuid_ok (system_start sv)"
| step: "system_reach d uuid_ok s \<Longrightarrow> system_step d uuid_ok s s' \<Longrightarrow> system_reach d uuid_ok s'"

section \<open>Invariant\<close>

fun in_gate :: "pc \<Rightarrow> bool" where
  "in_gate (Entering c) = False"
| "in_gate (Waiting c started) = False"
| "in_gate (Returned r) = False"
| "in_gate _ = True"

definition gate_at :: "'w system \<Rightarrow> nat \<Rightarrow> bool" where
  "gate_at s i \<longleftrightarrow> (\<exists>c p. sy_threads s i = Some (c, p) \<and> in_gate p)"

definition gate_inv :: "'w system \<Rightarrow> bool" where
  "gate_inv s \<longleftrightarrow> (\<forall>i j. gate_at s i \<longrightarrow> gate_at s j \<longrightarrow> i = j)
     \<and> (gt_token (sv_gate (sy_service s)) \<longleftrightarrow> (\<exists>i. gate_at s i))"

text \<open>The chip produced \<open>signature\<close> for \<open>challenge\<close>.\<close>

definition chip_signed :: "'w chip_driver \<Rightarrow> byte list \<Rightarrow> byte list \<Rightarrow> bool" where
  "chip_signed d challenge signature \<longleftrightarrow>
     (\<exists>w w'. cd_SignChallenge d challenge w = Some (Ok signature, w'))"

lemma chip_signedI: "cd_SignChallenge d challenge w = Some (Ok signature, w') \<Longrightarrow> chip_signed d challenge signature"
  unfolding chip_signed_def by blast

text \<open>No signature for this id is still alive at time \<open>t\<close>.\<close>

definition expired_before :: "signing list \<Rightarrow> string \<Rightarrow> int \<Rightarrow> bool" where
  "expired_before log requestID t \<longleftrightarrow> (\<forall>l \<in> set log. sg_id l = requestID \<longrightarrow> sg_expires l < t)"

definition log_inv :: "'w chip_driver \<Rightarrow> signing list \<Rightarrow> bool" where
  "log_inv d log \<longleftrightarrow>
     sorted_wrt (\<lambda>new old. sg_id new = sg_id old \<longrightarrow> sg_expires old < sg_started new) log
     \<and> (\<forall>l \<in> set log. chip_signed d (sg_challenge l) (sg_signature l))"

definition cached_or_expired :: "int \<Rightarrow> signatureCache \<Rightarrow> signing \<Rightarrow> bool" where
  "cached_or_expired now c l \<longleftrightarrow>
     (case cache_stored c (sg_id l) of
        None \<Rightarrow> sg_expires l < now
      | Some e \<Rightarrow> sg_expires l \<le> se_expiresAt e)"

text \<open>The cache holds only logged signatures, and a logged signature that is still alive is in the
  cache.\<close>

definition cache_inv :: "'w chip_driver \<Rightarrow> 'w service \<Rightarrow> signing list \<Rightarrow> bool" where
  "cache_inv d sv log \<longleftrightarrow>
     sc_ttl (sv_cache sv) = cacheTTL \<and> cache_wf (sv_cache sv)
     \<and> (\<forall>k e. cache_stored (sv_cache sv) k = Some e \<longrightarrow>
          (\<exists>l \<in> set log. sg_id l = k \<and> se_challengeDigest e = sha256_Sum256 (sg_challenge l)
             \<and> se_signature e = sg_signature l))
     \<and> (\<forall>l \<in> set log. cached_or_expired (sv_now d sv) (sv_cache sv) l)"

definition same_certificate :: "Certificate \<Rightarrow> Certificate \<Rightarrow> bool" where
  "same_certificate a b \<longleftrightarrow> ct_ProtocolMajor a = ct_ProtocolMajor b \<and> ct_Data a = ct_Data b
     \<and> ct_Base64 a = ct_Base64 b \<and> ct_SHA256Hex a = ct_SHA256Hex b"

fun reply_ok :: "'w system \<Rightarrow> call \<Rightarrow> reply \<Rightarrow> bool" where
  "reply_ok s c (ReplySign r) \<longleftrightarrow>
     (\<exists>requestID challenge. c = CallSign requestID challenge
        \<and> (\<exists>l \<in> set (sy_log s). sg_id l = requestID
             \<and> sha256_Sum256 (sg_challenge l) = sha256_Sum256 challenge
             \<and> sg_signature l = sr_Signature r))"
| "reply_ok s c (ReplyCertificate ct) \<longleftrightarrow>
     c = CallCertificate \<and> (\<exists>st. sv_certificate (sy_service s) = Some st \<and> same_certificate st ct)"
| "reply_ok s c (ReplyProbe v) \<longleftrightarrow> c = CallProbe"
| "reply_ok s c (ReplyError e) \<longleftrightarrow> True"
| "reply_ok s c ReplyPanic \<longleftrightarrow> True"

fun thread_ok :: "'w chip_driver \<Rightarrow> 'w system \<Rightarrow> call \<Rightarrow> pc \<Rightarrow> bool" where
  "thread_ok d s c (Entering c') \<longleftrightarrow> c' = c"
| "thread_ok d s c (Waiting c' started) \<longleftrightarrow> c' = c"
| "thread_ok d s c (Holding c' waitDuration) \<longleftrightarrow> c' = c"
| "thread_ok d s c (Calling c' waitDuration chipStarted) \<longleftrightarrow>
     c' = c \<and> chipStarted \<le> sv_now d (sy_service s)
     \<and> (case c of
          CallCertificate \<Rightarrow> sv_certificate (sy_service s) = None
        | CallSign requestID challenge \<Rightarrow> expired_before (sy_log s) requestID chipStarted
        | CallProbe \<Rightarrow> True)"
| "thread_ok d s c (ReadingCertificate waitDuration chipStarted protocolMajor) \<longleftrightarrow>
     c = CallCertificate \<and> sv_certificate (sy_service s) = None"
| "thread_ok d s c (StoringCertificate waitDuration chipStarted protocolMajor data) \<longleftrightarrow>
     c = CallCertificate \<and> sv_certificate (sy_service s) = None"
| "thread_ok d s c (StoringSignature requestID challenge waitDuration chipStarted signature) \<longleftrightarrow>
     c = CallSign requestID challenge \<and> chipStarted \<le> sv_now d (sy_service s)
     \<and> expired_before (sy_log s) requestID chipStarted \<and> chip_signed d challenge signature"
| "thread_ok d s c (Releasing r) \<longleftrightarrow> reply_ok s c r"
| "thread_ok d s c (Returned r) \<longleftrightarrow> reply_ok s c r"

definition system_inv :: "'w chip_driver \<Rightarrow> 'w system \<Rightarrow> bool" where
  "system_inv d s \<longleftrightarrow> gate_inv s \<and> log_inv d (sy_log s) \<and> cache_inv d (sy_service s) (sy_log s)
     \<and> (\<forall>st. sv_certificate (sy_service s) = Some st \<longrightarrow> (\<exists>pm data. st = new_certificate pm data))
     \<and> (\<forall>i c p. sy_threads s i = Some (c, p) \<longrightarrow> thread_ok d s c p)"

section \<open>Single steps\<close>

text \<open>What a step of one call does to the shared state, by the place it starts from.\<close>

lemma Sign_lookup_effect:
  assumes "Sign_lookup d rid ch sv = (r, sv')"
  shows "sv' = sv\<lparr>sv_cache := snd (cache_get (sv_now d sv) rid (sv_cache sv))\<rparr>"
    and "r = map_option (\<lambda>e. cachedResult e (sha256_Sum256 ch)) (fst (cache_get (sv_now d sv) rid (sv_cache sv)))"
  using assms by (auto simp: Sign_lookup_def split: prod.splits option.splits)

lemma Sign_enter_effect:
  assumes "Sign_enter d u rid ch sv = (r, sv')"
  shows "(\<exists>e. r = Some (Err e)) \<and> sv' = sv \<or> Sign_lookup d rid ch sv = (r, sv')"
  using assms by (auto simp: Sign_enter_def split: if_splits)

section \<open>The cache and the log\<close>

lemma cached_or_expired_later:
  "cached_or_expired now c l \<Longrightarrow> now \<le> now' \<Longrightarrow> cached_or_expired now' c l"
  by (auto simp: cached_or_expired_def split: option.splits)

lemma cached_or_expired_get:
  assumes "cached_or_expired now c l"
  shows "cached_or_expired now (snd (cache_get now rid c)) l"
proof (cases "cache_stored (snd (cache_get now rid c)) (sg_id l)")
  case None
  show ?thesis
  proof (cases "cache_stored c (sg_id l)")
    case (Some e)
    then have "se_expiresAt e < now" using sigcache.dropped_by_get [OF Some None] by simp
    then show ?thesis using assms Some None by (simp add: cached_or_expired_def)
  qed (use assms None in \<open>simp add: cached_or_expired_def\<close>)
next
  case (Some e)
  then show ?thesis
    using assms sigcache.stored_after_get [OF Some] by (simp add: cached_or_expired_def)
qed

lemma cache_inv_later:
  assumes "cache_inv d sv log" and "sv_cache sv' = sv_cache sv" and "sv_now d sv \<le> sv_now d sv'"
  shows "cache_inv d sv' log"
  using assms cached_or_expired_later [OF _ assms(3)] by (simp add: cache_inv_def)

lemma cache_inv_get:
  assumes "cache_inv d sv log"
  shows "cache_inv d (sv\<lparr>sv_cache := snd (cache_get (sv_now d sv) rid (sv_cache sv))\<rparr>) log"
proof -
  let ?c' = "snd (cache_get (sv_now d sv) rid (sv_cache sv))"
  have ttl: "sc_ttl ?c' = sc_ttl (sv_cache sv)" by (simp add: cache_get_def split: option.splits)
  have now: "sv_now d (sv\<lparr>sv_cache := ?c'\<rparr>) = sv_now d sv" by (simp add: sv_now_def)
  have "\<exists>l \<in> set log. sg_id l = k \<and> se_challengeDigest e = sha256_Sum256 (sg_challenge l)
      \<and> se_signature e = sg_signature l" if "cache_stored ?c' k = Some e" for k e
    using assms sigcache.stored_after_get [OF that] by (simp add: cache_inv_def)
  then show ?thesis
    using assms by (simp add: cache_inv_def ttl now cache_wf_get cached_or_expired_get)
qed

lemma cache_miss_expired:
  assumes "cache_inv d sv log" and "fst (cache_get (sv_now d sv) rid (sv_cache sv)) = None"
  shows "expired_before log rid (sv_now d sv)"
  unfolding expired_before_def
proof (intro ballI impI)
  fix l assume l: "l \<in> set log" "sg_id l = rid"
  show "sg_expires l < sv_now d sv"
  proof (cases "cache_stored (sv_cache sv) rid")
    case None
    then show ?thesis using assms(1) l by (fastforce simp: cache_inv_def cached_or_expired_def)
  next
    case (Some e)
    then have "se_expiresAt e < sv_now d sv" using sigcache.miss_expired [OF assms(2)] by simp
    moreover have "sg_expires l \<le> se_expiresAt e" using assms(1) l Some
      by (fastforce simp: cache_inv_def cached_or_expired_def)
    ultimately show ?thesis by simp
  qed
qed

lemma cache_hit_logged:
  assumes "cache_inv d sv log" and "fst (cache_get (sv_now d sv) rid (sv_cache sv)) = Some e"
    and "cachedResult e digest = Ok r"
  shows "\<exists>l \<in> set log. sg_id l = rid \<and> sha256_Sum256 (sg_challenge l) = digest
     \<and> sg_signature l = sr_Signature r"
proof -
  have "cache_stored (sv_cache sv) rid = Some e" using sigcache.hit_stored [OF assms(2)] by simp
  with assms(1) obtain l where "l \<in> set log" "sg_id l = rid"
    "se_challengeDigest e = sha256_Sum256 (sg_challenge l)" "se_signature e = sg_signature l"
    unfolding cache_inv_def by blast
  then show ?thesis using assms(3) by (auto simp: cachedResult_def split: if_splits)
qed

text \<open>Storing a signature that was started after every earlier one for this id had expired.\<close>

lemma store_inv:
  assumes ci: "cache_inv d sv log" and li: "log_inv d log"
    and ex: "expired_before log rid started" and le: "started \<le> sv_now d sv"
    and sg: "chip_signed d ch sig"
    and st: "Sign_store d rid ch wait started sig sv = (r, sv')"
    and lg: "log' = log_of d (StoringSignature rid ch wait started sig) sv @ log"
  shows "cache_inv d sv' log'" and "log_inv d log'"
proof -
  let ?e = "\<lparr>se_challengeDigest = sha256_Sum256 ch, se_signature = sig,
      se_expiresAt = sv_now d sv + sc_ttl (sv_cache sv)\<rparr>"
  have sv': "sv' = sv\<lparr>sv_cache := cache_put rid ?e (sv_cache sv)\<rparr>"
    using st by (simp add: Sign_store_def Let_def)
  have now: "sv_now d sv' = sv_now d sv" by (simp add: sv' sv_now_def)
  have ttl: "sc_ttl (cache_put rid ?e (sv_cache sv)) = sc_ttl (sv_cache sv)" "sc_ttl (sv_cache sv) = cacheTTL"
    using ci by (simp_all add: cache_put_def cache_inv_def)
  show "log_inv d log'"
    using li ex sg by (auto simp: lg log_inv_def expired_before_def)
  show "cache_inv d sv' log'"
    unfolding cache_inv_def now
  proof (intro conjI allI impI ballI)
    fix k e assume "cache_stored (sv_cache sv') k = Some e"
    then show "\<exists>l \<in> set log'. sg_id l = k \<and> se_challengeDigest e = sha256_Sum256 (sg_challenge l)
        \<and> se_signature e = sg_signature l"
      using ci by (auto simp: sv' lg sigcache.put_stored cache_inv_def split: if_splits)
  next
    fix l assume l: "l \<in> set log'"
    show "cached_or_expired (sv_now d sv) (sv_cache sv') l"
    proof (cases "sg_id l = rid")
      case True
      have "sg_expires l = sv_now d sv + sc_ttl (sv_cache sv) \<or> l \<in> set log"
        using l unfolding lg by auto
      then have "sg_expires l \<le> sv_now d sv + sc_ttl (sv_cache sv)"
        using True ex le ttl(2) by (fastforce simp: expired_before_def cacheTTL_def)
      then show ?thesis by (simp add: sv' sigcache.put_stored True cached_or_expired_def)
    next
      case False
      then have "l \<in> set log" using l by (auto simp: lg)
      then show ?thesis using ci False
        by (simp add: sv' sigcache.put_stored cache_inv_def cached_or_expired_def)
    qed
  qed (use ci ttl in \<open>simp_all add: sv' cache_inv_def cache_wf_put\<close>)
qed

section \<open>Interference\<close>

definition evolves :: "'w chip_driver \<Rightarrow> 'w system \<Rightarrow> 'w system \<Rightarrow> bool" where
  "evolves d s s' \<longleftrightarrow> sv_now d (sy_service s) \<le> sv_now d (sy_service s')
     \<and> set (sy_log s) \<subseteq> set (sy_log s')
     \<and> (\<forall>st. sv_certificate (sy_service s) = Some st \<longrightarrow> sv_certificate (sy_service s') = Some st)"

definition keeps_results :: "'w system \<Rightarrow> 'w system \<Rightarrow> bool" where
  "keeps_results s s' \<longleftrightarrow> sy_log s' = sy_log s
     \<and> sv_certificate (sy_service s') = sv_certificate (sy_service s)"

lemma reply_ok_evolves: "reply_ok s c r \<Longrightarrow> evolves d s s' \<Longrightarrow> reply_ok s' c r"
  by (cases r) (auto simp: evolves_def)

lemma thread_ok_evolves:
  assumes "thread_ok d s c p" and "evolves d s s'" and "in_gate p \<Longrightarrow> keeps_results s s'"
  shows "thread_ok d s' c p"
proof (cases p)
  case (Releasing r)
  then show ?thesis using assms reply_ok_evolves by auto
next
  case (Returned r)
  then show ?thesis using assms reply_ok_evolves by auto
next
  case (Calling c' w st)
  then show ?thesis using assms by (cases c) (auto simp: evolves_def keeps_results_def)
qed (use assms in \<open>auto simp: evolves_def keeps_results_def\<close>)

section \<open>Steps of one call\<close>

text \<open>The obligations of a step from \<open>p\<close> to \<open>p'\<close>, apart from the gate.\<close>

definition step_ok :: "'w chip_driver \<Rightarrow> 'w system \<Rightarrow> call \<Rightarrow> pc \<Rightarrow> pc \<Rightarrow> 'w system \<Rightarrow> bool" where
  "step_ok d s c p p' s' \<longleftrightarrow> evolves d s s' \<and> (\<not> in_gate p \<longrightarrow> keeps_results s s')
     \<and> log_inv d (sy_log s') \<and> cache_inv d (sy_service s') (sy_log s')
     \<and> (\<forall>st. sv_certificate (sy_service s') = Some st \<longrightarrow> (\<exists>pm data. st = new_certificate pm data))
     \<and> thread_ok d s' c p'"

lemma sv_now_update [simp]:
  "sv_now d (sv\<lparr>sv_cache := c\<rparr>) = sv_now d sv"
  "sv_now d (sv\<lparr>sv_gate := g\<rparr>) = sv_now d sv"
  "sv_now d (sv\<lparr>sv_certificate := ct\<rparr>) = sv_now d sv"
  "sv_now d (sv\<lparr>sv_world := w\<rparr>) = cd_now d w"
  by (simp_all add: sv_now_def)

text \<open>A step that only looks something up, or moves on: the certificate and the log stay.\<close>

lemma step_ok_quiet:
  assumes "system_inv d s" and "sy_service s' = sv'" "sy_log s' = sy_log s"
    and "sv_certificate sv' = sv_certificate (sy_service s)"
    and "sv_now d (sy_service s) \<le> sv_now d sv'"
    and "cache_inv d sv' (sy_log s)" and "thread_ok d s' c p'"
  shows "step_ok d s c p p' s'"
  using assms by (simp add: step_ok_def evolves_def keeps_results_def system_inv_def)

lemma lookup_step:
  assumes inv: "system_inv d s" and lk: "Sign_lookup d rid ch (sy_service s) = (r, sv')"
    and s': "sy_service s' = sv'" "sy_log s' = sy_log s"
  shows "cache_inv d sv' (sy_log s)" and "sv_certificate sv' = sv_certificate (sy_service s)"
    and "sv_now d sv' = sv_now d (sy_service s)"
    and "r = None \<Longrightarrow> expired_before (sy_log s) rid (sv_now d (sy_service s))"
    and "r = Some q \<Longrightarrow> reply_ok s' (CallSign rid ch) (reply_of ReplySign q)"
proof -
  note eff = Sign_lookup_effect [OF lk]
  have ci: "cache_inv d (sy_service s) (sy_log s)" using inv by (simp add: system_inv_def)
  show "cache_inv d sv' (sy_log s)" unfolding eff(1) by (rule cache_inv_get [OF ci])
  show "sv_certificate sv' = sv_certificate (sy_service s)" "sv_now d sv' = sv_now d (sy_service s)"
    by (simp_all add: eff(1))
  show "r = None \<Longrightarrow> expired_before (sy_log s) rid (sv_now d (sy_service s))"
    using cache_miss_expired [OF ci] eff(2) by simp
  show "r = Some q \<Longrightarrow> reply_ok s' (CallSign rid ch) (reply_of ReplySign q)"
    using eff(2) cache_hit_logged [OF ci] s' by (cases q) auto
qed

lemma enter_step:
  assumes inv: "system_inv d s" and en: "enter d u c (sy_service s) = (p', sv')"
    and s': "sy_service s' = sv'" "sy_log s' = sy_log s"
  shows "step_ok d s c (Entering c) p' s'"
proof -
  have ci: "cache_inv d (sy_service s) (sy_log s)" using inv by (simp add: system_inv_def)
  show ?thesis
  proof (cases c)
    case CallCertificate
    then show ?thesis
      using en s' ci
      by (intro step_ok_quiet [OF inv s'])
        (auto simp: Certificate_load_def same_certificate_def split: option.splits)
  next
    case (CallSign rid ch)
    obtain r sv1 where e: "Sign_enter d u rid ch (sy_service s) = (r, sv1)" by fastforce
    have sv1: "sv1 = sv'" using en CallSign e by (auto split: option.splits)
    from Sign_enter_effect [OF e] show ?thesis
    proof
      assume "(\<exists>e. r = Some (Err e)) \<and> sv1 = sy_service s"
      then show ?thesis
        using en s' ci CallSign e by (intro step_ok_quiet [OF inv s']) auto
    next
      assume lk: "Sign_lookup d rid ch (sy_service s) = (r, sv1)"
      note L = lookup_step [OF inv lk [unfolded sv1] s']
      show ?thesis
        using en s' CallSign e L by (intro step_ok_quiet [OF inv s']) (auto split: option.splits)
    qed
  next
    case CallProbe
    then show ?thesis using en s' ci by (intro step_ok_quiet [OF inv s']) auto
  qed
qed

lemma recheck_step:
  assumes inv: "system_inv d s" and en: "recheck d c wait (sy_service s) = (p', sv')"
    and s': "sy_service s' = sv'" "sy_log s' = sy_log s"
  shows "step_ok d s c (Holding c wait) p' s'"
proof -
  have ci: "cache_inv d (sy_service s) (sy_log s)" using inv by (simp add: system_inv_def)
  show ?thesis
  proof (cases c)
    case CallCertificate
    then show ?thesis
      using en s' ci
      by (intro step_ok_quiet [OF inv s'])
        (auto simp: Certificate_load_def same_certificate_def split: option.splits)
  next
    case (CallSign rid ch)
    obtain r sv1 where e: "Sign_lookup d rid ch (sy_service s) = (r, sv1)" by fastforce
    have sv1: "sv1 = sv'" using en CallSign e by (auto split: option.splits)
    note L = lookup_step [OF inv e [unfolded sv1] s']
    show ?thesis
      using en s' CallSign e L by (intro step_ok_quiet [OF inv s']) (auto split: option.splits)
  next
    case CallProbe
    then show ?thesis using en s' ci by (intro step_ok_quiet [OF inv s']) auto
  qed
qed

lemma hardware_step:
  assumes inv: "system_inv d s" and later: "returns_later (cd_now d) f"
    and hw: "on_hardware k (sy_service s) (f (sv_world (sy_service s))) = Some (p', sv')"
    and s': "sy_service s' = sv'" "sy_log s' = sy_log s"
    and ok: "\<And>a w'. f (sv_world (sy_service s)) = Some (Ok a, w') \<Longrightarrow>
        sv_certificate (sy_service s') = sv_certificate (sy_service s) \<Longrightarrow>
        sv_now d (sy_service s) \<le> sv_now d (sy_service s') \<Longrightarrow> thread_ok d s' c (k a)"
  shows "step_ok d s c p p' s'"
proof -
  from later obtain r w' where f: "f (sv_world (sy_service s)) = Some (r, w')"
    and t: "cd_now d (sv_world (sy_service s)) \<le> cd_now d w'"
    unfolding returns_later_def by blast
  have sv': "sv' = (sy_service s)\<lparr>sv_world := w'\<rparr>" and p': "p' = hardware_reply k r"
    using hw f by (auto simp: on_hardware_def)
  have now: "sv_now d (sy_service s) \<le> sv_now d sv'" using t by (simp add: sv' sv_now_def)
  have "cache_inv d (sy_service s) (sy_log s)" using inv by (simp add: system_inv_def)
  then have ci: "cache_inv d sv' (sy_log s)" by (rule cache_inv_later [OF _ _ now]) (simp add: sv')
  have "thread_ok d s' c p'"
  proof (cases r)
    case (Ok a)
    have "thread_ok d s' c (k a)"
      by (rule ok [of a w']) (use f Ok now in \<open>simp_all add: s'(1) sv'\<close>)
    then show ?thesis by (simp add: p' Ok)
  qed (simp_all add: p')
  with inv now ci show ?thesis
    by (intro step_ok_quiet [OF inv s']) (simp_all add: sv')
qed

context service_driver
begin

lemma run_step:
  assumes inv: "system_inv d s" and th: "sy_threads s i = Some (c, p)"
    and run: "thread_run d u p (sy_service s) = Some (p', sv')"
    and s': "sy_service s' = sv'" "sy_log s' = log_of d p (sy_service s) @ sy_log s"
  shows "step_ok d s c p p' s'"
proof -
  have ok: "thread_ok d s c p" using inv th by (simp add: system_inv_def)
  have ci: "cache_inv d (sy_service s) (sy_log s)" and li: "log_inv d (sy_log s)"
    using inv by (simp_all add: system_inv_def)
  show ?thesis
  proof (cases p)
    case (Entering c')
    with ok run s' show ?thesis by (auto intro: enter_step [OF inv])
  next
    case (Waiting c' st)
    obtain g where g: "gate_acquire (call_holder c') (sv_now d (sy_service s)) (sv_gate (sy_service s)) = Some g"
      "p' = Holding c' (sv_now d (sy_service s) - st)" "sv' = (sy_service s)\<lparr>sv_gate := g\<rparr>"
      using run Waiting by (auto split: option.splits)
    have "cache_inv d sv' (sy_log s)" using ci by (rule cache_inv_later) (simp_all add: g(3))
    then show ?thesis
      using ok Waiting s' g by (intro step_ok_quiet [OF inv s'(1)]) simp_all
  next
    case (Holding c' wait)
    with ok run s' show ?thesis by (auto intro: recheck_step [OF inv])
  next
    case (Calling c' wait st)
    then have c: "c' = c" and lg: "sy_log s' = sy_log s" using ok s' by simp_all
    show ?thesis
    proof (cases c)
      case CallCertificate
      with run Calling c ok s' lg show ?thesis
        by (intro hardware_step [OF inv protocol_major_returns _ s'(1) lg]) auto
    next
      case (CallSign rid ch)
      with run Calling c ok s' lg show ?thesis
        by (intro hardware_step [OF inv sign_challenge_returns _ s'(1) lg]) (auto intro: chip_signedI)
    next
      case CallProbe
      with run Calling c ok s' lg show ?thesis
        by (intro hardware_step [OF inv protocol_major_returns _ s'(1) lg]) auto
    qed
  next
    case (ReadingCertificate wait st pm)
    then have lg: "sy_log s' = sy_log s" using s' by simp
    from ReadingCertificate run ok s' lg show ?thesis
      by (intro hardware_step [OF inv read_certificate_returns _ s'(1) lg]) auto
  next
    case (StoringCertificate wait st pm data)
    then have none: "sv_certificate (sy_service s) = None" and c: "c = CallCertificate" using ok by simp_all
    have sv': "sv' = (sy_service s)\<lparr>sv_certificate := Some (new_certificate pm data)\<rparr>"
      and p': "p' = Releasing (ReplyCertificate ((new_certificate pm data)\<lparr>ct_WaitDuration := wait,
        ct_ChipDuration := sv_now d (sy_service s) - st\<rparr>))"
      using run StoringCertificate by (auto simp: Certificate_store_def Let_def)
    have "cache_inv d sv' (sy_log s)" using ci by (rule cache_inv_later) (simp_all add: sv')
    then show ?thesis
      using none li s' StoringCertificate
      by (auto simp: step_ok_def evolves_def c p' sv' same_certificate_def)
  next
    case (StoringSignature rid ch wait st sig)
    obtain r sv1 where st: "Sign_store d rid ch wait st sig (sy_service s) = (r, sv1)" by fastforce
    have sv1: "sv1 = sv'" and p': "p' = Releasing (ReplySign r)" using run StoringSignature st by auto
    have T: "c = CallSign rid ch" "st \<le> sv_now d (sy_service s)" "expired_before (sy_log s) rid st"
      "chip_signed d ch sig" using ok StoringSignature by simp_all
    note S = store_inv [OF ci li T(3,2,4) st [unfolded sv1] s'(2) [unfolded StoringSignature]]
    have q: "sv_certificate sv' = sv_certificate (sy_service s)" "sv_now d sv' = sv_now d (sy_service s)"
      "sr_Signature r = sig"
      using st sv1 by (auto simp: Sign_store_def Let_def)
    from inv S q s' StoringSignature T(1) p' show ?thesis
      by (auto simp: step_ok_def evolves_def system_inv_def)
  next
    case (Releasing r)
    then have e: "p' = Returned r" "sv' = (sy_service s)\<lparr>sv_gate := gate_release (sv_gate (sy_service s))\<rparr>"
      using run by simp_all
    have "cache_inv d sv' (sy_log s)" using ci by (rule cache_inv_later) (simp_all add: e)
    moreover have "reply_ok s' c r"
      using ok Releasing s' e by (intro reply_ok_evolves [of s c r d s']) (simp_all add: evolves_def)
    ultimately show ?thesis
      using Releasing s' e by (intro step_ok_quiet [OF inv s'(1)]) simp_all
  next
    case (Returned r)
    with run show ?thesis by simp
  qed
qed

end

section \<open>The gate\<close>

lemma enter_gate: "enter d u c sv = (p', sv') \<Longrightarrow> \<not> in_gate p' \<and> sv_gate sv' = sv_gate sv"
  by (cases c) (auto simp: Sign_enter_def Sign_lookup_def split: option.splits if_splits prod.splits)

lemma recheck_gate: "recheck d c wait sv = (p', sv') \<Longrightarrow> in_gate p' \<and> sv_gate sv' = sv_gate sv"
  by (cases c) (auto simp: Sign_lookup_def split: option.splits prod.splits)

lemma hardware_reply_gate: "(\<And>a. in_gate (k a)) \<Longrightarrow> in_gate (hardware_reply k r)"
  by (cases r) simp_all

lemma on_hardware_gate:
  "on_hardware k sv m = Some (p', sv') \<Longrightarrow> (\<And>a. in_gate (k a)) \<Longrightarrow> in_gate p' \<and> sv_gate sv' = sv_gate sv"
  by (auto simp: on_hardware_def split: option.splits intro: hardware_reply_gate)

lemma thread_run_gate:
  assumes "thread_run d u p sv = Some (p', sv')"
  shows "(in_gate p' = in_gate p \<and> gt_token (sv_gate sv') = gt_token (sv_gate sv))
     \<or> (\<not> in_gate p \<and> in_gate p' \<and> \<not> gt_token (sv_gate sv) \<and> gt_token (sv_gate sv'))
     \<or> (in_gate p \<and> \<not> in_gate p' \<and> \<not> gt_token (sv_gate sv'))"
proof (cases p)
  case (Entering c)
  then show ?thesis using assms enter_gate [of d u c sv] by simp
next
  case (Holding c wait)
  then show ?thesis using assms recheck_gate [of d c wait sv] by simp
next
  case (Calling c wait st)
  then show ?thesis using assms by (cases c) (auto dest!: on_hardware_gate)
next
  case (Releasing r)
  then show ?thesis using assms by (auto simp: gate_release_def)
qed (use assms in \<open>auto simp: gate_acquire_def Certificate_store_def Sign_store_def Let_def
      dest!: on_hardware_gate split: option.splits if_splits\<close>)

lemma gate_inv_run:
  assumes inv: "gate_inv s" and th: "sy_threads s i = Some (c, p)"
    and run: "thread_run d u p (sy_service s) = Some (p', sv')"
    and s': "sy_service s' = sv'" "sy_threads s' = (sy_threads s)(i \<mapsto> (c, p'))"
  shows "gate_inv s'"
proof -
  have at: "gate_at s' j \<longleftrightarrow> (if j = i then in_gate p' else gate_at s j)" for j
    by (simp add: gate_at_def s'(2))
  have i: "gate_at s i \<longleftrightarrow> in_gate p" by (simp add: gate_at_def th)
  from thread_run_gate [OF run] inv i show ?thesis
    unfolding gate_inv_def at s'(1) by (elim disjE) (simp_all, metis+)
qed

section \<open>Invariance\<close>

lemma gate_inv_threads:
  assumes "gate_inv s" and "sy_service s' = sy_service s" and "\<And>j. gate_at s' j = gate_at s j"
  shows "gate_inv s'"
  using assms by (simp add: gate_inv_def)

lemma thread_ok_local: "sy_service s' = sy_service s \<Longrightarrow> sy_log s' = sy_log s \<Longrightarrow> thread_ok d s' c p = thread_ok d s c p"
proof -
  assume a: "sy_service s' = sy_service s" "sy_log s' = sy_log s"
  have r: "reply_ok s' c0 r = reply_ok s c0 r" for c0 r by (cases r) (simp_all add: a)
  show ?thesis by (cases p; cases c) (simp_all add: a r)
qed

lemma system_inv_thread:
  assumes inv: "system_inv d s" and s': "s' = s\<lparr>sy_threads := (sy_threads s)(i \<mapsto> (c, p))\<rparr>"
    and out: "\<not> in_gate p" "\<not> gate_at s i" and ok: "thread_ok d s c p"
  shows "system_inv d s'"
proof -
  have at: "gate_at s' j = gate_at s j" for j using out by (auto simp: gate_at_def s')
  have "gate_inv s'" by (rule gate_inv_threads [OF _ _ at]) (use inv in \<open>simp_all add: system_inv_def s'\<close>)
  moreover have "thread_ok d s' c' p'" if "sy_threads s' j = Some (c', p')" for j c' p'
    using that inv ok thread_ok_local [of s' s d] by (auto simp: system_inv_def s' split: if_splits)
  ultimately show ?thesis using inv by (simp add: system_inv_def s')
qed

context service_driver
begin

lemma run_keeps_inv:
  assumes inv: "system_inv d s" and th: "sy_threads s i = Some (c, p)"
    and run: "thread_run d u p (sy_service s) = Some (p', sv')"
    and s': "s' = s\<lparr>sy_service := sv', sy_threads := (sy_threads s)(i \<mapsto> (c, p')),
        sy_log := log_of d p (sy_service s) @ sy_log s\<rparr>"
  shows "system_inv d s'"
proof -
  have proj: "sy_service s' = sv'" "sy_log s' = log_of d p (sy_service s) @ sy_log s"
    "sy_threads s' = (sy_threads s)(i \<mapsto> (c, p'))" by (simp_all add: s')
  have step: "step_ok d s c p p' s'" by (rule run_step [OF inv th run proj(1,2)])
  have ginv: "gate_inv s" using inv by (simp add: system_inv_def)
  have "thread_ok d s' c' q" if t: "sy_threads s' j = Some (c', q)" for j c' q
  proof (cases "j = i")
    case True
    then show ?thesis using t step by (simp add: proj(3) step_ok_def)
  next
    case False
    then have old: "sy_threads s j = Some (c', q)" using t by (simp add: proj(3))
    then have "in_gate q \<Longrightarrow> \<not> in_gate p"
      using ginv th False by (auto simp: gate_inv_def gate_at_def)
    then show ?thesis
      using step old inv
      by (intro thread_ok_evolves [of d s c' q s']) (auto simp: step_ok_def system_inv_def)
  qed
  moreover have "gate_inv s'" by (rule gate_inv_run [OF ginv th run proj(1,3)])
  ultimately show ?thesis using step by (simp add: system_inv_def step_ok_def)
qed

lemma environment_keeps_inv:
  assumes inv: "system_inv d s" and t: "cd_now d (sv_world (sy_service s)) \<le> cd_now d w"
    and s': "s' = s\<lparr>sy_service := (sy_service s)\<lparr>sv_world := w\<rparr>\<rparr>"
  shows "system_inv d s'"
proof -
  have ci: "cache_inv d (sy_service s) (sy_log s)" using inv by (simp add: system_inv_def)
  have "cache_inv d (sy_service s') (sy_log s)"
    by (rule cache_inv_later [OF ci]) (use t in \<open>simp_all add: s' sv_now_def\<close>)
  moreover have "evolves d s s'" "keeps_results s s'"
    using t by (simp_all add: evolves_def keeps_results_def s' sv_now_def)
  then have "thread_ok d s' c p" if "sy_threads s i = Some (c, p)" for i c p
    using inv that by (intro thread_ok_evolves [of d s c p s']) (auto simp: system_inv_def)
  moreover have "gate_inv s'" using inv by (simp add: system_inv_def gate_inv_def gate_at_def s')
  ultimately show ?thesis using inv by (simp add: system_inv_def s')
qed

lemma system_step_inv: "system_step d u s s' \<Longrightarrow> system_inv d s \<Longrightarrow> system_inv d s'"
proof (induction rule: system_step.induct)
  case (spawn s i c)
  then show ?case by (intro system_inv_thread [OF _ refl]) (auto simp: gate_at_def)
next
  case (run s i c p p' sv')
  then show ?case by (intro run_keeps_inv [OF _ run(1,2) refl])
next
  case (timeout s i c c' st)
  then show ?case by (intro system_inv_thread [OF _ refl]) (auto simp: gate_at_def)
next
  case (cancel s i c c' st e)
  then show ?case by (intro system_inv_thread [OF _ refl]) (auto simp: gate_at_def)
next
  case (environment s w)
  then show ?case by (intro environment_keeps_inv [OF _ _ refl])
qed

lemma system_start_inv: "NewService (Some d) (Some inspector) w = Ok sv \<Longrightarrow> system_inv d (system_start sv)"
  by (auto simp: NewService_def system_start_def system_inv_def gate_inv_def gate_at_def log_inv_def
      cache_inv_def newSignatureCache_def cache_stored_def cache_wf_def newChipGate_def)

lemma system_reach_inv: "system_reach d u s \<Longrightarrow> system_inv d s"
  by (induction rule: system_reach.induct) (auto intro: system_start_inv system_step_inv)

end

end
