(* ===== verification/ServiceProps.thy ===== *)
theory ServiceProps
  imports ServiceConc
begin

text \<open>
  Properties of the service. The driver of \<open>Stack\<close> is an interpretation of the driver interface, so
  everything here holds for the program as it is put together in
  cmd/remote-mfi-for-xcertplay/main.go. Witnesses run on a driver that answers immediately, the
  counterpart of the fake driver of the service tests.
\<close>

section \<open>Drivers\<close>

text \<open>The hardware side of \<^verbatim>\<open>run\<close>: the MFi driver on the CH341 transport, seen as \<^verbatim>\<open>ChipDriver\<close>. The
  context of every call is never cancelled.\<close>

definition stack_driver :: "'u gousb \<Rightarrow> byte \<Rightarrow> 'u ch341 chip_driver" where
  "stack_driver g address7Bit =
     (let drv = \<lparr>drv_transport = ch341_i2c g, drv_address7Bit = address7Bit\<rparr>
      in \<lparr>cd_ProtocolMajor = ProtocolMajor drv None, cd_ReadCertificate = ReadCertificate drv None,
          cd_SignChallenge = SignChallenge drv None, cd_now = t_clock\<rparr>)"

lemma lands_returns_later:
  assumes "\<And>w. lands bus w (f w) Q"
  shows "returns_later (i2c_now bus) f"
  unfolding returns_later_def using landsE [OF assms] by metis

interpretation stack: service_driver "stack_driver g address7Bit" for g address7Bit
proof unfold_locales
  let ?drv = "\<lparr>drv_transport = ch341_i2c g, drv_address7Bit = address7Bit\<rparr>"
  have t: "drv_transport ?drv = ch341_i2c g" by simp
  note L = lands_returns_later [of "ch341_i2c g", unfolded ch341_i2c_simps]
  show "returns_later (cd_now (stack_driver g address7Bit)) (cd_ProtocolMajor (stack_driver g address7Bit))"
    using L [OF ch341_bus.ProtocolMajor_lands [OF t]] by (simp add: stack_driver_def Let_def)
  show "returns_later (cd_now (stack_driver g address7Bit)) (cd_ReadCertificate (stack_driver g address7Bit))"
    using L [OF ch341_bus.ReadCertificate_lands [OF t]] by (simp add: stack_driver_def Let_def)
  show "returns_later (cd_now (stack_driver g address7Bit)) (cd_SignChallenge (stack_driver g address7Bit) ch)" for ch
    using L [OF ch341_bus.SignChallenge_lands [OF t]] by (simp add: stack_driver_def Let_def)
qed

text \<open>A driver whose hardware state is the clock.\<close>

definition test_driver :: "int chip_driver" where
  "test_driver = \<lparr>cd_ProtocolMajor = (\<lambda>w. Some (Ok 3, w + 1)),
     cd_ReadCertificate = (\<lambda>w. Some (Ok [1, 2, 3], w + 1)),
     cd_SignChallenge = (\<lambda>ch w. Some (Ok (rev ch), w + 1)), cd_now = (\<lambda>w. w)\<rparr>"

interpretation test: service_driver test_driver
  by unfold_locales (simp_all add: test_driver_def returns_later_def)

definition test_service :: "int service" where
  "test_service = \<lparr>sv_gate = newChipGate, sv_cache = newSignatureCache cacheTTL,
     sv_certificate = None, sv_world = 0\<rparr>"

lemma test_service_reach: "system_reach test_driver u (system_start test_service)"
  by (rule system_reach.start [of _ "\<lambda>b w. undefined" 0]) (simp add: NewService_def test_service_def)

section \<open>One call on its own\<close>

text \<open>A call that runs alone is a run of the system.\<close>

fun run_log :: "nat \<Rightarrow> 'w chip_driver \<Rightarrow> (string \<Rightarrow> bool) \<Rightarrow> pc \<Rightarrow> 'w service \<Rightarrow> signing list" where
  "run_log 0 d u p sv = []"
| "run_log (Suc n) d u p sv =
     (case thread_run d u p sv of
        None \<Rightarrow> []
      | Some (p1, sv1) \<Rightarrow> run_log n d u p1 sv1 @ log_of d p sv)"

lemma run_thread_reach:
  assumes "system_reach d u s" and "sy_threads s i = Some (c, p)"
    and "run_thread n d u p (sy_service s) = Some (r, sv')"
  shows "system_reach d u (s\<lparr>sy_service := sv', sy_threads := (sy_threads s)(i \<mapsto> (c, Returned r)),
     sy_log := run_log n d u p (sy_service s) @ sy_log s\<rparr>)"
  using assms
proof (induction n arbitrary: s p)
  case 0
  then show ?case by (cases p) (auto simp: fun_upd_idem)
next
  case (Suc n)
  show ?case
  proof (cases "\<exists>q. p = Returned q")
    case True
    then have p: "p = Returned r" "sv' = sy_service s" using Suc.prems(3) by auto
    have same: "(sy_threads s)(i \<mapsto> (c, Returned r)) = sy_threads s"
      using Suc.prems(2) p(1) by (intro fun_upd_idem) simp
    show ?thesis using Suc.prems(1) by (simp add: p same del: fun_upd_apply)
  next
    case False
    then obtain p1 sv1 where t: "thread_run d u p (sy_service s) = Some (p1, sv1)"
      and r: "run_thread n d u p1 sv1 = Some (r, sv')"
      using Suc.prems(3) by (cases p) (auto split: option.splits prod.splits)
    let ?s1 = "s\<lparr>sy_service := sv1, sy_threads := (sy_threads s)(i \<mapsto> (c, p1)),
      sy_log := log_of d p (sy_service s) @ sy_log s\<rparr>"
    have "system_reach d u ?s1"
      by (rule system_reach.step [OF Suc.prems(1) system_step.run [OF Suc.prems(2) t]])
    from Suc.IH [OF this, of p1] r show ?thesis by (simp add: t fun_upd_same del: fun_upd_apply)
  qed
qed

lemma service_call_reach:
  assumes "system_reach d u s" and "sy_threads s i = None"
    and "service_call d u c (sy_service s) = Some (r, sv')"
  shows "system_reach d u (s\<lparr>sy_service := sv', sy_threads := (sy_threads s)(i \<mapsto> (c, Returned r)),
     sy_log := run_log 8 d u (Entering c) (sy_service s) @ sy_log s\<rparr>)"
  using run_thread_reach [OF system_reach.step [OF assms(1) system_step.spawn [OF assms(2)]],
      of c i c "Entering c" 8 r sv'] assms(3)
  by (simp add: service_call_def fun_upd_same del: fun_upd_apply)

section \<open>Behaviour of a call that finds the gate free\<close>

lemma run_thread_Suc:
  "(\<And>r. p \<noteq> Returned r) \<Longrightarrow> run_thread (Suc n) d u p sv =
     (case thread_run d u p sv of None \<Rightarrow> None | Some (p1, sv1) \<Rightarrow> run_thread n d u p1 sv1)"
  by (cases p) auto

definition entry_for :: "'w chip_driver \<Rightarrow> byte list \<Rightarrow> byte list \<Rightarrow> 'w \<Rightarrow> signatureEntry" where
  "entry_for d challenge signature w =
     \<lparr>se_challengeDigest = sha256_Sum256 challenge, se_signature = signature,
      se_expiresAt = cd_now d w + cacheTTL\<rparr>"

text \<open>What \<^verbatim>\<open>Sign\<close> promises on its own, branch by branch: the reply and the new hardware state as a
  function of the live cache entry and the hardware.\<close>

definition sign_spec ::
  "'w chip_driver \<Rightarrow> (string \<Rightarrow> bool) \<Rightarrow> string \<Rightarrow> byte list \<Rightarrow> signatureEntry option \<Rightarrow> 'w
     \<Rightarrow> (reply \<times> signatureEntry option \<times> 'w) option" where
  "sign_spec d uuid_ok requestID challenge cached w =
     (if \<not> uuid_ok requestID then Some (ReplyError (Sentinel ErrRequestIDFormat), cached, w)
      else if length challenge < 1 \<or> length challenge > 128
      then Some (ReplyError (Sentinel ErrChallengeSize), cached, w)
      else case cached of
        Some e \<Rightarrow> Some (reply_of ReplySign (cachedResult e (sha256_Sum256 challenge)), cached, w)
      | None \<Rightarrow>
          (case cd_SignChallenge d challenge w of
             None \<Rightarrow> None
           | Some (Err e, w') \<Rightarrow> Some (ReplyError (normalizeHardwareError e), None, w')
           | Some (Panic, w') \<Rightarrow> Some (ReplyPanic, None, w')
           | Some (Ok signature, w') \<Rightarrow>
               Some (ReplySign \<lparr>sr_Signature = signature, sr_Cached = False, sr_WaitDuration = 0,
                       sr_ChipDuration = cd_now d w' - cd_now d w\<rparr>,
                     Some (entry_for d challenge signature w'), w')))"

text \<open>The abstract state of the cache: what a lookup would answer now.\<close>

definition live_now :: "'w chip_driver \<Rightarrow> 'w service \<Rightarrow> string \<Rightarrow> signatureEntry option" where
  "live_now d sv k = fst (cache_get (sv_now d sv) k (sv_cache sv))"

lemma cache_get_twice:
  "fst (cache_get now k c) = None \<Longrightarrow> cache_get now k (snd (cache_get now k c)) = (None, snd (cache_get now k c))"
  by (auto simp: cache_get_def delete_conv' split: option.splits if_splits)

lemma sign_hit:
  assumes "uuid_ok rid" "ch \<noteq> []" "length ch \<le> 128" and "live_now d sv rid = Some e"
  shows "service_call d uuid_ok (CallSign rid ch) sv
     = Some (reply_of ReplySign (cachedResult e (sha256_Sum256 ch)), sv)"
proof -
  have c: "cache_get (sv_now d sv) rid (sv_cache sv) = (Some e, sv_cache sv)"
    using assms(4) by (auto simp: live_now_def cache_get_def split: option.splits if_splits)
  have "Sign_enter d uuid_ok rid ch sv = (Some (cachedResult e (sha256_Sum256 ch)), sv)"
    using assms(1-3) by (simp add: Sign_enter_def Sign_lookup_def c)
  then show ?thesis by (simp add: service_call_def numeral_eq_Suc)
qed

lemma sign_miss:
  assumes "uuid_ok rid" "ch \<noteq> []" "length ch \<le> 128" and "live_now d sv rid = None"
    and "\<not> gt_token (sv_gate sv)" and "sc_ttl (sv_cache sv) = cacheTTL"
    and c1: "c1 = snd (cache_get (sv_now d sv) rid (sv_cache sv))"
    and m: "cd_SignChallenge d ch (sv_world sv) = Some (r, w)"
  shows "service_call d uuid_ok (CallSign rid ch) sv =
     Some (case r of
        Ok sig \<Rightarrow> (ReplySign \<lparr>sr_Signature = sig, sr_Cached = False, sr_WaitDuration = 0,
                       sr_ChipDuration = cd_now d w - cd_now d (sv_world sv)\<rparr>,
                   sv\<lparr>sv_gate := newChipGate, sv_cache := cache_put rid (entry_for d ch sig w) c1,
                      sv_world := w\<rparr>)
      | Err e \<Rightarrow> (ReplyError (normalizeHardwareError e),
                   sv\<lparr>sv_gate := newChipGate, sv_cache := c1, sv_world := w\<rparr>)
      | Panic \<Rightarrow> (ReplyPanic, sv\<lparr>sv_gate := newChipGate, sv_cache := c1, sv_world := w\<rparr>))"
proof -
  have g: "cache_get (sv_now d sv) rid (sv_cache sv) = (None, c1)"
    using assms(4) c1 by (metis live_now_def prod.collapse)
  have g2: "cache_get (sv_now d sv) rid c1 = (None, c1)"
    using cache_get_twice [of "sv_now d sv" rid "sv_cache sv"] by (simp add: g)
  have ttl: "sc_ttl c1 = cacheTTL" using assms(6) c1 by (simp add: cache_get_def split: option.splits)
  have e: "Sign_enter d uuid_ok rid ch sv = (None, sv\<lparr>sv_cache := c1\<rparr>)"
    using assms(1-3) by (simp add: Sign_enter_def Sign_lookup_def g)
  show ?thesis
    using assms(5) m
    by (cases r) (simp_all add: service_call_def numeral_eq_Suc run_thread_Suc e gate_acquire_def
        Sign_lookup_def g2 [unfolded sv_now_def] on_hardware_def Sign_store_def Let_def ttl entry_for_def gate_release_def
        newChipGate_def sv_now_def)
qed

lemma cert_cached:
  "sv_certificate sv = Some ct \<Longrightarrow> service_call d u CallCertificate sv
     = Some (ReplyCertificate (ct\<lparr>ct_Cached := True\<rparr>), sv)"
  by (simp add: service_call_def numeral_eq_Suc Certificate_load_def)

lemma cert_fresh:
  assumes "sv_certificate sv = None" and "\<not> gt_token (sv_gate sv)"
    and "cd_ProtocolMajor d (sv_world sv) = Some (Ok pm, w1)"
    and "cd_ReadCertificate d w1 = Some (Ok data, w2)"
  shows "service_call d u CallCertificate sv =
     Some (ReplyCertificate ((new_certificate pm data)\<lparr>ct_WaitDuration := 0,
             ct_ChipDuration := cd_now d w2 - cd_now d (sv_world sv)\<rparr>),
           sv\<lparr>sv_gate := newChipGate, sv_certificate := Some (new_certificate pm data), sv_world := w2\<rparr>)"
  using assms
  by (simp add: service_call_def numeral_eq_Suc run_thread_Suc Certificate_load_def gate_acquire_def
      on_hardware_def Certificate_store_def Let_def gate_release_def newChipGate_def sv_now_def)

text \<open>Every call that finds the gate free returns and leaves it free.\<close>

lemma hardware_run:
  assumes "returns_later (cd_now d) f"
  obtains r w' where "f w = Some (r, w')" "cd_now d w \<le> cd_now d w'"
  using assms unfolding returns_later_def by blast

context service_driver
begin

lemma on_hardware_runs: "returns_later (cd_now d) f \<Longrightarrow> \<exists>q' sv'. on_hardware k sv (f w) = Some (q', sv')"
  by (erule hardware_run [of d f w]) (simp add: on_hardware_def)

lemma holder_runs: "in_gate q \<Longrightarrow> \<exists>q' sv'. thread_run d u q sv = Some (q', sv')"
proof (cases q)
  case (Holding c wait)
  then show ?thesis by (metis surj_pair thread_run.simps(3))
next
  case (Calling c wait st)
  then show ?thesis
    by (cases c) (simp_all add: on_hardware_runs protocol_major_returns sign_challenge_returns)
qed (simp_all add: on_hardware_runs read_certificate_returns split: prod.splits)

lemma certificate_call_returns:
  assumes "\<not> gt_token (sv_gate sv)"
  shows "\<exists>r sv'. service_call d u CallCertificate sv = Some (r, sv') \<and> \<not> gt_token (sv_gate sv')"
proof (cases "sv_certificate sv")
  case None
  obtain r w1 where pm: "cd_ProtocolMajor d (sv_world sv) = Some (r, w1)"
    by (rule hardware_run [OF protocol_major_returns])
  obtain q w2 where rc: "cd_ReadCertificate d w1 = Some (q, w2)"
    by (rule hardware_run [OF read_certificate_returns])
  show ?thesis
    using None assms pm rc
    by (cases r; cases q)
      (simp_all add: service_call_def numeral_eq_Suc run_thread_Suc Certificate_load_def gate_acquire_def
        on_hardware_def Certificate_store_def Let_def gate_release_def)
qed (simp add: cert_cached assms)

lemma probe_call_returns:
  assumes "\<not> gt_token (sv_gate sv)"
  shows "\<exists>r sv'. service_call d u CallProbe sv = Some (r, sv') \<and> \<not> gt_token (sv_gate sv')"
proof -
  obtain r w1 where pm: "cd_ProtocolMajor d (sv_world sv) = Some (r, w1)"
    by (rule hardware_run [OF protocol_major_returns])
  show ?thesis
    using assms pm
    by (cases r) (simp_all add: service_call_def numeral_eq_Suc run_thread_Suc gate_acquire_def
        on_hardware_def Let_def gate_release_def)
qed

lemma sign_call_spec:
  assumes gate: "\<not> gt_token (sv_gate sv)" and ttl: "sc_ttl (sv_cache sv) = cacheTTL"
  shows "\<exists>r e w' sv'. sign_spec d u rid ch (live_now d sv rid) (sv_world sv) = Some (r, e, w')
     \<and> service_call d u (CallSign rid ch) sv = Some (r, sv')
     \<and> sv_world sv' = w' \<and> \<not> gt_token (sv_gate sv') \<and> sv_certificate sv' = sv_certificate sv
     \<and> live_now d sv' rid = e
     \<and> (\<forall>k. k \<noteq> rid \<longrightarrow> live_now d sv' k = fst (cache_get (cd_now d w') k (sv_cache sv)))"
proof (cases "u rid \<and> ch \<noteq> [] \<and> length ch \<le> 128")
  case False
  then have "Sign_enter d u rid ch sv = (Some (Err (Sentinel
      (if u rid then ErrChallengeSize else ErrRequestIDFormat))), sv)"
    by (auto simp: Sign_enter_def)
  with False show ?thesis
    using gate by (auto simp: sign_spec_def service_call_def numeral_eq_Suc live_now_def sv_now_def)
next
  case True
  then have u: "u rid" and ne: "ch \<noteq> []" and le: "length ch \<le> 128" by auto
  show ?thesis
  proof (cases "live_now d sv rid")
    case (Some e)
    then show ?thesis
      using sign_hit [of u rid ch d sv e, OF u ne le Some] u ne le gate
      by (simp add: sign_spec_def live_now_def sv_now_def)
  next
    case None
    obtain r w' where m: "cd_SignChallenge d ch (sv_world sv) = Some (r, w')"
      and t: "cd_now d (sv_world sv) \<le> cd_now d w'"
      by (rule hardware_run [OF sign_challenge_returns])
    let ?c1 = "snd (cache_get (sv_now d sv) rid (sv_cache sv))"
    have c1: "fst (cache_get (cd_now d w') k ?c1) = fst (cache_get (cd_now d w') k (sv_cache sv))" for k
      using sigcache.live_after_get [of "sv_now d sv" "cd_now d w'" rid "sv_cache sv" k] t
      by (simp add: sigcache.live_def sv_now_def)
    have none: "fst (cache_get (cd_now d w') rid (sv_cache sv)) = None"
      using None t by (auto simp: live_now_def sv_now_def cache_get_def split: option.splits if_splits)
    have put: "fst (cache_get (cd_now d w') k (cache_put rid (entry_for d ch sig w') ?c1))
        = (if k = rid then Some (entry_for d ch sig w') else fst (cache_get (cd_now d w') k (sv_cache sv)))"
      for k sig
      using sigcache.live_after_put [of "cd_now d w'" rid "entry_for d ch sig w'" ?c1 k] c1 [of k]
      by (simp add: sigcache.live_def entry_for_def cacheTTL_def)
    show ?thesis
      using sign_miss [of u rid ch d sv, OF u ne le None gate ttl refl m] u ne le None m
      by (cases r) (simp_all add: sign_spec_def live_now_def c1 none put newChipGate_def)
  qed
qed

end

lemma spec_fresh:
  assumes "sign_spec d u rid ch cached w = Some (ReplySign r, e, w')" and "\<not> sr_Cached r"
  shows "u rid \<and> e = Some (entry_for d ch (sr_Signature r) w')"
proof -
  have "reply_of ReplySign (cachedResult x y) = ReplySign r \<Longrightarrow> sr_Cached r" for x y
    by (auto simp: cachedResult_def split: if_splits)
  with assms show ?thesis
    by (auto simp: sign_spec_def split: if_splits option.splits result.splits)
qed

section \<open>A run with two signatures for one id\<close>

definition test_entry :: signatureEntry where
  "test_entry = \<lparr>se_challengeDigest = sha256_Sum256 [1, 2], se_signature = [2, 1],
     se_expiresAt = 60000000001\<rparr>"

definition test_service1 :: "int service" where
  "test_service1 = \<lparr>sv_gate = newChipGate,
     sv_cache = \<lparr>sc_ttl = cacheTTL, sc_entries = [(''r'', test_entry)]\<rparr>,
     sv_certificate = None, sv_world = 1\<rparr>"

lemma test_driver_simps [simp]:
  "cd_ProtocolMajor test_driver w = Some (Ok 3, w + 1)"
  "cd_ReadCertificate test_driver w = Some (Ok [1, 2, 3], w + 1)"
  "cd_SignChallenge test_driver ch w = Some (Ok (rev ch), w + 1)"
  "cd_now test_driver w = w"
  by (simp_all add: test_driver_def)

lemmas run_eval = service_call_def numeral_eq_Suc run_thread_Suc Sign_enter_def Sign_lookup_def
  cache_get_def cache_put_def gate_acquire_def gate_release_def on_hardware_def Sign_store_def Let_def
  newSignatureCache_def newChipGate_def

lemma test_call1:
  "service_call test_driver (\<lambda>_. True) (CallSign ''r'' [1, 2]) test_service
     = Some (ReplySign \<lparr>sr_Signature = [2, 1], sr_Cached = False, sr_WaitDuration = 0,
         sr_ChipDuration = 1\<rparr>, test_service1)"
  "run_log 8 test_driver (\<lambda>_. True) (Entering (CallSign ''r'' [1, 2])) test_service
     = [\<lparr>sg_id = ''r'', sg_challenge = [1, 2], sg_signature = [2, 1], sg_started = 0,
         sg_expires = 60000000001\<rparr>]"
  by (simp_all add: run_eval test_service_def test_service1_def test_entry_def sv_now_def cacheTTL_def)

definition test_system1 :: "int system" where
  "test_system1 = \<lparr>sy_service = test_service1,
     sy_threads = [0 \<mapsto> (CallSign ''r'' [1, 2], Returned (ReplySign \<lparr>sr_Signature = [2, 1],
        sr_Cached = False, sr_WaitDuration = 0, sr_ChipDuration = 1\<rparr>))],
     sy_log = [\<lparr>sg_id = ''r'', sg_challenge = [1, 2], sg_signature = [2, 1], sg_started = 0,
         sg_expires = 60000000001\<rparr>]\<rparr>"

lemma test_system1_reach: "system_reach test_driver (\<lambda>_. True) test_system1"
  using service_call_reach [OF test_service_reach, of 0 "\<lambda>_. True" "CallSign ''r'' [1, 2]"]
  by (simp add: system_start_def test_call1 test_system1_def)

text \<open>One minute later the entry has expired and the chip signs again.\<close>

definition test_later :: "int system" where
  "test_later = test_system1\<lparr>sy_service := (sy_service test_system1)\<lparr>sv_world := 61000000000\<rparr>\<rparr>"

lemma test_later_reach: "system_reach test_driver (\<lambda>_. True) test_later"
  unfolding test_later_def
  by (rule system_reach.step [OF test_system1_reach], rule system_step.environment)
     (simp add: test_system1_def test_service1_def)

definition test_system2 :: "int system" where
  "test_system2 = test_later\<lparr>
     sy_service := snd (the (service_call test_driver (\<lambda>_. True) (CallSign ''r'' [1, 2]) (sy_service test_later))),
     sy_threads := (sy_threads test_later)(1 \<mapsto> (CallSign ''r'' [1, 2], Returned
       (fst (the (service_call test_driver (\<lambda>_. True) (CallSign ''r'' [1, 2]) (sy_service test_later)))))),
     sy_log := run_log 8 test_driver (\<lambda>_. True) (Entering (CallSign ''r'' [1, 2])) (sy_service test_later)
       @ sy_log test_later\<rparr>"

lemma test_call2:
  "\<exists>r sv. service_call test_driver (\<lambda>_. True) (CallSign ''r'' [1, 2]) (sy_service test_later) = Some (r, sv)"
  "run_log 8 test_driver (\<lambda>_. True) (Entering (CallSign ''r'' [1, 2])) (sy_service test_later)
     = [\<lparr>sg_id = ''r'', sg_challenge = [1, 2], sg_signature = [2, 1], sg_started = 61000000000,
         sg_expires = 121000000001\<rparr>]"
  by (simp_all add: run_eval test_later_def test_system1_def test_service1_def test_entry_def sv_now_def
      cacheTTL_def)

lemma test_system2_reach: "system_reach test_driver (\<lambda>_. True) test_system2"
proof -
  obtain r sv where c: "service_call test_driver (\<lambda>_. True) (CallSign ''r'' [1, 2]) (sy_service test_later)
      = Some (r, sv)" using test_call2(1) by blast
  have "sy_threads test_later 1 = None" by (simp add: test_later_def test_system1_def)
  from service_call_reach [OF test_later_reach this c] show ?thesis
    by (simp add: test_system2_def c)
qed

lemma test_system2_log: "sy_log test_system2 =
   [\<lparr>sg_id = ''r'', sg_challenge = [1, 2], sg_signature = [2, 1], sg_started = 61000000000,
     sg_expires = 121000000001\<rparr>,
    \<lparr>sg_id = ''r'', sg_challenge = [1, 2], sg_signature = [2, 1], sg_started = 0,
     sg_expires = 60000000001\<rparr>]"
  by (simp add: test_system2_def test_call2(2)) (simp add: test_later_def test_system1_def)

section \<open>The holder of the gate\<close>

text \<open>The gate names the call that is inside, and since when.\<close>

definition gate_named :: "'w chip_driver \<Rightarrow> 'w system \<Rightarrow> bool" where
  "gate_named d s \<longleftrightarrow>
     (\<forall>i c p. sy_threads s i = Some (c, p) \<longrightarrow> in_gate p \<longrightarrow>
        gt_holder (sv_gate (sy_service s)) = call_holder c
        \<and> (\<exists>t \<le> sv_now d (sy_service s). gt_acquired (sv_gate (sy_service s)) = Some t))
     \<and> (\<not> gt_token (sv_gate (sy_service s)) \<longrightarrow> gt_holder (sv_gate (sy_service s)) = [])"

lemma thread_run_holder:
  assumes "thread_run d u p sv = Some (p', sv')"
  shows "(in_gate p' = in_gate p \<and> sv_gate sv' = sv_gate sv)
     \<or> (\<exists>c st. p = Waiting c st \<and> \<not> gt_token (sv_gate sv) \<and> in_gate p'
          \<and> sv_gate sv' = \<lparr>gt_token = True, gt_holder = call_holder c, gt_acquired = Some (sv_now d sv)\<rparr>)
     \<or> (in_gate p \<and> \<not> in_gate p' \<and> sv_gate sv' = newChipGate)"
proof (cases p)
  case (Entering c)
  then show ?thesis using assms enter_gate [of d u c sv] by simp
next
  case (Holding c wait)
  then show ?thesis using assms recheck_gate [of d c wait sv] by simp
next
  case (Calling c wait st)
  then show ?thesis using assms by (cases c) (auto dest!: on_hardware_gate)
qed (use assms in \<open>auto simp: gate_acquire_def gate_release_def newChipGate_def Certificate_store_def
      Sign_store_def Let_def dest!: on_hardware_gate split: option.splits if_splits\<close>)

lemma gate_named_threads:
  assumes "gate_named d s" and "s' = s\<lparr>sy_threads := (sy_threads s)(i \<mapsto> (c, p))\<rparr>" and "\<not> in_gate p"
  shows "gate_named d s'"
  using assms by (auto simp: gate_named_def split: if_splits)

context service_driver
begin

lemma gate_named_run:
  assumes inv: "system_inv d s" and named: "gate_named d s" and th: "sy_threads s i = Some (c, p)"
    and run: "thread_run d u p (sy_service s) = Some (p', sv')"
    and s': "s' = s\<lparr>sy_service := sv', sy_threads := (sy_threads s)(i \<mapsto> (c, p')),
        sy_log := log_of d p (sy_service s) @ sy_log s\<rparr>"
  shows "gate_named d s'"
proof -
  have "step_ok d s c p p' s'" by (rule run_step [OF inv th run]) (simp_all add: s')
  then have now: "sv_now d (sy_service s) \<le> sv_now d sv'" by (simp add: step_ok_def evolves_def s')
  have own: "\<And>j c' q. sy_threads s j = Some (c', q) \<Longrightarrow> in_gate q \<Longrightarrow> gate_at s j"
    by (auto simp: gate_at_def)
  have ex: "\<And>j k. gate_at s j \<Longrightarrow> gate_at s k \<Longrightarrow> j = k" and tok: "gt_token (sv_gate (sy_service s)) \<longleftrightarrow> (\<exists>j. gate_at s j)"
    using inv by (auto simp: system_inv_def gate_inv_def)
  from thread_run_holder [OF run] consider
      (same) "in_gate p' = in_gate p" "sv_gate sv' = sv_gate (sy_service s)"
    | (taken) c' st where "p = Waiting c' st" "\<not> gt_token (sv_gate (sy_service s))" "in_gate p'"
        "sv_gate sv' = \<lparr>gt_token = True, gt_holder = call_holder c', gt_acquired = Some (sv_now d (sy_service s))\<rparr>"
    | (left) "in_gate p" "\<not> in_gate p'" "sv_gate sv' = newChipGate" by blast
  then show ?thesis
  proof cases
    case same
    have "gt_holder (sv_gate sv') = call_holder c2 \<and> (\<exists>t \<le> sv_now d sv'. gt_acquired (sv_gate sv') = Some t)"
      if j: "sy_threads s' j = Some (c2, q)" "in_gate q" for j c2 q
    proof -
      obtain q0 where "sy_threads s j = Some (c2, q0)" "in_gate q0"
        using j same(1) th by (auto simp: s' split: if_splits)
      then have "gt_holder (sv_gate (sy_service s)) = call_holder c2"
        "\<exists>t \<le> sv_now d (sy_service s). gt_acquired (sv_gate (sy_service s)) = Some t"
        using named by (simp_all add: gate_named_def)
      with now same(2) show ?thesis by fastforce
    qed
    then show ?thesis using named same(2) by (simp add: gate_named_def s')
  next
    case taken
    have "c' = c" using inv th taken(1) by (force simp: system_inv_def)
    moreover have "\<not> in_gate q" if "sy_threads s j = Some (c2, q)" for j c2 q
      using that own tok taken(2) by blast
    ultimately show ?thesis using taken now by (auto simp: gate_named_def s' split: if_splits)
  next
    case left
    have "\<not> in_gate q" if "sy_threads s j = Some (c2, q)" "j \<noteq> i" for j c2 q
      using that own ex th left(1) by blast
    then show ?thesis using left by (auto simp: gate_named_def s' newChipGate_def split: if_splits)
  qed
qed

lemma system_reach_named: "system_reach d u s \<Longrightarrow> gate_named d s"
proof (induction rule: system_reach.induct)
  case (start inspector w sv)
  then show ?case by (auto simp: NewService_def gate_named_def system_start_def newChipGate_def)
next
  case (step s s')
  have inv: "system_inv d s" by (rule system_reach_inv [OF step.hyps(1)])
  from step.hyps(2) show ?case
  proof cases
    case (run i c p p' sv')
    then show ?thesis by (intro gate_named_run [OF inv step.IH run(2,3)])
  next
    case (environment w)
    then show ?thesis using step.IH by (fastforce simp: gate_named_def sv_now_def)
  qed (use step.IH in \<open>auto elim: gate_named_threads\<close>)
qed

end

section \<open>Properties\<close>

text \<open>C19. Mutual exclusion: in every interleaving at most one call is between acquiring and
  releasing the gate, so the chip is never driven by two calls at once; the gate is marked
  taken exactly while such a call exists; and \<^verbatim>\<open>Runtime\<close> reports that call, with a time that is not
  negative, and no holder while there is none.\<close>

theorem gate_exclusive:
  assumes "service_driver d" and "system_reach d uuid_ok s"
  shows "(\<forall>i j. gate_at s i \<and> gate_at s j \<longrightarrow> i = j)
     \<and> (gt_token (sv_gate (sy_service s)) \<longleftrightarrow> (\<exists>i. gate_at s i))
     \<and> (\<forall>i c p. sy_threads s i = Some (c, p) \<and> in_gate p \<longrightarrow>
          rs_LockHolder (Runtime d (sy_service s)) = call_holder c)
     \<and> (rs_LockHolder (Runtime d (sy_service s)) \<noteq> [] \<longrightarrow> (\<exists>i. gate_at s i))
     \<and> 0 \<le> rs_LockHeld (Runtime d (sy_service s))"
proof -
  have n: "gate_named d s" by (rule service_driver.system_reach_named [OF assms])
  have g: "gate_inv s" using service_driver.system_reach_inv [OF assms] by (simp add: system_inv_def)
  have r: "rs_LockHolder (Runtime d (sy_service s)) = gt_holder (sv_gate (sy_service s))"
    "rs_LockHeld (Runtime d (sy_service s)) = (if gt_holder (sv_gate (sy_service s)) = [] then 0
       else sv_now d (sy_service s) - (case gt_acquired (sv_gate (sy_service s)) of None \<Rightarrow> 0 | Some t \<Rightarrow> t))"
    by (simp_all add: Runtime_def gate_status_def)
  have some: "\<exists>i c p. sy_threads s i = Some (c, p) \<and> in_gate p" if "gt_holder (sv_gate (sy_service s)) \<noteq> []"
    using that n g by (auto simp: gate_named_def gate_inv_def gate_at_def)
  then have held: "0 \<le> rs_LockHeld (Runtime d (sy_service s))"
    using n by (fastforce simp: r gate_named_def)
  show ?thesis
    using g n some held by (auto simp: r gate_named_def gate_inv_def gate_at_def)
qed

definition test_inside :: "int system" where
  "test_inside = (system_start test_service)\<lparr>
     sy_service := test_service\<lparr>sv_gate := \<lparr>gt_token = True, gt_holder = ''startup-probe'', gt_acquired = Some 0\<rparr>\<rparr>,
     sy_threads := [0 \<mapsto> (CallProbe, Holding CallProbe 0)]\<rparr>"

lemma test_inside_reach: "system_reach test_driver (\<lambda>_. True) test_inside"
proof -
  let ?s = "system_start test_service"
  have "system_reach test_driver (\<lambda>_. True) (?s\<lparr>sy_threads := [0 \<mapsto> (CallProbe, Entering CallProbe)]\<rparr>)"
    using system_reach.step [OF test_service_reach system_step.spawn [of ?s 0 _ _ CallProbe]]
    by (simp add: system_start_def)
  from system_reach.step [OF this system_step.run [of _ 0 CallProbe "Entering CallProbe" _ _
        "Waiting CallProbe 0" test_service]]
  have "system_reach test_driver (\<lambda>_. True) (?s\<lparr>sy_threads := [0 \<mapsto> (CallProbe, Waiting CallProbe 0)]\<rparr>)"
    by (simp add: system_start_def sv_now_def test_service_def)
  from system_reach.step [OF this system_step.run [of _ 0 CallProbe "Waiting CallProbe 0" _ _
        "Holding CallProbe 0" "sy_service test_inside"]]
  show ?thesis
    by (simp add: system_start_def sv_now_def test_service_def test_inside_def gate_acquire_def newChipGate_def)
qed

theorem gate_exclusive_witness:
  "gate_at test_inside 0
   \<and> rs_LockHolder (Runtime test_driver (sy_service test_inside)) = ''startup-probe''"
proof -
  have t: "sy_threads test_inside 0 = Some (CallProbe, Holding CallProbe 0)" by (simp add: test_inside_def)
  then have "rs_LockHolder (Runtime test_driver (sy_service test_inside)) = call_holder CallProbe"
    using gate_exclusive [OF test.service_driver_axioms test_inside_reach] by fastforce
  with t show ?thesis by (simp add: gate_at_def)
qed

text \<open>C20. The chip signs at most once per request id and lifetime: of two signatures for the same
  id, however the calls interleave, the later one was started only after the entry of the
  earlier one had expired. (The log is newest first.)\<close>

theorem signed_once_per_lifetime:
  assumes "service_driver d" and "system_reach d uuid_ok s"
    and "i < j" and "j < length (sy_log s)" and "sg_id (sy_log s ! i) = sg_id (sy_log s ! j)"
  shows "sg_expires (sy_log s ! j) < sg_started (sy_log s ! i)"
  using service_driver.system_reach_inv [OF assms(1,2)] assms(3-5)
  by (auto simp: system_inv_def log_inv_def sorted_wrt_iff_nth_less)

theorem signed_once_per_lifetime_witness:
  "sg_expires (sy_log test_system2 ! 1) < sg_started (sy_log test_system2 ! 0)"
  using signed_once_per_lifetime [OF test.service_driver_axioms test_system2_reach, of 0 1]
  by (simp add: test_system2_log)

text \<open>C21. Provenance: a signature that a call returns for a request id and a challenge was produced
  by the chip, for this request id, and for a challenge with the same SHA-256 digest.\<close>

theorem sign_replies_from_chip:
  assumes "service_driver d" and "system_reach d uuid_ok s"
    and "sy_threads s i = Some (CallSign requestID challenge, Returned (ReplySign r))"
  shows "\<exists>l \<in> set (sy_log s). sg_id l = requestID
     \<and> sha256_Sum256 (sg_challenge l) = sha256_Sum256 challenge
     \<and> sg_signature l = sr_Signature r \<and> chip_signed d (sg_challenge l) (sr_Signature r)"
proof -
  note inv = service_driver.system_reach_inv [OF assms(1,2)]
  then have "thread_ok d s (CallSign requestID challenge) (Returned (ReplySign r))"
    using assms(3) unfolding system_inv_def by blast
  then obtain l where l: "l \<in> set (sy_log s)" "sg_id l = requestID"
    "sha256_Sum256 (sg_challenge l) = sha256_Sum256 challenge" "sg_signature l = sr_Signature r" by auto
  moreover have "chip_signed d (sg_challenge l) (sg_signature l)"
    using inv l(1) by (simp add: system_inv_def log_inv_def)
  ultimately show ?thesis by force
qed

theorem sign_replies_from_chip_witness:
  "\<exists>l \<in> set (sy_log test_system1). sg_id l = ''r'' \<and> sg_signature l = [2, 1]
     \<and> chip_signed test_driver (sg_challenge l) [2, 1]"
  using sign_replies_from_chip [OF test.service_driver_axioms test_system1_reach, of 0 "''r''" "[1, 2]"]
  by (force simp: test_system1_def)

text \<open>C22. All certificate replies of a process agree, whenever and however concurrently they were
  requested: they carry the stored certificate, whose Base64 field decodes to its data and whose
  digest field is the SHA-256 of the data.\<close>

theorem certificate_replies_agree:
  assumes "service_driver d" and "system_reach d uuid_ok s"
    and "sy_threads s i = Some (c, Returned (ReplyCertificate a))"
    and "sy_threads s j = Some (c', Returned (ReplyCertificate b))"
  shows "same_certificate a b \<and> base64_DecodeString (ct_Base64 a) = Some (ct_Data a)
     \<and> ct_SHA256Hex a = hex_EncodeToString (sha256_Sum256 (ct_Data a)) \<and> length (ct_SHA256Hex a) = 64"
proof -
  note inv = service_driver.system_reach_inv [OF assms(1,2)]
  then have "thread_ok d s c (Returned (ReplyCertificate a))" "thread_ok d s c' (Returned (ReplyCertificate b))"
    using assms(3,4) unfolding system_inv_def by blast+
  then obtain st where st: "sv_certificate (sy_service s) = Some st" "same_certificate st a" "same_certificate st b"
    by auto
  then obtain pm data where "st = new_certificate pm data"
    using inv unfolding system_inv_def by blast
  then have a: "ct_Data a = data" "ct_Base64 a = base64_EncodeToString data"
    "ct_SHA256Hex a = hex_EncodeToString (sha256_Sum256 data)"
    using st(2) by (auto simp: same_certificate_def new_certificate_def)
  have "same_certificate a b" using st(2,3) by (simp add: same_certificate_def)
  then show ?thesis by (simp add: a base64_decode_encode)
qed

definition test_certified :: "int system" where
  "test_certified = (system_start test_service)\<lparr>
     sy_service := snd (the (service_call test_driver (\<lambda>_. True) CallCertificate test_service)),
     sy_threads := [0 \<mapsto> (CallCertificate, Returned
       (fst (the (service_call test_driver (\<lambda>_. True) CallCertificate test_service))))],
     sy_log := run_log 8 test_driver (\<lambda>_. True) (Entering CallCertificate) test_service\<rparr>"

lemma test_cert_call: "service_call test_driver (\<lambda>_. True) CallCertificate test_service
   = Some (ReplyCertificate ((new_certificate 3 [1, 2, 3])\<lparr>ct_WaitDuration := 0, ct_ChipDuration := 2\<rparr>),
      test_service\<lparr>sv_certificate := Some (new_certificate 3 [1, 2, 3]), sv_world := 2\<rparr>)"
  using cert_fresh [of test_service test_driver 3 1 "[1, 2, 3]" 2 "\<lambda>_. True"]
  by (simp add: test_service_def newChipGate_def)

lemma test_certified_reach: "system_reach test_driver (\<lambda>_. True) test_certified"
  using service_call_reach [OF test_service_reach, of 0 "\<lambda>_. True" CallCertificate]
  by (simp add: system_start_def test_certified_def test_cert_call)

theorem certificate_replies_agree_witness:
  "base64_DecodeString (ct_Base64 (new_certificate 3 [1, 2, 3])) = Some [1, 2, 3]"
  using certificate_replies_agree [OF test.service_driver_axioms test_certified_reach, of 0 _ _ 0]
  by (simp add: test_certified_def test_cert_call new_certificate_def)

context service_driver
begin

lemma system_progress:
  assumes "system_inv d s" and "sy_threads s i = Some (c, p)" and "\<And>r. p \<noteq> Returned r"
  shows "\<exists>j c' q q' sv'. sy_threads s j = Some (c', q) \<and> thread_run d u q (sy_service s) = Some (q', sv')"
proof (cases "in_gate p")
  case True
  then show ?thesis using holder_runs [of p u "sy_service s"] assms(2) by blast
next
  case False
  then consider (enter) c' where "p = Entering c'" | (wait) c' st where "p = Waiting c' st"
    using assms(3) by (cases p) auto
  then show ?thesis
  proof cases
    case enter
    then show ?thesis using assms(2) by (metis surj_pair thread_run.simps(1))
  next
    case wait
    show ?thesis
    proof (cases "gt_token (sv_gate (sy_service s))")
      case True
      then obtain j where "gate_at s j" using assms(1) by (auto simp: system_inv_def gate_inv_def)
      then show ?thesis using holder_runs unfolding gate_at_def by blast
    next
      case False
      then show ?thesis using assms(2) wait by (fastforce simp: gate_acquire_def)
    qed
  qed
qed

end

text \<open>C23. No deadlock: in every reachable state in which some call has not returned, some call can
  take its next step.\<close>

theorem service_progress:
  assumes "service_driver d" and "system_reach d uuid_ok s"
    and "sy_threads s i = Some (c, p)" and "\<And>r. p \<noteq> Returned r"
  shows "\<exists>j c' q q' sv'. sy_threads s j = Some (c', q) \<and> thread_run d uuid_ok q (sy_service s) = Some (q', sv')"
  by (rule service_driver.system_progress [OF assms(1) service_driver.system_reach_inv [OF assms(1,2)] assms(3,4)])

definition test_waiting :: "int system" where
  "test_waiting = (system_start test_service)\<lparr>sy_threads := [0 \<mapsto> (CallProbe, Entering CallProbe)]\<rparr>"

lemma test_waiting_reach: "system_reach test_driver u test_waiting"
  using system_reach.step [OF test_service_reach system_step.spawn, of 0 u CallProbe]
  by (simp add: test_waiting_def system_start_def)

theorem service_progress_witness:
  "\<exists>j c' q q' sv'. sy_threads test_waiting j = Some (c', q)
     \<and> thread_run test_driver (\<lambda>_. True) q (sy_service test_waiting) = Some (q', sv')"
  by (rule service_progress [OF test.service_driver_axioms test_waiting_reach, of 0 CallProbe "Entering CallProbe"])
     (simp_all add: test_waiting_def)

text \<open>C24. Refinement: \<^verbatim>\<open>Sign\<close>, run when the gate is free, always returns and does what the abstract
  specification \<open>sign_spec\<close> says about the reply, the hardware and the live cache entry of its id;
  it frees the gate, keeps the certificate, and leaves the live entries of all other ids alone.
  In particular a failed signature leaves no cache entry.\<close>

theorem Sign_refines_spec:
  assumes "service_driver d" and "\<not> gt_token (sv_gate sv)" and "sc_ttl (sv_cache sv) = cacheTTL"
  shows "\<exists>r e w' sv'. sign_spec d uuid_ok requestID challenge (live_now d sv requestID) (sv_world sv) = Some (r, e, w')
     \<and> service_call d uuid_ok (CallSign requestID challenge) sv = Some (r, sv')
     \<and> sv_world sv' = w' \<and> \<not> gt_token (sv_gate sv') \<and> sv_certificate sv' = sv_certificate sv
     \<and> live_now d sv' requestID = e
     \<and> (\<forall>k. k \<noteq> requestID \<longrightarrow> live_now d sv' k = fst (cache_get (cd_now d w') k (sv_cache sv)))"
  by (rule service_driver.sign_call_spec [OF assms])

theorem Sign_refines_spec_witness:
  "\<exists>r e w' sv'. sign_spec test_driver (\<lambda>_. True) ''r'' [1, 2] (live_now test_driver test_service ''r'') 0 = Some (r, e, w')
     \<and> service_call test_driver (\<lambda>_. True) (CallSign ''r'' [1, 2]) test_service = Some (r, sv')
     \<and> live_now test_driver sv' ''r'' = e"
proof -
  have "sv_world test_service = 0" "\<not> gt_token (sv_gate test_service)" "sc_ttl (sv_cache test_service) = cacheTTL"
    by (simp_all add: test_service_def newChipGate_def newSignatureCache_def)
  with Sign_refines_spec [OF test.service_driver_axioms, of test_service "\<lambda>_. True" "''r''" "[1, 2]"]
  show ?thesis by auto
qed

text \<open>C25. Idempotence: after a fresh signature, repeating the request within the cache lifetime
  returns the same signature, marked as cached, without any hardware access or other change; the
  same id with a challenge of another digest is refused.\<close>

theorem Sign_idempotent:
  assumes "service_driver d" and "\<not> gt_token (sv_gate sv)" and "sc_ttl (sv_cache sv) = cacheTTL"
    and "service_call d uuid_ok (CallSign requestID challenge) sv = Some (ReplySign r, sv')"
    and "\<not> sr_Cached r"
    and "sv2 = sv'\<lparr>sv_world := w2\<rparr>" and "cd_now d (sv_world sv') \<le> cd_now d w2"
    and "cd_now d w2 \<le> cd_now d (sv_world sv') + cacheTTL"
    and "1 \<le> length challenge2" and "length challenge2 \<le> 128"
  shows "service_call d uuid_ok (CallSign requestID challenge2) sv2 =
     Some (if sha256_Sum256 challenge2 = sha256_Sum256 challenge
           then ReplySign \<lparr>sr_Signature = sr_Signature r, sr_Cached = True, sr_WaitDuration = 0,
                  sr_ChipDuration = 0\<rparr>
           else ReplyError (Sentinel ErrRequestIDReuse), sv2)"
proof -
  obtain e where spec: "sign_spec d uuid_ok requestID challenge (live_now d sv requestID) (sv_world sv)
      = Some (ReplySign r, e, sv_world sv')" and live: "live_now d sv' requestID = e"
    using service_driver.sign_call_spec [OF assms(1-3), of uuid_ok requestID challenge] assms(4) by auto
  from spec_fresh [OF spec assms(5)]
  have e: "uuid_ok requestID" "e = Some (entry_for d challenge (sr_Signature r) (sv_world sv'))" by auto
  let ?e = "entry_for d challenge (sr_Signature r) (sv_world sv')"
  have "live_now d sv2 requestID = Some ?e"
    using sigcache.live_until_expiry [of "sv_now d sv'" "sv_cache sv'" requestID ?e "cd_now d w2"] live e(2) assms(7,8)
    by (simp add: sigcache.live_def live_now_def assms(6) sv_now_def entry_for_def)
  moreover have "challenge2 \<noteq> []" using assms(9) by auto
  ultimately show ?thesis
    using sign_hit [of uuid_ok requestID challenge2 d sv2 ?e] e(1) assms(10)
    by (auto simp: cachedResult_def entry_for_def)
qed

theorem Sign_idempotent_witness:
  "service_call test_driver (\<lambda>_. True) (CallSign ''r'' [1, 2]) (test_service1\<lparr>sv_world := 5\<rparr>)
     = Some (ReplySign \<lparr>sr_Signature = [2, 1], sr_Cached = True, sr_WaitDuration = 0, sr_ChipDuration = 0\<rparr>,
         test_service1\<lparr>sv_world := 5\<rparr>)"
proof -
  have "\<not> gt_token (sv_gate test_service)" "sc_ttl (sv_cache test_service) = cacheTTL"
    by (simp_all add: test_service_def newChipGate_def newSignatureCache_def)
  from Sign_idempotent [OF test.service_driver_axioms this test_call1(1) _ refl, of 5 "[1, 2]"]
  show ?thesis by (simp add: test_service1_def cacheTTL_def)
qed

text \<open>C26. The certificate is read from the chip once: a first call on a free gate returns what the
  chip holds and stores it, and from then on every call returns the stored certificate, marked as
  cached, without touching the gate or the hardware.\<close>

theorem Certificate_read_once:
  assumes "sv_certificate sv = None" and "\<not> gt_token (sv_gate sv)"
    and "cd_ProtocolMajor d (sv_world sv) = Some (Ok protocolMajor, w1)"
    and "cd_ReadCertificate d w1 = Some (Ok data, w2)"
  shows "\<exists>c sv'. service_call d uuid_ok CallCertificate sv = Some (ReplyCertificate c, sv')
     \<and> ct_ProtocolMajor c = protocolMajor \<and> ct_Data c = data \<and> \<not> ct_Cached c \<and> sv_world sv' = w2
     \<and> \<not> gt_token (sv_gate sv')
     \<and> (\<forall>g ca w. service_call d uuid_ok CallCertificate (sv'\<lparr>sv_gate := g, sv_cache := ca, sv_world := w\<rparr>)
          = Some (ReplyCertificate ((new_certificate protocolMajor data)\<lparr>ct_Cached := True\<rparr>),
              sv'\<lparr>sv_gate := g, sv_cache := ca, sv_world := w\<rparr>))"
proof (intro exI conjI allI)
  fix g ca w
  show "service_call d uuid_ok CallCertificate (sv\<lparr>sv_gate := newChipGate,
        sv_certificate := Some (new_certificate protocolMajor data), sv_world := w2\<rparr>\<lparr>sv_gate := g, sv_cache := ca, sv_world := w\<rparr>)
      = Some (ReplyCertificate ((new_certificate protocolMajor data)\<lparr>ct_Cached := True\<rparr>),
          sv\<lparr>sv_gate := newChipGate,
        sv_certificate := Some (new_certificate protocolMajor data), sv_world := w2\<rparr>\<lparr>sv_gate := g, sv_cache := ca, sv_world := w\<rparr>)"
    by (rule cert_cached) simp
qed (use cert_fresh [OF assms] in \<open>auto simp: new_certificate_def newChipGate_def\<close>)

theorem Certificate_read_once_witness:
  "\<exists>c sv'. service_call test_driver (\<lambda>_. True) CallCertificate test_service = Some (ReplyCertificate c, sv')
     \<and> ct_Data c = [1, 2, 3] \<and> sv_world sv' = 2"
  using Certificate_read_once [of test_service test_driver 3 1 "[1, 2, 3]" 2 "\<lambda>_. True"]
  by (auto simp: test_service_def newChipGate_def)

end
