(* ===== verification/Recent.thy ===== *)
theory Recent
  imports UsbModel
begin

text \<open>
  The ring buffer of recent requests, internal/httpapi/recent.go, and its refinement to the
  list of the newest requests. The mutex makes every operation atomic. The rendered time of an
  entry is an argument, since time zones and formatting belong to the Go runtime.
\<close>

record RecentRequest =
  rr_Time :: string
  rr_Method :: string
  rr_Path :: string
  rr_Status :: int
  rr_Millis :: int
  rr_Note :: string

record recentStore =
  rc_capacity :: nat
  rc_entries :: "RecentRequest list"
  rc_next :: nat
  rc_full :: bool

definition emptyRequest :: RecentRequest where
  "emptyRequest = \<lparr>rr_Time = [], rr_Method = [], rr_Path = [], rr_Status = 0, rr_Millis = 0, rr_Note = []\<rparr>"

definition newRecentStore :: "nat \<Rightarrow> recentStore" where
  "newRecentStore capacity =
     \<lparr>rc_capacity = capacity, rc_entries = replicate capacity emptyRequest, rc_next = 0, rc_full = False\<rparr>"

text \<open>\<^verbatim>\<open>duration.Milliseconds()\<close> truncates.\<close>

definition milliseconds :: "int \<Rightarrow> int" where
  "milliseconds duration = go_div duration 1000000"

definition recent_entry :: "string \<Rightarrow> string \<Rightarrow> string \<Rightarrow> int \<Rightarrow> int \<Rightarrow> string \<Rightarrow> RecentRequest" where
  "recent_entry time method path status duration note =
     \<lparr>rr_Time = time, rr_Method = method, rr_Path = path, rr_Status = status,
      rr_Millis = milliseconds duration, rr_Note = note\<rparr>"

text \<open>An index outside the slice panics; with capacity 0 the first \<^verbatim>\<open>add\<close> does.\<close>

definition recent_add :: "RecentRequest \<Rightarrow> recentStore \<Rightarrow> recentStore result" where
  "recent_add entry s =
     (if rc_next s \<ge> length (rc_entries s) then Panic
      else
        let next = (rc_next s + 1) mod rc_capacity s
        in Ok (s\<lparr>rc_entries := (rc_entries s)[rc_next s := entry], rc_next := next,
                 rc_full := (if next = 0 then True else rc_full s)\<rparr>))"

function newest_loop :: "recentStore \<Rightarrow> nat \<Rightarrow> nat \<Rightarrow> RecentRequest list \<Rightarrow> RecentRequest list result" where
  "newest_loop s count offset acc =
     (if offset < count
      then
        let index0 = int (rc_next s) - 1 - int offset;
            index = (if index0 < 0 then index0 + int (rc_capacity s) else index0)
        in if index < 0 \<or> index \<ge> int (length (rc_entries s)) then Panic
           else newest_loop s count (offset + 1) (acc @ [rc_entries s ! nat index])
      else Ok acc)"
  by pat_completeness auto
termination
  by (relation "measure (\<lambda>(s, count, offset, acc). count - offset)") auto

declare newest_loop.simps [simp del]

definition listNewestFirst :: "recentStore \<Rightarrow> RecentRequest list result" where
  "listNewestFirst s =
     (let count = (if rc_full s then rc_capacity s else rc_next s) in newest_loop s count 0 [])"

section \<open>The buffer as a list\<close>

text \<open>\<open>holds_newest h s\<close>: \<open>h\<close>, newest first, is the history of all requests ever added to \<open>s\<close>; the
  request added as number \<open>m\<close> is in slot \<open>m mod capacity\<close>.\<close>

definition holds_newest :: "RecentRequest list \<Rightarrow> recentStore \<Rightarrow> bool" where
  "holds_newest h s \<longleftrightarrow>
     0 < rc_capacity s \<and> length (rc_entries s) = rc_capacity s
     \<and> rc_next s = length h mod rc_capacity s \<and> (rc_full s \<longleftrightarrow> rc_capacity s \<le> length h)
     \<and> (\<forall>j < min (length h) (rc_capacity s).
          rc_entries s ! ((length h - 1 - j) mod rc_capacity s) = h ! j)"

lemma holds_newest_new: "0 < capacity \<Longrightarrow> holds_newest [] (newRecentStore capacity)"
  by (simp add: holds_newest_def newRecentStore_def)

lemma slot_distinct:
  fixes n j c :: nat
  assumes "1 \<le> j" and "j \<le> n" and "j < c"
  shows "(n - j) mod c \<noteq> n mod c"
proof
  assume "(n - j) mod c = n mod c"
  then have "n mod c = (n - j) mod c" by simp
  then have "c dvd n - (n - j)" using mod_eq_dvd_iff_nat [of "n - j" n c] by simp
  then show False using assms by (auto dest: dvd_imp_le)
qed

lemma recent_add_holds:
  assumes h: "holds_newest h s"
  shows "\<exists>s'. recent_add e s = Ok s' \<and> holds_newest (e # h) s' \<and> rc_capacity s' = rc_capacity s"
proof -
  let ?c = "rc_capacity s" and ?n = "length h"
  have c: "0 < ?c" "length (rc_entries s) = ?c" "rc_next s = ?n mod ?c" "rc_full s \<longleftrightarrow> ?c \<le> ?n"
    using h by (simp_all add: holds_newest_def)
  let ?s' = "s\<lparr>rc_entries := (rc_entries s)[?n mod ?c := e], rc_next := (?n + 1) mod ?c,
      rc_full := (if (?n + 1) mod ?c = 0 then True else rc_full s)\<rparr>"
  have ok: "recent_add e s = Ok ?s'"
    using c mod_less_divisor [OF c(1), of ?n] by (simp add: recent_add_def Let_def mod_Suc_eq)
  have full: "(if (?n + 1) mod ?c = 0 then True else rc_full s) \<longleftrightarrow> ?c \<le> ?n + 1"
  proof (cases "(?n + 1) mod ?c = 0")
    case True
    then show ?thesis using c(1) by (metis add_gr_0 dvd_imp_le less_numeral_extra(1) mod_eq_0_iff_dvd)
  next
    case False
    then have "?c \<noteq> ?n + 1" by auto
    then show ?thesis using False c(4) by auto
  qed
  have ent: "((rc_entries s)[?n mod ?c := e]) ! ((length (e # h) - 1 - j) mod ?c) = (e # h) ! j"
    if j: "j < min (length (e # h)) ?c" for j
  proof (cases j)
    case 0
    then show ?thesis using c by simp
  next
    case (Suc k)
    have k: "k < min ?n ?c" using j Suc by simp
    have "(?n - j) mod ?c \<noteq> ?n mod ?c" using j Suc by (intro slot_distinct) auto
    moreover have "rc_entries s ! ((?n - 1 - k) mod ?c) = h ! k" using h k by (simp add: holds_newest_def)
    ultimately show ?thesis using Suc by simp
  qed
  have "holds_newest (e # h) ?s'"
    unfolding holds_newest_def using c full ent by simp
  with ok show ?thesis by auto
qed

lemma newest_loop_holds:
  assumes h: "holds_newest h s" and cnt: "count = min (length h) (rc_capacity s)"
  shows "offset \<le> count \<Longrightarrow> newest_loop s count offset acc = Ok (acc @ drop offset (take count h))"
proof (induction "count - offset" arbitrary: offset acc)
  case 0
  then show ?case by (simp add: newest_loop.simps [of s])
next
  case (Suc m)
  let ?c = "rc_capacity s" and ?n = "length h"
  have c: "0 < ?c" "length (rc_entries s) = ?c" "rc_next s = ?n mod ?c"
    using h by (simp_all add: holds_newest_def)
  have off: "offset < count" using Suc.hyps(2) by simp
  then have o: "offset < ?n" "offset < ?c" using cnt by simp_all
  define index0 where "index0 = int (?n mod ?c) - 1 - int offset"
  have idx: "(if index0 < 0 then index0 + int ?c else index0) = int ((?n - 1 - offset) mod ?c)"
  proof -
    have "int (?n - 1 - offset) = int ?n - 1 - int offset" using o by simp
    then have "int ((?n - 1 - offset) mod ?c) = (int ?n - 1 - int offset) mod int ?c"
      by (simp add: zmod_int)
    also have "\<dots> = index0 mod int ?c"
      unfolding index0_def zmod_int by (simp add: mod_simps diff_diff_eq)
    also have "\<dots> = (if index0 < 0 then index0 + int ?c else index0)"
    proof (cases "index0 < 0")
      case True
      have "- int ?c \<le> index0" using o by (simp add: index0_def)
      with True have "(index0 + int ?c) mod int ?c = index0 + int ?c" by (intro mod_pos_pos_trivial) simp_all
      then show ?thesis using True by simp
    next
      case False
      moreover have "index0 < int ?c" using mod_less_divisor [OF c(1), of ?n] unfolding index0_def by linarith
      ultimately show ?thesis by simp
    qed
    finally show ?thesis by simp
  qed
  have el: "rc_entries s ! ((?n - 1 - offset) mod ?c) = h ! offset"
    using h off cnt by (simp add: holds_newest_def)
  have lt: "\<not> ?c \<le> (?n - Suc offset) mod ?c"
    using mod_less_divisor [OF c(1), of "?n - Suc offset"] by (simp only: not_le)
  have "newest_loop s count offset acc = newest_loop s count (offset + 1) (acc @ [h ! offset])"
    using off idx el c lt
    by (subst newest_loop.simps) (simp add: Let_def c(3) flip: index0_def)
  also have "\<dots> = Ok ((acc @ [h ! offset]) @ drop (offset + 1) (take count h))"
    using Suc.hyps off by (intro Suc.hyps(1)) auto
  also have "[h ! offset] @ drop (offset + 1) (take count h) = drop offset (take count h)"
    using off o Cons_nth_drop_Suc [of offset "take count h"] cnt by simp
  then have "(acc @ [h ! offset]) @ drop (offset + 1) (take count h) = acc @ drop offset (take count h)"
    by simp
  finally show ?case .
qed

lemma listNewestFirst_holds:
  assumes "holds_newest h s"
  shows "listNewestFirst s = Ok (take (rc_capacity s) h)"
proof -
  have "(if rc_full s then rc_capacity s else rc_next s) = min (length h) (rc_capacity s)"
    using assms by (auto simp: holds_newest_def)
  moreover have "take (min (length h) (rc_capacity s)) h = take (rc_capacity s) h"
    by (simp add: min_def)
  ultimately show ?thesis
    using newest_loop_holds [OF assms refl, of 0 "[]"] by (simp add: listNewestFirst_def Let_def)
qed

section \<open>Properties\<close>

fun add_all :: "RecentRequest list \<Rightarrow> recentStore \<Rightarrow> recentStore result" where
  "add_all [] s = Ok s"
| "add_all (e # es) s = (case recent_add e s of Ok s' \<Rightarrow> add_all es s' | Err x \<Rightarrow> Err x | Panic \<Rightarrow> Panic)"

lemma add_all_holds:
  "holds_newest h s \<Longrightarrow> \<exists>s'. add_all es s = Ok s' \<and> holds_newest (rev es @ h) s' \<and> rc_capacity s' = rc_capacity s"
proof (induction es arbitrary: h s)
  case (Cons e es)
  obtain s1 where s1: "recent_add e s = Ok s1" "holds_newest (e # h) s1" "rc_capacity s1 = rc_capacity s"
    using recent_add_holds [OF Cons.prems] by blast
  from Cons.IH [OF s1(2)] s1 show ?case by simp
qed simp

text \<open>C27. The ring buffer refines the list of the newest requests: after any sequence of requests, no
  operation has panicked and the listing is the last \<open>capacity\<close> requests, newest first.\<close>

theorem recent_lists_newest:
  assumes "0 < capacity"
  shows "\<exists>s. add_all requests (newRecentStore capacity) = Ok s
     \<and> listNewestFirst s = Ok (take capacity (rev requests))"
  using add_all_holds [OF holds_newest_new [OF assms], of requests] listNewestFirst_holds
  by (fastforce simp: newRecentStore_def)

theorem recent_lists_newest_witness:
  "\<exists>s. add_all [emptyRequest, emptyRequest\<lparr>rr_Status := 1\<rparr>, emptyRequest\<lparr>rr_Status := 2\<rparr>] (newRecentStore 2) = Ok s
     \<and> listNewestFirst s = Ok [emptyRequest\<lparr>rr_Status := 2\<rparr>, emptyRequest\<lparr>rr_Status := 1\<rparr>]"
  using recent_lists_newest [of 2 "[emptyRequest, emptyRequest\<lparr>rr_Status := 1\<rparr>, emptyRequest\<lparr>rr_Status := 2\<rparr>]"]
  by simp

end
