(* ===== verification/GoStrings.thy ===== *)
theory GoStrings
  imports Prelude
begin

text \<open>
  The functions of the Go packages \<^verbatim>\<open>strings\<close>, \<^verbatim>\<open>strconv\<close> and \<^verbatim>\<open>net\<close> that the program calls. Strings are
  byte strings in UTF-8, as in Go; a failed parse is \<open>None\<close>.
\<close>

section \<open>Package strings\<close>

text \<open>\<^verbatim>\<open>strings.Split\<close> with a one-byte separator: always at least one part.\<close>

fun strings_Split :: "string \<Rightarrow> char \<Rightarrow> string list" where
  "strings_Split [] sep = [[]]"
| "strings_Split (c # cs) sep =
     (if c = sep then [] # strings_Split cs sep
      else case strings_Split cs sep of [] \<Rightarrow> [[c]] | p # ps \<Rightarrow> (c # p) # ps)"

fun has_prefix :: "string \<Rightarrow> string \<Rightarrow> bool" where
  "has_prefix s [] = True"
| "has_prefix [] (p # ps) = False"
| "has_prefix (c # cs) (p # ps) = (c = p \<and> has_prefix cs ps)"

definition strings_TrimPrefix :: "string \<Rightarrow> string \<Rightarrow> string" where
  "strings_TrimPrefix s p = (if has_prefix s p then drop (length p) s else s)"

fun strings_Contains :: "string \<Rightarrow> string \<Rightarrow> bool" where
  "strings_Contains [] sub = (sub = [])"
| "strings_Contains (c # cs) sub = (has_prefix (c # cs) sub \<or> strings_Contains cs sub)"

text \<open>The white space of \<^verbatim>\<open>unicode.IsSpace\<close>, in UTF-8.\<close>

definition space_seqs :: "string list" where
  "space_seqs =
     [[CHR 0x09], [CHR 0x0A], [CHR 0x0B], [CHR 0x0C], [CHR 0x0D], [CHR 0x20],
      [CHR 0xC2, CHR 0x85], [CHR 0xC2, CHR 0xA0], [CHR 0xE1, CHR 0x9A, CHR 0x80],
      [CHR 0xE2, CHR 0x80, CHR 0x80], [CHR 0xE2, CHR 0x80, CHR 0x81], [CHR 0xE2, CHR 0x80, CHR 0x82],
      [CHR 0xE2, CHR 0x80, CHR 0x83], [CHR 0xE2, CHR 0x80, CHR 0x84], [CHR 0xE2, CHR 0x80, CHR 0x85],
      [CHR 0xE2, CHR 0x80, CHR 0x86], [CHR 0xE2, CHR 0x80, CHR 0x87], [CHR 0xE2, CHR 0x80, CHR 0x88],
      [CHR 0xE2, CHR 0x80, CHR 0x89], [CHR 0xE2, CHR 0x80, CHR 0x8A], [CHR 0xE2, CHR 0x80, CHR 0xA8],
      [CHR 0xE2, CHR 0x80, CHR 0xA9], [CHR 0xE2, CHR 0x80, CHR 0xAF], [CHR 0xE2, CHR 0x81, CHR 0x9F],
      [CHR 0xE3, CHR 0x80, CHR 0x80]]"

function trim_left :: "string list \<Rightarrow> string \<Rightarrow> string" where
  "trim_left seqs s =
     (case find (\<lambda>p. p \<noteq> [] \<and> has_prefix s p) seqs of
        None \<Rightarrow> s
      | Some p \<Rightarrow> if s = [] then s else trim_left seqs (drop (length p) s))"
  by pat_completeness auto
termination
  by (relation "measure (\<lambda>(seqs, s). length s)") (auto simp: find_Some_iff)

declare trim_left.simps [simp del]

definition strings_TrimSpace :: "string \<Rightarrow> string" where
  "strings_TrimSpace s = rev (trim_left (map rev space_seqs) (rev (trim_left space_seqs s)))"

text \<open>\<^verbatim>\<open>strings.ToLower\<close> as far as comparisons with ASCII words can see: ASCII letters, and the two
  non-ASCII letters whose lower case is ASCII (U+0130 and U+212A). Other non-ASCII bytes stay
  non-ASCII.\<close>

definition lower_char :: "char \<Rightarrow> char" where
  "lower_char c =
     (if 0x41 \<le> (of_char c :: nat) \<and> (of_char c :: nat) \<le> 0x5A then char_of ((of_char c :: nat) + 0x20) else c)"

fun strings_ToLower :: "string \<Rightarrow> string" where
  "strings_ToLower [] = []"
| "strings_ToLower (c # cs) =
     (if has_prefix (c # cs) [CHR 0xC4, CHR 0xB0] then CHR ''i'' # strings_ToLower (drop 1 cs)
      else if has_prefix (c # cs) [CHR 0xE2, CHR 0x84, CHR 0xAA] then CHR ''k'' # strings_ToLower (drop 2 cs)
      else lower_char c # strings_ToLower cs)"

section \<open>Package strconv\<close>

text \<open>\<^verbatim>\<open>lower\<close> of strconv sets bit 5 of a byte.\<close>

definition lower_bit :: "char \<Rightarrow> nat" where
  "lower_bit c = (of_char c :: nat) OR 0x20"

definition digit_value :: "char \<Rightarrow> nat option" where
  "digit_value c =
     (let n = of_char c :: nat
      in if 0x30 \<le> n \<and> n \<le> 0x39 then Some (n - 0x30)
         else if 0x61 \<le> lower_bit c \<and> lower_bit c \<le> 0x7A then Some (lower_bit c - 0x61 + 10)
         else None)"

text \<open>The digits of a number, underscores skipped if \<open>base0\<close>. Range and syntax errors are both
  \<open>None\<close>; they are not told apart by the callers.\<close>

fun parse_digits :: "bool \<Rightarrow> nat \<Rightarrow> nat \<Rightarrow> nat \<Rightarrow> string \<Rightarrow> nat option" where
  "parse_digits base0 base maxVal n [] = Some n"
| "parse_digits base0 base maxVal n (c # cs) =
     (if c = CHR ''_'' \<and> base0 then parse_digits base0 base maxVal n cs
      else case digit_value c of
        None \<Rightarrow> None
      | Some v \<Rightarrow>
          if v \<ge> base \<or> n * base + v > maxVal then None
          else parse_digits base0 base maxVal (n * base + v) cs)"

datatype saw = SawStart | SawDigit | SawUnderscore | SawOther

definition is_number_char :: "bool \<Rightarrow> char \<Rightarrow> bool" where
  "is_number_char hex c \<longleftrightarrow>
     0x30 \<le> (of_char c :: nat) \<and> (of_char c :: nat) \<le> 0x39 \<or> hex \<and> 0x61 \<le> lower_bit c \<and> lower_bit c \<le> 0x66"

fun underscore_loop :: "bool \<Rightarrow> saw \<Rightarrow> string \<Rightarrow> bool" where
  "underscore_loop hex sw [] = (sw \<noteq> SawUnderscore)"
| "underscore_loop hex sw (c # cs) =
     (if is_number_char hex c then underscore_loop hex SawDigit cs
      else if c = CHR ''_'' then sw = SawDigit \<and> underscore_loop hex SawUnderscore cs
      else sw \<noteq> SawUnderscore \<and> underscore_loop hex SawOther cs)"

definition base_letter :: "char \<Rightarrow> nat option" where
  "base_letter c =
     (if lower_bit c = 0x62 then Some 2 else if lower_bit c = 0x6F then Some 8
      else if lower_bit c = 0x78 then Some 16 else None)"

definition underscoreOK :: "string \<Rightarrow> bool" where
  "underscoreOK s0 =
     (let s = (case s0 of c # cs \<Rightarrow> if c = CHR ''-'' \<or> c = CHR ''+'' then cs else s0 | [] \<Rightarrow> [])
      in case s of
           c # d # rest \<Rightarrow>
             if c = CHR ''0'' \<and> base_letter d \<noteq> None
             then underscore_loop (lower_bit d = 0x78) SawDigit rest
             else underscore_loop False SawStart s
         | _ \<Rightarrow> underscore_loop False SawStart s)"

text \<open>The base and the digits of \<^verbatim>\<open>ParseUint(s, 0, bits)\<close>.\<close>

definition base_prefix :: "string \<Rightarrow> nat \<times> string" where
  "base_prefix s =
     (case s of
        c # rest \<Rightarrow>
          if c = CHR ''0''
          then (case rest of
                  d # e # rest' \<Rightarrow>
                    (case base_letter d of Some b \<Rightarrow> (b, e # rest') | None \<Rightarrow> (8, rest))
                | _ \<Rightarrow> (8, rest))
          else (10, s)
      | [] \<Rightarrow> (10, s))"

definition strconv_ParseUint :: "string \<Rightarrow> nat \<Rightarrow> nat \<Rightarrow> nat option" where
  "strconv_ParseUint s base bits =
     (if s = [] then None
      else
        let base0 = (base = 0);
            (b, digits) = (if base0 then base_prefix s else (base, s))
        in case parse_digits base0 b (2 ^ bits - 1) 0 digits of
             None \<Rightarrow> None
           | Some n \<Rightarrow>
               if base0 \<and> CHR ''_'' \<in> set digits \<and> \<not> underscoreOK s then None else Some n)"

text \<open>\<^verbatim>\<open>strconv.ParseInt(s, 0, 64)\<close>, as an \<^verbatim>\<open>IntVar\<close> flag uses it.\<close>

definition strconv_ParseInt64 :: "string \<Rightarrow> int option" where
  "strconv_ParseInt64 s =
     (case s of
        [] \<Rightarrow> None
      | c # cs \<Rightarrow>
          let neg = (c = CHR ''-''); t = (if c = CHR ''+'' \<or> neg then cs else s)
          in case strconv_ParseUint t 0 64 of
               None \<Rightarrow> None
             | Some n \<Rightarrow>
                 if \<not> neg \<and> n \<ge> 2 ^ 63 then None
                 else if neg \<and> n > 2 ^ 63 then None
                 else Some (if neg then - int n else int n))"

definition strconv_ParseBool :: "string \<Rightarrow> bool option" where
  "strconv_ParseBool s =
     (if s \<in> {''1'', ''t'', ''T'', ''TRUE'', ''true'', ''True''} then Some True
      else if s \<in> {''0'', ''f'', ''F'', ''FALSE'', ''false'', ''False''} then Some False
      else None)"

section \<open>Package net\<close>

fun index_char :: "char \<Rightarrow> string \<Rightarrow> nat option" where
  "index_char x [] = None"
| "index_char x (c # cs) = (if c = x then Some 0 else map_option Suc (index_char x cs))"

definition last_index_char :: "char \<Rightarrow> string \<Rightarrow> nat option" where
  "last_index_char x s = map_option (\<lambda>i. length s - 1 - i) (index_char x (rev s))"

text \<open>\<^verbatim>\<open>net.SplitHostPort\<close>: the host and the port, or an error.\<close>

definition net_SplitHostPort :: "string \<Rightarrow> (string \<times> string) option" where
  "net_SplitHostPort hostport =
     (case last_index_char (CHR '':'') hostport of
        None \<Rightarrow> None
      | Some i \<Rightarrow>
          let split =
            (if has_prefix hostport ''[''
             then (case index_char (CHR '']'') hostport of
                     None \<Rightarrow> None
                   | Some e \<Rightarrow>
                       if e + 1 = length hostport then None
                       else if e + 1 = i then Some (drop 1 (take e hostport), 1, e + 1)
                       else None)
             else let host = take i hostport
                  in if CHR '':'' \<in> set host then None else Some (host, 0, 0))
          in case split of
               None \<Rightarrow> None
             | Some (host, j, k) \<Rightarrow>
                 if CHR ''['' \<in> set (drop j hostport) \<or> CHR '']'' \<in> set (drop k hostport) then None
                 else Some (host, drop (i + 1) hostport))"

section \<open>Lemmas\<close>

lemma has_prefix_append: "has_prefix (p @ s) p"
  by (induction p) auto

lemma has_prefix_iff: "has_prefix s p \<longleftrightarrow> take (length p) s = p"
  by (induction s p rule: has_prefix.induct) auto

lemma strings_Split_nonempty [simp]: "strings_Split s sep \<noteq> []"
  by (cases s) (auto split: list.splits)

lemma strings_Split_no_sep: "sep \<notin> set s \<Longrightarrow> strings_Split s sep = [s]"
  by (induction s) (auto split: list.splits)

lemma strings_Split_append:
  "sep \<notin> set s \<Longrightarrow> strings_Split (s @ sep # t) sep = s # strings_Split t sep"
  by (induction s) auto

lemma parse_digits_bound: "parse_digits b0 base mx n s = Some v \<Longrightarrow> n \<le> mx \<Longrightarrow> v \<le> mx"
  by (induction b0 base mx n s rule: parse_digits.induct) (auto split: if_splits option.splits)

lemma strconv_ParseUint_bound: "strconv_ParseUint s base bits = Some v \<Longrightarrow> v < 2 ^ bits"
proof -
  assume "strconv_ParseUint s base bits = Some v"
  then obtain b0 b ds where "parse_digits b0 b (2 ^ bits - 1) 0 ds = Some v"
    by (auto simp: strconv_ParseUint_def Let_def split: if_splits option.splits prod.splits)
  from parse_digits_bound [OF this] have "v \<le> 2 ^ bits - 1" by simp
  moreover have "(1 :: nat) \<le> 2 ^ bits" by simp
  ultimately show ?thesis by linarith
qed

end
