(* ===== verification/JsonDecode.thy ===== *)
theory JsonDecode
  imports GoStrings
begin

unbundle bit_operations_syntax

text \<open>
  \<^verbatim>\<open>decodeJSON\<close> of internal/httpapi/server.go for the one type it is used with, \<^verbatim>\<open>signRequest\<close>:
  encoding/json with \<^verbatim>\<open>DisallowUnknownFields\<close>, exactly one value, and a body of at most 64 KiB.

  Both fields are strings, so every body that decodes is either \<open>null\<close> or an object whose members
  carry one of the two field names and a string or \<open>null\<close>; any other value, at the top or in a
  member, is an error (a syntax error, a type error or an unknown field). Strings are unquoted as
  the library does it: escapes, surrogate pairs, and U+FFFD for invalid input. Field names match
  exactly or up to case folding; the last occurrence of a field wins.
\<close>

section \<open>UTF-8\<close>

definition byte_of :: "char \<Rightarrow> nat" where
  "byte_of c = of_char c"

definition continuation :: "char \<Rightarrow> bool" where
  "continuation c \<longleftrightarrow> 0x80 \<le> byte_of c \<and> byte_of c \<le> 0xBF"

text \<open>The number of bytes of a well-formed non-ASCII rune at the head of a string.\<close>

fun rune_length :: "string \<Rightarrow> nat option" where
  "rune_length (a # b # rest) =
     (let x = byte_of a; y = byte_of b
      in if 0xC2 \<le> x \<and> x \<le> 0xDF then if continuation b then Some 2 else None
         else
           (case rest of
              c # rest' \<Rightarrow>
                if 0xE0 \<le> x \<and> x \<le> 0xEF
                then if continuation b \<and> continuation c \<and> (x = 0xE0 \<longrightarrow> 0xA0 \<le> y) \<and> (x = 0xED \<longrightarrow> y \<le> 0x9F)
                     then Some 3 else None
                else if 0xF0 \<le> x \<and> x \<le> 0xF4
                then (case rest' of
                        d # _ \<Rightarrow>
                          if continuation b \<and> continuation c \<and> continuation d
                             \<and> (x = 0xF0 \<longrightarrow> 0x90 \<le> y) \<and> (x = 0xF4 \<longrightarrow> y \<le> 0x8F)
                          then Some 4 else None
                      | [] \<Rightarrow> None)
                else None
            | [] \<Rightarrow> None))"
| "rune_length _ = None"

definition encode_rune :: "nat \<Rightarrow> string" where
  "encode_rune r =
     (if r < 0x80 then [char_of r]
      else if r < 0x800 then [char_of (0xC0 + r div 64), char_of (0x80 + r mod 64)]
      else if r < 0x10000
      then [char_of (0xE0 + r div 4096), char_of (0x80 + r div 64 mod 64), char_of (0x80 + r mod 64)]
      else [char_of (0xF0 + r div 262144), char_of (0x80 + r div 4096 mod 64),
            char_of (0x80 + r div 64 mod 64), char_of (0x80 + r mod 64)])"

definition replacement :: string where
  "replacement = encode_rune 0xFFFD"

section \<open>Strings\<close>

definition hex_digit :: "char \<Rightarrow> nat option" where
  "hex_digit c = (case digit_value c of Some v \<Rightarrow> if v < 16 then Some v else None | None \<Rightarrow> None)"

fun hex4 :: "string \<Rightarrow> (nat \<times> string) option" where
  "hex4 (a # b # c # d # rest) =
     (case (hex_digit a, hex_digit b, hex_digit c, hex_digit d) of
        (Some w, Some x, Some y, Some z) \<Rightarrow> Some (((w * 16 + x) * 16 + y) * 16 + z, rest)
      | _ \<Rightarrow> None)"
| "hex4 _ = None"

text \<open>The rune of a \<open>\u\<close> escape whose four digits have been read; a high surrogate looks for a low
  one.\<close>

definition unicode_escape :: "nat \<Rightarrow> string \<Rightarrow> string \<times> string" where
  "unicode_escape r rest =
     (if 0xD800 \<le> r \<and> r \<le> 0xDFFF
      then (case rest of
              b # u # rest' \<Rightarrow>
                if b = CHR 0x5C \<and> u = CHR ''u''
                then (case hex4 rest' of
                        Some (r1, rest'') \<Rightarrow>
                          if r \<le> 0xDBFF \<and> 0xDC00 \<le> r1 \<and> r1 \<le> 0xDFFF
                          then (encode_rune (0x10000 + (r - 0xD800) * 1024 + (r1 - 0xDC00)), rest'')
                          else (replacement, rest)
                      | None \<Rightarrow> (replacement, rest))
                else (replacement, rest)
            | _ \<Rightarrow> (replacement, rest))
      else (encode_rune r, rest))"

definition simple_escape :: "char \<Rightarrow> char option" where
  "simple_escape c =
     (if c = CHR 0x22 \<or> c = CHR 0x5C \<or> c = CHR ''/'' then Some c
      else if c = CHR ''b'' then Some (CHR 0x08) else if c = CHR ''f'' then Some (CHR 0x0C)
      else if c = CHR ''n'' then Some (CHR 0x0A) else if c = CHR ''r'' then Some (CHR 0x0D)
      else if c = CHR ''t'' then Some (CHR 0x09) else None)"

lemma hex4_shorter: "hex4 s = Some (n, rest) \<Longrightarrow> length rest < length s"
  by (induction s rule: hex4.induct) (auto split: option.splits)

lemma unicode_escape_shorter: "length (snd (unicode_escape r rest)) \<le> length rest"
  by (auto simp: unicode_escape_def split: list.splits option.splits prod.splits dest!: hex4_shorter)

text \<open>The rest of a string literal after the opening quote: its value and what follows the closing
  quote.\<close>

function unquote :: "string \<Rightarrow> (string \<times> string) option" where
  "unquote [] = None"
| "unquote (c # cs) =
     (if c = CHR 0x22 then Some ([], cs)
      else if c = CHR 0x5C
      then (case cs of
              [] \<Rightarrow> None
            | e # rest \<Rightarrow>
                if e = CHR ''u''
                then (case hex4 rest of
                        None \<Rightarrow> None
                      | Some (r, rest') \<Rightarrow>
                          map_option (\<lambda>(s, t). (fst (unicode_escape r rest') @ s, t))
                            (unquote (snd (unicode_escape r rest'))))
                else (case simple_escape e of
                        None \<Rightarrow> None
                      | Some x \<Rightarrow> map_option (\<lambda>(s, t). (x # s, t)) (unquote rest)))
      else if byte_of c < 0x20 then None
      else if byte_of c < 0x80 then map_option (\<lambda>(s, t). (c # s, t)) (unquote cs)
      else (case rune_length (c # cs) of
              None \<Rightarrow> map_option (\<lambda>(s, t). (replacement @ s, t)) (unquote cs)
            | Some n \<Rightarrow> map_option (\<lambda>(s, t). (take n (c # cs) @ s, t)) (unquote (drop (n - 1) cs))))"
  by pat_completeness auto
termination
proof (relation "measure length", goal_cases)
  case (2 c cs x21 x22 x2 x y)
  then show ?case using hex4_shorter [of x22 x y] unicode_escape_shorter [of x y] by auto
qed auto

declare unquote.simps [simp del]

section \<open>Objects\<close>

definition is_json_space :: "char \<Rightarrow> bool" where
  "is_json_space c \<longleftrightarrow> c = CHR '' '' \<or> c = CHR 0x09 \<or> c = CHR 0x0D \<or> c = CHR 0x0A"

definition skip_space :: "string \<Rightarrow> string" where
  "skip_space s = dropWhile is_json_space s"

record signRequest =
  rq_Challenge :: string
  rq_RequestID :: string

datatype sign_field = FieldChallenge | FieldRequestID

text \<open>Case folding of a name: ASCII letters to upper case, and the two non-ASCII runes that fold to
  an ASCII letter (U+017F to S, U+212A to K).\<close>

definition upper_char :: "char \<Rightarrow> char" where
  "upper_char c = (if 0x61 \<le> byte_of c \<and> byte_of c \<le> 0x7A then char_of (byte_of c - 0x20) else c)"

fun fold_name :: "string \<Rightarrow> string" where
  "fold_name [] = []"
| "fold_name (c # cs) =
     (if has_prefix (c # cs) [CHR 0xC5, CHR 0xBF] then CHR ''S'' # fold_name (drop 1 cs)
      else if has_prefix (c # cs) [CHR 0xE2, CHR 0x84, CHR 0xAA] then CHR ''K'' # fold_name (drop 2 cs)
      else upper_char c # fold_name cs)"

definition field_of :: "string \<Rightarrow> sign_field option" where
  "field_of name =
     (if fold_name name = ''CHALLENGE'' then Some FieldChallenge
      else if fold_name name = ''REQUESTID'' then Some FieldRequestID
      else None)"

fun set_field :: "sign_field \<Rightarrow> string \<Rightarrow> signRequest \<Rightarrow> signRequest" where
  "set_field FieldChallenge v r = r\<lparr>rq_Challenge := v\<rparr>"
| "set_field FieldRequestID v r = r\<lparr>rq_RequestID := v\<rparr>"

text \<open>A member value: a string sets the field, \<open>null\<close> leaves it alone.\<close>

definition member_value :: "sign_field \<Rightarrow> string \<Rightarrow> signRequest \<Rightarrow> (signRequest \<times> string) option" where
  "member_value f s r =
     (if has_prefix s ''null'' then Some (r, drop 4 s)
      else case s of
        c # cs \<Rightarrow>
          if c = CHR 0x22 then map_option (\<lambda>(v, t). (set_field f v r, t)) (unquote cs) else None
      | [] \<Rightarrow> None)"

text \<open>The members up to the closing brace; the fuel is the length of the input, and every member
  consumes some of it.\<close>

fun members :: "nat \<Rightarrow> string \<Rightarrow> signRequest \<Rightarrow> (signRequest \<times> string) option" where
  "members 0 s r = None"
| "members (Suc fuel) s r =
     (case skip_space s of
        q # key \<Rightarrow>
          if q \<noteq> CHR 0x22 then None
          else
            (case unquote key of
               None \<Rightarrow> None
             | Some (name, t1) \<Rightarrow>
                 (case skip_space t1 of
                    colon # t2 \<Rightarrow>
                      if colon \<noteq> CHR '':'' then None
                      else
                        (case field_of name of
                           None \<Rightarrow> None
                         | Some f \<Rightarrow>
                             (case member_value f (skip_space t2) r of
                                None \<Rightarrow> None
                              | Some (r1, t3) \<Rightarrow>
                                  (case skip_space t3 of
                                     c # t4 \<Rightarrow>
                                       if c = CHR '','' then members fuel t4 r1
                                       else if c = CHR 0x7D then Some (r1, t4)
                                       else None
                                   | [] \<Rightarrow> None)))
                  | [] \<Rightarrow> None))
      | [] \<Rightarrow> None)"

definition maximumRequestBodyBytes :: nat where [mfi_consts]: "maximumRequestBodyBytes = 64 * 1024"

definition decode_value :: "string \<Rightarrow> (signRequest \<times> string) option" where
  "decode_value s =
     (if has_prefix s ''null'' then Some (\<lparr>rq_Challenge = [], rq_RequestID = []\<rparr>, drop 4 s)
      else case s of
        c # cs \<Rightarrow>
          if c \<noteq> CHR 0x7B then None
          else
            (case skip_space cs of
               d # rest \<Rightarrow>
                 if d = CHR 0x7D then Some (\<lparr>rq_Challenge = [], rq_RequestID = []\<rparr>, rest)
                 else members (length cs + 1) cs \<lparr>rq_Challenge = [], rq_RequestID = []\<rparr>
             | [] \<Rightarrow> None)
      | [] \<Rightarrow> None)"

text \<open>\<open>readable\<close>: reading the request body does not fail.\<close>

definition decodeJSON :: "bool \<Rightarrow> string \<Rightarrow> signRequest option" where
  "decodeJSON readable body =
     (if \<not> readable \<or> length body > maximumRequestBodyBytes then None
      else
        (case decode_value (skip_space body) of
           None \<Rightarrow> None
         | Some (r, rest) \<Rightarrow> if skip_space rest = [] then Some r else None))"

section \<open>Plain requests\<close>

text \<open>Strings that need no escapes, such as base64 and UUIDs.\<close>

definition clean_char :: "char \<Rightarrow> bool" where
  "clean_char c \<longleftrightarrow> 0x20 \<le> byte_of c \<and> byte_of c < 0x80 \<and> c \<noteq> CHR 0x22 \<and> c \<noteq> CHR 0x5C"

definition json_quote :: "string \<Rightarrow> string" where
  "json_quote s = CHR 0x22 # s @ [CHR 0x22]"

definition sign_request_body :: "string \<Rightarrow> string \<Rightarrow> string" where
  "sign_request_body challenge requestID =
     CHR 0x7B # json_quote ''challenge'' @ CHR '':'' # json_quote challenge
       @ CHR '','' # json_quote ''requestId'' @ CHR '':'' # json_quote requestID @ [CHR 0x7D]"

lemma unquote_clean: "list_all clean_char s \<Longrightarrow> unquote (s @ CHR 0x22 # t) = Some (s, t)"
proof (induction s)
  case (Cons c s)
  then show ?case by (auto simp: unquote.simps clean_char_def)
qed (simp add: unquote.simps)

lemma skip_space_nonspace: "\<not> is_json_space c \<Longrightarrow> skip_space (c # cs) = c # cs"
  by (simp add: skip_space_def)

lemma member_value_clean:
  "list_all clean_char v \<Longrightarrow> member_value f (json_quote v @ t) r = Some (set_field f v r, t)"
  by (simp add: member_value_def json_quote_def unquote_clean)

lemma members_clean:
  assumes "list_all clean_char name" and "field_of name = Some f" and "list_all clean_char v"
    and "\<not> is_json_space c"
  shows "members (Suc n) (json_quote name @ CHR '':'' # json_quote v @ c # t) r =
     (if c = CHR '','' then members n t (set_field f v r)
      else if c = CHR 0x7D then Some (set_field f v r, t) else None)"
proof -
  have k: "unquote (name @ CHR 0x22 # CHR '':'' # json_quote v @ c # t)
      = Some (name, CHR '':'' # json_quote v @ c # t)"
    by (rule unquote_clean [OF assms(1)])
  have m: "member_value f (skip_space (json_quote v @ c # t)) r = Some (set_field f v r, c # t)"
    using member_value_clean [OF assms(3), of f "c # t" r]
    by (simp add: json_quote_def skip_space_nonspace is_json_space_def)
  have q: "json_quote name @ CHR '':'' # json_quote v @ c # t
      = CHR 0x22 # name @ CHR 0x22 # CHR '':'' # json_quote v @ c # t"
    by (simp add: json_quote_def)
  show ?thesis
    unfolding q
    by (simp add: skip_space_nonspace is_json_space_def k assms(2) m)
       (simp add: skip_space_nonspace assms(4))
qed

lemma field_of_names:
  "field_of ''challenge'' = Some FieldChallenge" "field_of ''requestId'' = Some FieldRequestID"
  "list_all clean_char ''challenge''" "list_all clean_char ''requestId''"
  by (simp_all add: field_of_def upper_char_def clean_char_def byte_of_def char_of_def bit_0)

lemma decode_value_object:
  "decode_value (CHR 0x7B # CHR 0x22 # rest)
     = members (length (CHR 0x22 # rest) + 1) (CHR 0x22 # rest) \<lparr>rq_Challenge = [], rq_RequestID = []\<rparr>"
  by (simp add: decode_value_def skip_space_nonspace is_json_space_def del: members.simps)

lemma decode_sign_request:
  assumes "list_all clean_char ch" and "list_all clean_char rid"
    and "length (sign_request_body ch rid) \<le> maximumRequestBodyBytes"
  shows "decodeJSON True (sign_request_body ch rid) = Some \<lparr>rq_Challenge = ch, rq_RequestID = rid\<rparr>"
proof -
  let ?body = "json_quote ''challenge'' @ CHR '':'' # json_quote ch @ CHR '','' # json_quote ''requestId''
     @ CHR '':'' # json_quote rid @ CHR 0x7D # []"
  have b: "sign_request_body ch rid = CHR 0x7B # ?body" by (simp add: sign_request_body_def)
  have m: "members (Suc (Suc n)) ?body r = Some (set_field FieldRequestID rid (set_field FieldChallenge ch r), [])" for n r
    by (subst members_clean [OF field_of_names(3,1) assms(1)], simp add: is_json_space_def)
       (simp only: if_True simp_thms, subst members_clean [OF field_of_names(4,2) assms(2)],
         simp_all add: is_json_space_def)
  have h: "\<exists>rest. ?body = CHR 0x22 # rest" by (simp add: json_quote_def)
  then obtain rest where h: "?body = CHR 0x22 # rest" by blast
  have sk: "skip_space (CHR 0x7B # ?body) = CHR 0x7B # ?body"
    by (rule skip_space_nonspace) (simp add: is_json_space_def)
  have n: "length ?body + 1 = Suc (Suc (length ?body - 1))" by (simp add: json_quote_def)
  have "decode_value (CHR 0x7B # ?body) = members (length ?body + 1) ?body \<lparr>rq_Challenge = [], rq_RequestID = []\<rparr>"
    unfolding h by (rule decode_value_object)
  also have "\<dots> = Some (\<lparr>rq_Challenge = ch, rq_RequestID = rid\<rparr>, [])"
    unfolding n m by simp
  finally show ?thesis
    using assms(3) unfolding decodeJSON_def b sk by (simp add: skip_space_def)
qed

end
