(* ===== verification/HttpApi.thy ===== *)
theory HttpApi
  imports ServiceProps Recent JsonDecode
begin

text \<open>
  The HTTP layer, internal/httpapi: authentication, observation, the handlers and the mapping of
  errors to responses. The handlers call the service through the interface \<^verbatim>\<open>Service\<close>, the record
  \<open>'s api\<close>; \<open>service_api\<close> fills it with the service of \<open>Service\<close>.

  A request's path is the cleaned URL path; \<^verbatim>\<open>http.ServeMux\<close> answers every path that is not a
  registered pattern, or that has to be cleaned first, by itself (\<open>fallback\<close>).

  A response is what reaches the \<^verbatim>\<open>statusRecorder\<close>: the status, the headers and a structured body;
  rendering JSON and HTML to text is not modelled; the record that \<^verbatim>\<open>observe\<close> logs is a value of its own. Time stamps are rendered by
  functions of the record \<open>clock_format\<close>. A handler that panics gives \<open>Panic\<close>, and one whose service
  call never returns \<open>None\<close>.
\<close>

section \<open>Requests, responses and state\<close>

record request =
  http_Method :: string
  http_Path :: string
  http_Authorization :: string
  http_Accept :: string
  http_QueryToken :: string
  http_Body :: string
  http_BodyReadable :: bool

record requestState =
  st_note :: string
  st_requestID :: string
  st_chipWait :: int
  st_chipTime :: int

record debugData =
  dbg_Status :: string
  dbg_Reason :: string
  dbg_VIDPID :: string
  dbg_StartedAt :: string
  dbg_Seconds :: int
  dbg_USBDevices :: "USBDeviceInfo list"
  dbg_CacheEntries :: nat
  dbg_LockHolder :: "string option"
  dbg_LockHeldMS :: int
  dbg_RecentRequests :: "RecentRequest list"
  dbg_CurrentTime :: string

datatype body =
    NoBody
  | JsonDetail string
  | JsonCertificate string int string string
  | JsonSignature string
  | JsonHealth bool string "string option"
  | JsonDebug debugData
  | HtmlDebug debugData
  | HtmlUnauthorized

text \<open>\<open>rec_wire\<close>: the status that the wrapped \<^verbatim>\<open>ResponseWriter\<close> was given.\<close>

record statusRecorder =
  rec_status :: int
  rec_wire :: "int option"
  rec_headers :: "(string \<times> string) list"
  rec_body :: body

record 's api =
  api_Certificate :: "'s \<Rightarrow> (Certificate result \<times> 's) option"
  api_Sign :: "string \<Rightarrow> byte list \<Rightarrow> 's \<Rightarrow> (SignResult result \<times> 's) option"
  api_Reset :: "'s \<Rightarrow> unit result \<times> 's"
  api_Health :: "'s \<Rightarrow> HealthStatus \<times> 's"
  api_Diagnostics :: "'s \<Rightarrow> HealthStatus \<times> 's"
  api_Runtime :: "'s \<Rightarrow> RuntimeStatus"
  api_now :: "'s \<Rightarrow> int"

record clock_format =
  fmt_RFC3339 :: "int \<Rightarrow> string"
  fmt_millis :: "int \<Rightarrow> string"

record 's server =
  srv_bearerToken :: string
  srv_startedAt :: int
  srv_recent :: recentStore
  srv_service :: 's

type_synonym 's handled = "((statusRecorder \<times> requestState) result \<times> 's server) option"

definition new_state :: requestState where
  "new_state = \<lparr>st_note = [], st_requestID = [], st_chipWait = 0, st_chipTime = 0\<rparr>"

definition new_recorder :: statusRecorder where
  "new_recorder = \<lparr>rec_status = 0, rec_wire = None, rec_headers = [], rec_body = NoBody\<rparr>"

section \<open>Writing\<close>

definition Header_Set :: "string \<Rightarrow> string \<Rightarrow> statusRecorder \<Rightarrow> statusRecorder" where
  "Header_Set k v w = w\<lparr>rec_headers := AList.update k v (rec_headers w)\<rparr>"

definition WriteHeader :: "int \<Rightarrow> statusRecorder \<Rightarrow> statusRecorder" where
  "WriteHeader status w =
     (if rec_status w \<noteq> 0 then w else w\<lparr>rec_status := status, rec_wire := Some status\<rparr>)"

definition Write_body :: "body \<Rightarrow> statusRecorder \<Rightarrow> statusRecorder" where
  "Write_body b w =
     (let w1 = (if rec_status w = 0 then WriteHeader 200 w else w) in w1\<lparr>rec_body := b\<rparr>)"

definition statusOrOK :: "statusRecorder \<Rightarrow> int" where
  "statusOrOK w = (if rec_status w = 0 then 200 else rec_status w)"

definition writeJSON :: "int \<Rightarrow> body \<Rightarrow> statusRecorder \<Rightarrow> statusRecorder" where
  "writeJSON status b w =
     Write_body b (WriteHeader status
       (Header_Set ''Cache-Control'' ''no-store''
         (Header_Set ''Content-Type'' ''application/json; charset=utf-8'' w)))"

definition html_headers :: "statusRecorder \<Rightarrow> statusRecorder" where
  "html_headers w =
     Header_Set ''Referrer-Policy'' ''no-referrer''
       (Header_Set ''Content-Type'' ''text/html; charset=utf-8''
         (Header_Set ''Cache-Control'' ''no-store'' w))"

section \<open>Requests\<close>

definition acceptsJSON :: "request \<Rightarrow> bool" where
  "acceptsJSON r \<longleftrightarrow> strings_Contains (strings_ToLower (http_Accept r)) ''application/json''"

definition isBusinessPath :: "string \<Rightarrow> bool" where
  "isBusinessPath path \<longleftrightarrow> path = ''/mfi/certificate'' \<or> path = ''/mfi/sign'' \<or> path = ''/mfi/reset''"

definition defaultNote :: "int \<Rightarrow> string" where
  "defaultNote status =
     (if status = 401 then ''unauthorized''
      else if status \<ge> 400 \<and> status < 500 then ''bad request''
      else if status \<ge> 500 then ''error''
      else ''ok'')"

definition optionalString :: "string \<Rightarrow> string option" where
  "optionalString value = (if value = [] then None else Some value)"

text \<open>The answer to a wrong method; \<open>None\<close>: the method is right.\<close>

definition requireMethod ::
  "string \<Rightarrow> request \<Rightarrow> statusRecorder \<times> requestState \<Rightarrow> (statusRecorder \<times> requestState) option" where
  "requireMethod method r ws =
     (if http_Method r = method then None
      else Some (writeJSON 405 (JsonDetail ''method not allowed'') (Header_Set ''Allow'' method (fst ws)),
                 (snd ws)\<lparr>st_note := ''bad request''\<rparr>))"

section \<open>Errors\<close>

definition serviceErrorResponse :: "go_error \<Rightarrow> int \<times> string \<times> string" where
  "serviceErrorResponse err =
     (if errors_Is err (Sentinel ErrChallengeSize) \<or> errors_Is err (Sentinel ErrRequestIDFormat)
         \<or> errors_Is err (Sentinel ErrRequestIDReuse)
      then (400, error_text err, ''bad request'')
      else if errors_Is err (Sentinel ErrChipBusy) then (503, sentinel_text ErrChipBusy, ''chip busy'')
      else if errors_Is err (Sentinel ErrChipMissing) then (503, sentinel_text ErrChipMissing, ''error'')
      else if errors_Is err ContextCanceled \<or> errors_Is err ContextDeadlineExceeded
      then (503, ''request cancelled'', ''error'')
      else if transport_IsKind err ErrorPermission
      then (503, ''chip unavailable: permission denied'', ''error'')
      else if transport_IsKind err ErrorBusy then (503, ''chip unavailable: USB device busy'', ''error'')
      else if transport_IsKind err ErrorTimeout then (500, ''chip operation timed out'', ''error'')
      else if transport_IsKind err ErrorNACK then (500, ''I2C NACK'', ''error'')
      else
        (case errors_As_chip err of
           Some (ErrorAuthFailed, Some code) \<Rightarrow>
             (500, ''chip auth failed: 0x'' @ fmt_02x (unat code), ''error'')
         | Some (ErrorAuthFailed, None) \<Rightarrow> (500, ''chip auth timeout'', ''error'')
         | Some (ErrorInvalidData, _) \<Rightarrow> (500, ''invalid data returned by MFi chip'', ''error'')
         | None \<Rightarrow> (500, ''MFi hardware operation failed'', ''error'')))"

definition writeServiceError ::
  "go_error \<Rightarrow> statusRecorder \<times> requestState \<Rightarrow> statusRecorder \<times> requestState" where
  "writeServiceError err ws =
     (let (status, detail, note) = serviceErrorResponse err
      in (writeJSON status (JsonDetail detail) (fst ws), (snd ws)\<lparr>st_note := note\<rparr>))"

section \<open>Handlers\<close>

definition chip_note :: "bool \<Rightarrow> string" where
  "chip_note cached = (if cached then ''idempotent-hit'' else ''chip'')"

definition handleCertificate ::
  "'s api \<Rightarrow> request \<Rightarrow> statusRecorder \<times> requestState \<Rightarrow> 's server \<Rightarrow> 's handled" where
  "handleCertificate a r ws srv =
     (case requireMethod ''GET'' r ws of
        Some ws1 \<Rightarrow> Some (Ok ws1, srv)
      | None \<Rightarrow>
          (case api_Certificate a (srv_service srv) of
             None \<Rightarrow> None
           | Some (Panic, s1) \<Rightarrow> Some (Panic, srv\<lparr>srv_service := s1\<rparr>)
           | Some (Err e, s1) \<Rightarrow> Some (Ok (writeServiceError e ws), srv\<lparr>srv_service := s1\<rparr>)
           | Some (Ok c, s1) \<Rightarrow>
               Some (Ok (writeJSON 200 (JsonCertificate ''mfi'' (uint (ct_ProtocolMajor c)) (ct_Base64 c)
                            (ct_SHA256Hex c)) (fst ws),
                         (snd ws)\<lparr>st_note := chip_note (ct_Cached c), st_chipWait := ct_WaitDuration c,
                            st_chipTime := ct_ChipDuration c\<rparr>),
                     srv\<lparr>srv_service := s1\<rparr>)))"

definition bad_request ::
  "string \<Rightarrow> statusRecorder \<times> requestState \<Rightarrow> statusRecorder \<times> requestState" where
  "bad_request detail ws = (writeJSON 400 (JsonDetail detail) (fst ws), (snd ws)\<lparr>st_note := ''bad request''\<rparr>)"

definition handleSign ::
  "'s api \<Rightarrow> request \<Rightarrow> statusRecorder \<times> requestState \<Rightarrow> 's server \<Rightarrow> 's handled" where
  "handleSign a r ws srv =
     (case requireMethod ''POST'' r ws of
        Some ws1 \<Rightarrow> Some (Ok ws1, srv)
      | None \<Rightarrow>
          (case decodeJSON (http_BodyReadable r) (http_Body r) of
             None \<Rightarrow> Some (Ok (bad_request ''invalid request body'' ws), srv)
           | Some req \<Rightarrow>
               let ws1 = (fst ws, (snd ws)\<lparr>st_requestID := rq_RequestID req\<rparr>)
               in if rq_RequestID req = [] then Some (Ok (bad_request ''requestId is required'' ws1), srv)
                  else if rq_Challenge req = [] then Some (Ok (bad_request ''challenge is required'' ws1), srv)
                  else
                    (case base64_DecodeString (rq_Challenge req) of
                       None \<Rightarrow> Some (Ok (bad_request ''challenge is not valid base64'' ws1), srv)
                     | Some challenge \<Rightarrow>
                         (case api_Sign a (rq_RequestID req) challenge (srv_service srv) of
                            None \<Rightarrow> None
                          | Some (Panic, s1) \<Rightarrow> Some (Panic, srv\<lparr>srv_service := s1\<rparr>)
                          | Some (Err e, s1) \<Rightarrow> Some (Ok (writeServiceError e ws1), srv\<lparr>srv_service := s1\<rparr>)
                          | Some (Ok res, s1) \<Rightarrow>
                              Some (Ok (writeJSON 200 (JsonSignature (base64_EncodeToString (sr_Signature res)))
                                          (fst ws1),
                                        (snd ws1)\<lparr>st_note := chip_note (sr_Cached res),
                                           st_chipWait := sr_WaitDuration res,
                                           st_chipTime := sr_ChipDuration res\<rparr>),
                                    srv\<lparr>srv_service := s1\<rparr>)))))"

text \<open>A body that cannot be read, or one above the limit, fails to read.\<close>

definition handleReset ::
  "'s api \<Rightarrow> request \<Rightarrow> statusRecorder \<times> requestState \<Rightarrow> 's server \<Rightarrow> 's handled" where
  "handleReset a r ws srv =
     (case requireMethod ''POST'' r ws of
        Some ws1 \<Rightarrow> Some (Ok ws1, srv)
      | None \<Rightarrow>
          if \<not> http_BodyReadable r \<or> length (http_Body r) > maximumRequestBodyBytes
             \<or> strings_TrimSpace (http_Body r) \<noteq> [CHR 0x7B, CHR 0x7D]
          then Some (Ok (bad_request ([CHR ''b'', CHR ''o'', CHR ''d'', CHR ''y''] @ '' must be ''
                            @ [CHR 0x7B, CHR 0x7D]) ws), srv)
          else
            (case api_Reset a (srv_service srv) of
               (Err e, s1) \<Rightarrow> Some (Ok (writeServiceError e ws), srv\<lparr>srv_service := s1\<rparr>)
             | (Panic, s1) \<Rightarrow> Some (Panic, srv\<lparr>srv_service := s1\<rparr>)
             | (Ok _, s1) \<Rightarrow>
                 Some (Ok (writeJSON 200 (JsonDetail []) (fst ws), (snd ws)\<lparr>st_note := ''noop''\<rparr>),
                       srv\<lparr>srv_service := s1\<rparr>)))"

definition handleHealth ::
  "'s api \<Rightarrow> request \<Rightarrow> statusRecorder \<times> requestState \<Rightarrow> 's server \<Rightarrow> 's handled" where
  "handleHealth a r ws srv =
     (case requireMethod ''GET'' r ws of
        Some ws1 \<Rightarrow> Some (Ok ws1, srv)
      | None \<Rightarrow>
          (let (health, s1) = api_Health a (srv_service srv)
           in Some (Ok (writeJSON 200 (JsonHealth (hs_Chip health = ''ready'') (hs_Chip health)
                          (optionalString (hs_Reason health))) (fst ws), snd ws),
                    srv\<lparr>srv_service := s1\<rparr>)))"

definition debug_data ::
  "clock_format \<Rightarrow> int \<Rightarrow> int \<Rightarrow> HealthStatus \<Rightarrow> RuntimeStatus \<Rightarrow> RecentRequest list \<Rightarrow> debugData" where
  "debug_data f startedAt now health runtime recent =
     \<lparr>dbg_Status = hs_Chip health, dbg_Reason = hs_Reason health, dbg_VIDPID = hs_VIDPID health,
      dbg_StartedAt = fmt_RFC3339 f startedAt, dbg_Seconds = go_div (now - startedAt) 1000000000,
      dbg_USBDevices = hs_Devices health, dbg_CacheEntries = rs_CacheEntries runtime,
      dbg_LockHolder = optionalString (rs_LockHolder runtime),
      dbg_LockHeldMS = milliseconds (rs_LockHeld runtime), dbg_RecentRequests = recent,
      dbg_CurrentTime = fmt_millis f now\<rparr>"

definition handleDebug ::
  "'s api \<Rightarrow> clock_format \<Rightarrow> request \<Rightarrow> statusRecorder \<times> requestState \<Rightarrow> 's server \<Rightarrow> 's handled" where
  "handleDebug a f r ws srv =
     (case requireMethod ''GET'' r ws of
        Some ws1 \<Rightarrow> Some (Ok ws1, srv)
      | None \<Rightarrow>
          (let (health, s1) = api_Diagnostics a (srv_service srv)
           in case listNewestFirst (srv_recent srv) of
                Ok recent \<Rightarrow>
                  let data = debug_data f (srv_startedAt srv) (api_now a s1) health (api_Runtime a s1) recent
                  in Some (Ok (if acceptsJSON r then writeJSON 200 (JsonDebug data) (fst ws)
                               else Write_body (HtmlDebug data) (html_headers (fst ws)), snd ws),
                           srv\<lparr>srv_service := s1\<rparr>)
              | Err e \<Rightarrow> Some (Err e, srv\<lparr>srv_service := s1\<rparr>)
              | Panic \<Rightarrow> Some (Panic, srv\<lparr>srv_service := s1\<rparr>)))"

section \<open>Authentication, routing and observation\<close>

definition provided_token :: "bool \<Rightarrow> request \<Rightarrow> string" where
  "provided_token allowQueryToken r =
     (let bearer = (if has_prefix (http_Authorization r) ''Bearer ''
                    then strings_TrimPrefix (http_Authorization r) ''Bearer '' else [])
      in if bearer = [] \<and> allowQueryToken then http_QueryToken r else bearer)"

text \<open>\<^verbatim>\<open>subtle.ConstantTimeCompare\<close> of two digests of equal length is their equality.\<close>

definition authorized :: "string \<Rightarrow> bool \<Rightarrow> request \<Rightarrow> bool" where
  "authorized bearerToken allowQueryToken r \<longleftrightarrow>
     bearerToken = []
     \<or> sha256_Sum256 (string_bytes (provided_token allowQueryToken r)) = sha256_Sum256 (string_bytes bearerToken)"

definition withAuth ::
  "bool \<Rightarrow> (request \<Rightarrow> statusRecorder \<times> requestState \<Rightarrow> 's server \<Rightarrow> 's handled)
     \<Rightarrow> request \<Rightarrow> statusRecorder \<times> requestState \<Rightarrow> 's server \<Rightarrow> 's handled" where
  "withAuth allowQueryToken next r ws srv =
     (if authorized (srv_bearerToken srv) allowQueryToken r then next r ws srv
      else
        let st = (snd ws)\<lparr>st_note := ''unauthorized''\<rparr>
        in if allowQueryToken \<and> \<not> acceptsJSON r
           then Some (Ok (Write_body HtmlUnauthorized (WriteHeader 401 (html_headers (fst ws))), st), srv)
           else Some (Ok (writeJSON 401 (JsonDetail ''unauthorized'') (fst ws), st), srv))"

text \<open>The routes of \<^verbatim>\<open>NewHandler\<close>. For every other path \<^verbatim>\<open>http.ServeMux\<close> answers itself, by \<open>fallback\<close>. The
  requests covered are those whose path was sent without an escaped slash.\<close>

definition mux ::
  "'s api \<Rightarrow> clock_format \<Rightarrow> (request \<Rightarrow> statusRecorder \<Rightarrow> statusRecorder)
     \<Rightarrow> request \<Rightarrow> statusRecorder \<times> requestState \<Rightarrow> 's server \<Rightarrow> 's handled" where
  "mux a f fallback r ws srv =
     (if http_Path r = ''/mfi/certificate'' then withAuth False (handleCertificate a) r ws srv
      else if http_Path r = ''/mfi/sign'' then withAuth False (handleSign a) r ws srv
      else if http_Path r = ''/mfi/reset'' then withAuth False (handleReset a) r ws srv
      else if http_Path r = ''/debug/usb'' then withAuth True (handleDebug a f) r ws srv
      else if http_Path r = ''/healthz'' then handleHealth a r ws srv
      else Some (Ok (fallback r (fst ws), snd ws), srv))"

definition observe ::
  "'s api \<Rightarrow> clock_format
     \<Rightarrow> (request \<Rightarrow> statusRecorder \<times> requestState \<Rightarrow> 's server \<Rightarrow> 's handled)
     \<Rightarrow> request \<Rightarrow> 's server \<Rightarrow> 's handled" where
  "observe a f next r srv =
     (let started = api_now a (srv_service srv)
      in case next r (new_recorder, new_state) srv of
           None \<Rightarrow> None
         | Some (Panic, srv1) \<Rightarrow> Some (Panic, srv1)
         | Some (Err e, srv1) \<Rightarrow> Some (Err e, srv1)
         | Some (Ok (w, st), srv1) \<Rightarrow>
             let now = api_now a (srv_service srv1);
                 note = (if st_note st = [] then defaultNote (rec_status w) else st_note st)
             in if isBusinessPath (http_Path r)
                then
                  (case recent_add (recent_entry (fmt_millis f now) (http_Method r) (http_Path r)
                           (statusOrOK w) (now - started) note) (srv_recent srv1) of
                     Ok recent \<Rightarrow> Some (Ok (w, st), srv1\<lparr>srv_recent := recent\<rparr>)
                   | Err e \<Rightarrow> Some (Err e, srv1)
                   | Panic \<Rightarrow> Some (Panic, srv1))
                else Some (Ok (w, st), srv1))"

text \<open>The record \<^verbatim>\<open>http_request\<close> that \<^verbatim>\<open>observe\<close> logs, with its attributes in order.\<close>

record request_record =
  rl_method :: string
  rl_path :: string
  rl_status :: int
  rl_duration_ms :: int
  rl_note :: string
  rl_request_id :: string
  rl_chip_wait_ms :: int
  rl_chip_duration_ms :: int

definition http_request_record :: "request \<Rightarrow> statusRecorder \<Rightarrow> requestState \<Rightarrow> int \<Rightarrow> request_record" where
  "http_request_record r w st duration =
     \<lparr>rl_method = http_Method r, rl_path = http_Path r, rl_status = statusOrOK w,
      rl_duration_ms = milliseconds duration,
      rl_note = (if st_note st = [] then defaultNote (rec_status w) else st_note st),
      rl_request_id = st_requestID st, rl_chip_wait_ms = milliseconds (st_chipWait st),
      rl_chip_duration_ms = milliseconds (st_chipTime st)\<rparr>"

text \<open>The handler that the HTTP server runs for a request.\<close>

definition serve ::
  "'s api \<Rightarrow> clock_format \<Rightarrow> (request \<Rightarrow> statusRecorder \<Rightarrow> statusRecorder) \<Rightarrow> request \<Rightarrow> 's server \<Rightarrow> 's handled" where
  "serve a f fallback r srv = observe a f (mux a f fallback) r srv"

definition NewHandler :: "'s api option \<Rightarrow> bool \<Rightarrow> bool \<Rightarrow> string \<Rightarrow> nat \<Rightarrow> int \<Rightarrow> 's \<Rightarrow> 's server result" where
  "NewHandler service loggerSet locationSet bearerToken recentCapacity now s =
     (case service of
        None \<Rightarrow> Err (ErrorString ''service is required'')
      | Some _ \<Rightarrow>
          if \<not> loggerSet then Err (ErrorString ''logger is required'')
          else if \<not> locationSet then Err (ErrorString ''location is required'')
          else Ok \<lparr>srv_bearerToken = bearerToken, srv_startedAt = now,
                   srv_recent = newRecentStore recentCapacity, srv_service = s\<rparr>)"

section \<open>The service behind the interface\<close>

fun sign_result :: "reply \<Rightarrow> SignResult result" where
  "sign_result (ReplySign r) = Ok r"
| "sign_result (ReplyError e) = Err e"
| "sign_result _ = Panic"

fun certificate_result :: "reply \<Rightarrow> Certificate result" where
  "certificate_result (ReplyCertificate c) = Ok c"
| "certificate_result (ReplyError e) = Err e"
| "certificate_result _ = Panic"

text \<open>Requests that do not overlap: each service call runs on its own.\<close>

definition service_api ::
  "'w chip_driver \<Rightarrow> (bool \<Rightarrow> 'w \<Rightarrow> USBStatus \<times> 'w) \<Rightarrow> (string \<Rightarrow> bool) \<Rightarrow> 'w service api" where
  "service_api d inspector uuid_ok = \<lparr>
     api_Certificate = (\<lambda>sv. map_option (\<lambda>(r, sv'). (certificate_result r, sv')) (service_call d uuid_ok CallCertificate sv)),
     api_Sign = (\<lambda>requestID challenge sv. map_option (\<lambda>(r, sv'). (sign_result r, sv'))
        (service_call d uuid_ok (CallSign requestID challenge) sv)),
     api_Reset = Reset, api_Health = Health inspector, api_Diagnostics = Diagnostics inspector,
     api_Runtime = Runtime d, api_now = sv_now d\<rparr>"

end
