(* ===== verification/HttpProps.thy ===== *)
theory HttpProps
  imports HttpApi
begin

text \<open>
  Properties of the HTTP layer. The locale \<open>http_service\<close> states what the handlers rely on in the
  service: every call returns and keeps an invariant. Under it every request is answered and
  the log of recent requests stays intact; the service on the CH341 stack is an interpretation.
\<close>

section \<open>Responses\<close>

definition known_status :: "int \<Rightarrow> bool" where
  "known_status s \<longleftrightarrow> s \<in> {200, 400, 401, 405, 500, 503}"

text \<open>A response that was written once, with the recorded status on the wire and caching
  forbidden.\<close>

definition answered :: "statusRecorder \<Rightarrow> bool" where
  "answered w \<longleftrightarrow> rec_wire w = Some (rec_status w) \<and> known_status (rec_status w)
     \<and> map_of (rec_headers w) ''Cache-Control'' = Some ''no-store''"

lemma recorder_simps [simp]:
  "rec_status (Header_Set k v w) = rec_status w"
  "rec_body (Header_Set k v w) = rec_body w"
  "rec_status new_recorder = 0"
  "rec_status (html_headers w) = rec_status w"
  by (simp_all add: Header_Set_def new_recorder_def html_headers_def)

lemma map_of_Header_Set [simp]:
  "map_of (rec_headers (Header_Set k v w)) x = (if x = k then Some v else map_of (rec_headers w) x)"
  by (simp add: Header_Set_def update_conv')

lemma writeJSON_fresh:
  assumes "rec_status w = 0" and "status \<noteq> 0"
  shows "rec_status (writeJSON status b w) = status" "rec_wire (writeJSON status b w) = Some status"
    "rec_body (writeJSON status b w) = b"
    "map_of (rec_headers (writeJSON status b w)) ''Cache-Control'' = Some ''no-store''"
  using assms by (simp_all add: writeJSON_def WriteHeader_def Write_body_def Let_def)

lemma writeJSON_answered: "rec_status w = 0 \<Longrightarrow> known_status status \<Longrightarrow> answered (writeJSON status b w)"
  by (cases "status = 0") (simp_all add: answered_def writeJSON_fresh, simp add: known_status_def)

lemma html_answered:
  "rec_status w = 0 \<Longrightarrow> answered (Write_body b (html_headers w))"
  "rec_status w = 0 \<Longrightarrow> answered (Write_body b (WriteHeader 401 (html_headers w)))"
  by (simp_all add: answered_def known_status_def Write_body_def WriteHeader_def html_headers_def Let_def)

section \<open>Errors\<close>

text \<open>The errors that are the client's own.\<close>

definition client_error :: "go_error \<Rightarrow> bool" where
  "client_error err \<longleftrightarrow> errors_Is err (Sentinel ErrChallengeSize)
     \<or> errors_Is err (Sentinel ErrRequestIDFormat) \<or> errors_Is err (Sentinel ErrRequestIDReuse)"

text \<open>What a client may learn about a failure of the hardware.\<close>

definition public_detail :: "string \<Rightarrow> bool" where
  "public_detail s \<longleftrightarrow>
     s \<in> {''chip busy, retry'', ''chip missing'', ''request cancelled'',
           ''chip unavailable: permission denied'', ''chip unavailable: USB device busy'',
           ''chip operation timed out'', ''I2C NACK'', ''chip auth timeout'',
           ''invalid data returned by MFi chip'', ''MFi hardware operation failed''}
     \<or> (\<exists>code :: byte. s = ''chip auth failed: 0x'' @ fmt_02x (unat code))"

lemma public_details:
  "public_detail ''chip busy, retry''" "public_detail ''chip missing''"
  "public_detail ''request cancelled''" "public_detail ''chip unavailable: permission denied''"
  "public_detail ''chip unavailable: USB device busy''" "public_detail ''chip operation timed out''"
  "public_detail ''I2C NACK''" "public_detail ''chip auth timeout''"
  "public_detail ''invalid data returned by MFi chip''" "public_detail ''MFi hardware operation failed''"
  by (simp_all only: public_detail_def insert_iff simp_thms)

lemma public_auth_failed: "public_detail (''chip auth failed: 0x'' @ fmt_02x (unat (code :: byte)))"
  unfolding public_detail_def by blast

lemma serviceErrorResponse_client:
  "client_error err \<Longrightarrow> serviceErrorResponse err = (400, error_text err, ''bad request'')"
  by (simp only: serviceErrorResponse_def client_error_def if_True)

lemma serviceErrorResponse_hardware:
  assumes "\<not> client_error err"
  shows "\<exists>status detail note. serviceErrorResponse err = (status, detail, note)
     \<and> (status = 500 \<or> status = 503) \<and> public_detail detail"
proof -
  have "\<not> (errors_Is err (Sentinel ErrChallengeSize) \<or> errors_Is err (Sentinel ErrRequestIDFormat)
         \<or> errors_Is err (Sentinel ErrRequestIDReuse))"
    using assms by (simp add: client_error_def)
  then show ?thesis
    unfolding serviceErrorResponse_def sentinel_text.simps
    by (simp only: if_False)
       (simp add: public_details public_auth_failed
          split: option.splits prod.splits chip_kind.splits del: append.simps append_Cons)
qed

lemma chip_missing_response:
  "transport_IsKind err ErrorDeviceMissing
     \<Longrightarrow> serviceErrorResponse (normalizeHardwareError err) = (503, ''chip missing'', ''error'')"
  by (simp add: normalizeHardwareError_def serviceErrorResponse_def)

lemma chip_busy_response:
  "serviceErrorResponse (Sentinel ErrChipBusy) = (503, ''chip busy, retry'', ''chip busy'')"
  by (simp add: serviceErrorResponse_def)

lemma serviceErrorResponse_known: "serviceErrorResponse err = (s, x, n) \<Longrightarrow> known_status s"
  using serviceErrorResponse_hardware [of err] serviceErrorResponse_client [of err]
  by (cases "client_error err") (auto simp: known_status_def)

lemma writeServiceError_answered:
  assumes "rec_status (fst ws) = 0"
  shows "answered (fst (writeServiceError err ws))"
proof -
  obtain s x n where r: "serviceErrorResponse err = (s, x, n)" by (metis prod_cases3)
  then show ?thesis
    using writeJSON_answered [OF assms serviceErrorResponse_known [OF r]]
    by (simp add: writeServiceError_def)
qed

section \<open>Handlers\<close>

lemma requireMethod_answered:
  "requireMethod m r ws = Some ws' \<Longrightarrow> rec_status (fst ws) = 0 \<Longrightarrow> answered (fst ws')"
  by (auto simp: requireMethod_def known_status_def intro!: writeJSON_answered split: if_splits)

lemmas handler_answers = writeJSON_answered writeServiceError_answered html_answered
  requireMethod_answered

lemma bad_request_answered: "rec_status (fst ws) = 0 \<Longrightarrow> answered (fst (bad_request detail ws))"
  by (simp add: bad_request_def writeJSON_answered known_status_def)

lemma handleCertificate_answered:
  "handleCertificate a r ws srv = Some (Ok ws', srv') \<Longrightarrow> rec_status (fst ws) = 0 \<Longrightarrow> answered (fst ws')"
  by (auto simp: handleCertificate_def known_status_def intro!: handler_answers(1,2) dest: handler_answers(5)
      split: option.splits prod.splits result.splits)

lemma handleSign_answered:
  "handleSign a r ws srv = Some (Ok ws', srv') \<Longrightarrow> rec_status (fst ws) = 0 \<Longrightarrow> answered (fst ws')"
  by (auto simp: handleSign_def Let_def known_status_def intro!: handler_answers(1,2) bad_request_answered
      dest: handler_answers(5) split: option.splits prod.splits result.splits if_splits)

lemma handleReset_answered:
  "handleReset a r ws srv = Some (Ok ws', srv') \<Longrightarrow> rec_status (fst ws) = 0 \<Longrightarrow> answered (fst ws')"
  by (auto simp: handleReset_def known_status_def simp del: append.simps append_Cons
      intro!: handler_answers(1,2) bad_request_answered
      dest: handler_answers(5) split: option.splits prod.splits result.splits if_splits)

lemma handleHealth_answered:
  "handleHealth a r ws srv = Some (Ok ws', srv') \<Longrightarrow> rec_status (fst ws) = 0 \<Longrightarrow> answered (fst ws')"
  by (auto simp: handleHealth_def known_status_def intro!: handler_answers(1)
      dest: handler_answers(5) split: option.splits prod.splits)

lemma handleDebug_answered:
  "handleDebug a f r ws srv = Some (Ok ws', srv') \<Longrightarrow> rec_status (fst ws) = 0 \<Longrightarrow> answered (fst ws')"
  by (auto simp: handleDebug_def Let_def known_status_def intro!: handler_answers(1,3)
      dest: handler_answers(5) split: option.splits prod.splits result.splits)

lemma withAuth_answered:
  assumes "withAuth q h r ws srv = Some (Ok ws', srv')" and "rec_status (fst ws) = 0"
    and "\<And>ws'. h r ws srv = Some (Ok ws', srv') \<Longrightarrow> answered (fst ws')"
  shows "answered (fst ws')"
  using assms
  by (auto simp: withAuth_def Let_def known_status_def intro!: handler_answers(1,4) split: if_splits)

definition routed :: "string \<Rightarrow> bool" where
  "routed path \<longleftrightarrow> isBusinessPath path \<or> path = ''/debug/usb'' \<or> path = ''/healthz''"

lemma mux_answered:
  assumes "routed (http_Path r)" and "mux a f fallback r ws srv = Some (Ok ws', srv')"
    and "rec_status (fst ws) = 0"
  shows "answered (fst ws')"
  using assms(1,2)
  by (auto simp: mux_def routed_def isBusinessPath_def split: if_splits
      elim!: withAuth_answered [OF _ assms(3)] handleHealth_answered [OF _ assms(3)]
      intro: handleCertificate_answered handleSign_answered handleReset_answered handleDebug_answered assms(3))

section \<open>Interface to the service\<close>

locale http_service =
  fixes a :: "'s api" and ready :: "'s \<Rightarrow> bool" and safe :: bool
  assumes certificate_call: "ready s \<Longrightarrow> \<exists>r s'. api_Certificate a s = Some (r, s') \<and> ready s' \<and> (safe \<longrightarrow> r \<noteq> Panic)"
    and sign_call: "ready s \<Longrightarrow> \<exists>r s'. api_Sign a rid ch s = Some (r, s') \<and> ready s' \<and> (safe \<longrightarrow> r \<noteq> Panic)"
    and reset_call: "ready s \<Longrightarrow> \<exists>r s'. api_Reset a s = (r, s') \<and> ready s' \<and> r \<noteq> Panic"
    and health_call: "ready s \<Longrightarrow> ready (snd (api_Health a s))"
    and diagnostics_call: "ready s \<Longrightarrow> ready (snd (api_Diagnostics a s))"

text \<open>A handler returns, keeps the invariant of the service and the rest of the server, and panics
  only if the service may.\<close>

definition completes :: "('s \<Rightarrow> bool) \<Rightarrow> bool \<Rightarrow> 's server \<Rightarrow> 's handled \<Rightarrow> bool" where
  "completes ready safe srv m \<longleftrightarrow>
     (\<exists>r s'. m = Some (r, srv\<lparr>srv_service := s'\<rparr>) \<and> ready s' \<and> (safe \<longrightarrow> (\<exists>ws. r = Ok ws)))"

lemma completes_here:
  "ready (srv_service srv) \<Longrightarrow> completes ready safe srv (Some (Ok ws, srv))"
  unfolding completes_def by (intro exI [of _ "Ok ws"] exI [of _ "srv_service srv"]) simp

lemma completes_with:
  "ready s' \<Longrightarrow> (safe \<longrightarrow> (\<exists>ws. r = Ok ws)) \<Longrightarrow> completes ready safe srv (Some (r, srv\<lparr>srv_service := s'\<rparr>))"
  unfolding completes_def by blast

lemma completes_ok: "ready s' \<Longrightarrow> completes ready safe srv (Some (Ok ws, srv\<lparr>srv_service := s'\<rparr>))"
  by (simp add: completes_with)

lemma withAuth_completes:
  "ready (srv_service srv) \<Longrightarrow> completes ready safe srv (h r ws srv) \<Longrightarrow> completes ready safe srv (withAuth q h r ws srv)"
  by (simp add: withAuth_def Let_def completes_here)

context http_service
begin

lemma handleCertificate_completes:
  assumes "ready (srv_service srv)"
  shows "completes ready safe srv (handleCertificate a r ws srv)"
proof -
  obtain x s' where "api_Certificate a (srv_service srv) = Some (x, s')" "ready s'" "safe \<longrightarrow> x \<noteq> Panic"
    using certificate_call [OF assms] by blast
  then show ?thesis
    by (cases x) (auto simp: handleCertificate_def assms intro: completes_here completes_ok completes_with split: option.split)
qed

lemma handleSign_completes:
  assumes "ready (srv_service srv)"
  shows "completes ready safe srv (handleSign a r ws srv)"
proof -
  have "completes ready safe srv
      (case api_Sign a rid ch (srv_service srv) of None \<Rightarrow> None
        | Some (Panic, s1) \<Rightarrow> Some (Panic, srv\<lparr>srv_service := s1\<rparr>)
        | Some (Err e, s1) \<Rightarrow> Some (Ok (k e), srv\<lparr>srv_service := s1\<rparr>)
        | Some (Ok res, s1) \<Rightarrow> Some (Ok (l res), srv\<lparr>srv_service := s1\<rparr>))" for rid ch k l
    using sign_call [OF assms, of rid ch] by (auto intro: completes_ok completes_with split: result.split)
  then show ?thesis
    by (simp add: handleSign_def Let_def assms completes_here split: option.split)
qed

lemma handleReset_completes:
  assumes "ready (srv_service srv)"
  shows "completes ready safe srv (handleReset a r ws srv)"
  using reset_call [OF assms]
  by (auto simp: handleReset_def assms simp del: append.simps append_Cons
      intro: completes_here completes_ok completes_with split: option.split result.split)

lemma handleHealth_completes:
  assumes "ready (srv_service srv)"
  shows "completes ready safe srv (handleHealth a r ws srv)"
  using health_call [OF assms]
  by (auto simp: handleHealth_def assms intro: completes_here completes_ok completes_with split: option.split prod.split)

lemma handleDebug_completes:
  assumes "ready (srv_service srv)" and "holds_newest h (srv_recent srv)"
  shows "completes ready safe srv (handleDebug a f r ws srv)"
  using diagnostics_call [OF assms(1)]
  by (auto simp: handleDebug_def assms listNewestFirst_holds [OF assms(2)] Let_def
      intro: completes_here completes_ok completes_with split: option.split prod.split)

lemma mux_completes:
  assumes "ready (srv_service srv)" and "holds_newest h (srv_recent srv)"
  shows "completes ready safe srv (mux a f fallback r ws srv)"
  by (simp add: mux_def withAuth_completes assms handleCertificate_completes handleSign_completes
      handleReset_completes handleHealth_completes handleDebug_completes [OF assms] completes_here)

end

section \<open>Observation\<close>

lemmas handler_defs = handleCertificate_def handleSign_def handleReset_def handleHealth_def handleDebug_def

definition same_frame :: "'s server \<Rightarrow> 's server \<Rightarrow> bool" where
  "same_frame srv srv1 \<longleftrightarrow> srv_recent srv1 = srv_recent srv \<and> srv_bearerToken srv1 = srv_bearerToken srv"

lemma handlers_keep:
  "handleCertificate a r ws srv = Some (x, srv1) \<Longrightarrow> same_frame srv srv1"
  "handleSign a r ws srv = Some (x, srv1) \<Longrightarrow> same_frame srv srv1"
  "handleReset a r ws srv = Some (x, srv1) \<Longrightarrow> same_frame srv srv1"
  "handleHealth a r ws srv = Some (x, srv1) \<Longrightarrow> same_frame srv srv1"
  "handleDebug a f r ws srv = Some (x, srv1) \<Longrightarrow> same_frame srv srv1"
  by (auto simp: handler_defs Let_def same_frame_def simp del: append.simps append_Cons
      split: option.splits prod.splits result.splits if_splits)

lemma withAuth_cases:
  "withAuth q k r ws srv = Some (x, srv1) \<Longrightarrow> k r ws srv = Some (x, srv1) \<or> srv1 = srv"
  by (auto simp: withAuth_def Let_def split: if_splits)

lemma same_frame_refl: "same_frame srv srv"
  by (simp add: same_frame_def)

lemma mux_keeps: "mux a f fallback r ws srv = Some (x, srv1) \<Longrightarrow> same_frame srv srv1"
  by (auto simp: mux_def intro: handlers_keep same_frame_refl dest!: withAuth_cases split: if_splits)

text \<open>The entry that \<^verbatim>\<open>observe\<close> adds for a request and its response.\<close>

definition observed :: "'s api \<Rightarrow> clock_format \<Rightarrow> request \<Rightarrow> 's server \<Rightarrow> 's server \<Rightarrow> statusRecorder
    \<Rightarrow> requestState \<Rightarrow> RecentRequest" where
  "observed a f r srv srv1 w st =
     (let now = api_now a (srv_service srv1)
      in recent_entry (fmt_millis f now) (http_Method r) (http_Path r) (statusOrOK w)
           (now - api_now a (srv_service srv))
           (if st_note st = [] then defaultNote (rec_status w) else st_note st))"

lemma serve_observed:
  assumes m: "mux a f fallback r (new_recorder, new_state) srv = Some (Ok (w, st), srv1)"
    and h: "holds_newest h (srv_recent srv)"
  shows "\<exists>rc. serve a f fallback r srv = Some (Ok (w, st), srv1\<lparr>srv_recent := rc\<rparr>)
     \<and> holds_newest (if isBusinessPath (http_Path r) then observed a f r srv srv1 w st # h else h) rc
     \<and> rc_capacity rc = rc_capacity (srv_recent srv)"
proof -
  have k: "srv_recent srv1 = srv_recent srv" using mux_keeps [OF m] by (simp add: same_frame_def)
  show ?thesis
  proof (cases "isBusinessPath (http_Path r)")
    case True
    obtain rc where "recent_add (observed a f r srv srv1 w st) (srv_recent srv) = Ok rc"
      "holds_newest (observed a f r srv srv1 w st # h) rc" "rc_capacity rc = rc_capacity (srv_recent srv)"
      using recent_add_holds [OF h] by blast
    then show ?thesis
      using True by (auto simp: serve_def observe_def m Let_def k observed_def)
  next
    case False
    then have "serve a f fallback r srv = Some (Ok (w, st), srv1\<lparr>srv_recent := srv_recent srv\<rparr>)"
      by (simp add: serve_def observe_def m Let_def flip: k)
    with False h show ?thesis by auto
  qed
qed

lemma serve_OkE:
  assumes "serve a f fallback r srv = Some (Ok (w, st), srv')"
  obtains srv1 where "mux a f fallback r (new_recorder, new_state) srv = Some (Ok (w, st), srv1)"
    "srv_service srv' = srv_service srv1" "srv_bearerToken srv' = srv_bearerToken srv"
proof -
  obtain srv1 where m: "mux a f fallback r (new_recorder, new_state) srv = Some (Ok (w, st), srv1)"
    "srv_service srv' = srv_service srv1 \<and> srv_bearerToken srv' = srv_bearerToken srv1"
    using assms
    by (auto simp: serve_def observe_def Let_def split: option.splits result.splits prod.splits if_splits)
  with mux_keeps [OF m(1)] that show ?thesis by (simp add: same_frame_def)
qed

text \<open>The response to an unauthorized request.\<close>

lemma mux_unauthorized:
  assumes "isBusinessPath (http_Path r) \<or> http_Path r = ''/debug/usb''"
    and "\<not> authorized (srv_bearerToken srv) (\<not> isBusinessPath (http_Path r)) r"
  shows "\<exists>w st. mux a f fallback r (new_recorder, new_state) srv = Some (Ok (w, st), srv)
     \<and> rec_wire w = Some 401 \<and> rec_status w = 401 \<and> st_note st = ''unauthorized''
     \<and> rec_body w \<in> {JsonDetail ''unauthorized'', HtmlUnauthorized}"
proof -
  have "\<exists>w st. withAuth q h r (new_recorder, new_state) srv = Some (Ok (w, st), srv)
     \<and> rec_wire w = Some 401 \<and> rec_status w = 401 \<and> st_note st = ''unauthorized''
     \<and> rec_body w \<in> {JsonDetail ''unauthorized'', HtmlUnauthorized}"
    if "\<not> authorized (srv_bearerToken srv) q r" for q h
    using that writeJSON_fresh [of new_recorder 401 "JsonDetail ''unauthorized''"]
    by (simp add: withAuth_def Let_def Write_body_def WriteHeader_def)
  then show ?thesis
    using assms by (auto simp: mux_def isBusinessPath_def)
qed

section \<open>The service behind the handlers\<close>

definition service_ready :: "'w service \<Rightarrow> bool" where
  "service_ready sv \<longleftrightarrow> \<not> gt_token (sv_gate sv) \<and> sc_ttl (sv_cache sv) = cacheTTL"

definition driver_safe :: "'w chip_driver \<Rightarrow> bool" where
  "driver_safe d \<longleftrightarrow>
     (\<forall>w w'. cd_ProtocolMajor d w \<noteq> Some (Panic, w') \<and> cd_ReadCertificate d w \<noteq> Some (Panic, w')
        \<and> (\<forall>ch. cd_SignChallenge d ch w \<noteq> Some (Panic, w')))"

lemma cache_ttl:
  "cache_get now k c = (x, c') \<Longrightarrow> sc_ttl c' = sc_ttl c" "sc_ttl (cache_put k e c) = sc_ttl c"
  by (auto simp: cache_get_def cache_put_def split: option.splits if_splits)

lemma Sign_lookup_ttl: "Sign_lookup d rid ch sv = (x, sv') \<Longrightarrow> sc_ttl (sv_cache sv') = sc_ttl (sv_cache sv)"
  by (auto simp: Sign_lookup_def dest: cache_ttl(1) split: prod.splits option.splits)

lemma thread_run_ttl:
  "thread_run d u p sv = Some (p', sv') \<Longrightarrow> sc_ttl (sv_cache sv') = sc_ttl (sv_cache sv)"
proof (cases p)
  case (Entering c)
  then show "thread_run d u p sv = Some (p', sv') \<Longrightarrow> ?thesis"
    by (cases c) (auto simp: Sign_enter_def dest: Sign_lookup_ttl split: option.splits prod.splits if_splits)
next
  case (Holding c wait)
  then show "thread_run d u p sv = Some (p', sv') \<Longrightarrow> ?thesis"
    by (cases c) (auto dest: Sign_lookup_ttl split: option.splits prod.splits)
next
  case (Calling c wait st)
  then show "thread_run d u p sv = Some (p', sv') \<Longrightarrow> ?thesis"
    by (cases c) (auto simp: on_hardware_def split: option.splits prod.splits)
qed (auto simp: on_hardware_def Certificate_store_def Sign_store_def Let_def cache_ttl(2)
      split: option.splits prod.splits)

lemma run_thread_ttl:
  "run_thread n d u p sv = Some (r, sv') \<Longrightarrow> sc_ttl (sv_cache sv') = sc_ttl (sv_cache sv)"
proof (induction n arbitrary: p sv)
  case 0
  then show ?case by (cases p) auto
next
  case (Suc n)
  then show ?case
    by (cases "\<exists>q. p = Returned q") (auto simp: run_thread_Suc dest: thread_run_ttl split: option.splits prod.splits)
qed

context service_driver
begin

lemma sign_ready:
  assumes "service_ready sv"
  shows "\<exists>r sv'. service_call d u (CallSign rid ch) sv = Some (r, sv') \<and> service_ready sv'
     \<and> (driver_safe d \<longrightarrow> sign_result r \<noteq> Panic)"
proof -
  obtain r e w' sv' where s: "sign_spec d u rid ch (live_now d sv rid) (sv_world sv) = Some (r, e, w')"
    "service_call d u (CallSign rid ch) sv = Some (r, sv')" "\<not> gt_token (sv_gate sv')"
    using sign_call_spec [of sv u rid ch] assms unfolding service_ready_def by blast
  have "sc_ttl (sv_cache sv') = cacheTTL"
    using run_thread_ttl [OF s(2) [unfolded service_call_def]] assms by (simp add: service_ready_def)
  moreover have "driver_safe d \<longrightarrow> sign_result r \<noteq> Panic"
    using s(1) by (auto simp: sign_spec_def driver_safe_def cachedResult_def
        split: if_splits option.splits result.splits prod.splits)
  ultimately show ?thesis using s(2,3) by (auto simp: service_ready_def)
qed

lemma certificate_ready:
  assumes "service_ready sv"
  shows "\<exists>r sv'. service_call d u CallCertificate sv = Some (r, sv') \<and> service_ready sv'
     \<and> (driver_safe d \<longrightarrow> certificate_result r \<noteq> Panic)"
proof (cases "sv_certificate sv")
  case None
  obtain r w1 where pm: "cd_ProtocolMajor d (sv_world sv) = Some (r, w1)"
    by (rule hardware_run [OF protocol_major_returns])
  obtain q w2 where rc: "cd_ReadCertificate d w1 = Some (q, w2)"
    by (rule hardware_run [OF read_certificate_returns])
  have "driver_safe d \<longrightarrow> r \<noteq> Panic \<and> q \<noteq> Panic"
    using pm rc by (auto simp: driver_safe_def)
  then show ?thesis
    using None assms pm rc
    by (cases r; cases q)
      (simp_all add: service_ready_def service_call_def numeral_eq_Suc run_thread_Suc Certificate_load_def
        gate_acquire_def on_hardware_def Certificate_store_def Let_def gate_release_def)
qed (simp add: cert_cached assms)

end

lemma service_api_simps [simp]:
  "api_Certificate (service_api d i u) sv
     = map_option (\<lambda>(r, sv'). (certificate_result r, sv')) (service_call d u CallCertificate sv)"
  "api_Sign (service_api d i u) rid ch sv
     = map_option (\<lambda>(r, sv'). (sign_result r, sv')) (service_call d u (CallSign rid ch) sv)"
  "api_Reset (service_api d i u) = Reset" "api_Health (service_api d i u) = Health i"
  "api_Diagnostics (service_api d i u) = Diagnostics i" "api_now (service_api d i u) = sv_now d"
  by (simp_all add: service_api_def)

lemma service_http:
  assumes "service_driver d"
  shows "http_service (service_api d i u) service_ready (driver_safe d)"
proof
  fix s :: "'a service" and rid ch
  assume s: "service_ready s"
  show "\<exists>r s'. api_Certificate (service_api d i u) s = Some (r, s') \<and> service_ready s' \<and> (driver_safe d \<longrightarrow> r \<noteq> Panic)"
    using service_driver.certificate_ready [OF assms s, of u] by auto
  show "\<exists>r s'. api_Sign (service_api d i u) rid ch s = Some (r, s') \<and> service_ready s' \<and> (driver_safe d \<longrightarrow> r \<noteq> Panic)"
    using service_driver.sign_ready [OF assms s, of u rid ch] by auto
qed (simp_all add: Reset_def Health_def Diagnostics_def inspectUSB_def service_ready_def split: prod.split)

interpretation stack_http: http_service
    "service_api (stack_driver g address7Bit) (InspectUSB g) uuid_ok" service_ready
    "driver_safe (stack_driver g address7Bit)" for g address7Bit uuid_ok
  by (rule service_http [OF stack.service_driver_axioms])

lemma stack_driver_safe:
  assumes "reads_fit g"
  shows "driver_safe (stack_driver g address7Bit)"
proof -
  let ?drv = "\<lparr>drv_transport = ch341_i2c g, drv_address7Bit = address7Bit\<rparr>"
  have t: "drv_transport ?drv = ch341_i2c g" by simp
  have safe: "bus_safe (ch341_i2c g)" by (simp add: bus_safe_def Transaction_never_panics [OF assms])
  show ?thesis
    unfolding driver_safe_def stack_driver_def Let_def
    using lands_outcome [OF ch341_bus.ProtocolMajor_lands [OF t]] lands_outcome [OF ch341_bus.ReadCertificate_lands [OF t]]
      lands_outcome [OF ch341_bus.SignChallenge_lands [OF t]] safe
    by (simp, metis option.inject prod.inject)
qed

section \<open>Signing requests\<close>

lemma b64_chars_clean: "\<forall>c \<in> set b64_alphabet. clean_char c"
  unfolding b64_alphabet_def clean_char_def byte_of_def by simp

lemma base64_clean: "list_all clean_char (base64_EncodeToString bs)"
proof -
  have "clean_char (b64_char n)" for n using b64_char_in b64_chars_clean by blast
  moreover have "clean_char (CHR ''='')" by (simp add: clean_char_def byte_of_def)
  ultimately show ?thesis by (induction bs rule: base64_EncodeToString.induct) simp_all
qed

lemma base64_length: "length (base64_EncodeToString bs) = 4 * ((length bs + 2) div 3)"
proof (induction bs rule: base64_EncodeToString.induct)
  case (4 a b c rest)
  have "(length (a # b # c # rest) + 2) div 3 = Suc ((length rest + 2) div 3)"
    using div_add_self2 [of 3 "length rest + 2"] by (simp add: add.commute)
  with 4 show ?case by (simp only: base64_EncodeToString.simps) simp
qed simp_all

lemma base64_nonempty: "bs \<noteq> [] \<Longrightarrow> base64_EncodeToString bs \<noteq> []"
  by (cases bs rule: base64_EncodeToString.cases) simp_all

text \<open>A well-formed signing request, with a challenge and a request id that the service accepts.\<close>

definition sign_post :: "(string \<Rightarrow> bool) \<Rightarrow> string \<Rightarrow> byte list \<Rightarrow> request \<Rightarrow> bool" where
  "sign_post uuid_ok requestID challenge r \<longleftrightarrow>
     http_Method r = ''POST'' \<and> http_Path r = ''/mfi/sign'' \<and> http_BodyReadable r
     \<and> http_Body r = sign_request_body (base64_EncodeToString challenge) requestID
     \<and> requestID \<noteq> [] \<and> list_all clean_char requestID \<and> length requestID \<le> 64 \<and> uuid_ok requestID
     \<and> challenge \<noteq> [] \<and> length challenge \<le> 128"

lemma sign_post_decodes:
  assumes "sign_post uuid_ok rid ch r"
  shows "decodeJSON (http_BodyReadable r) (http_Body r)
     = Some \<lparr>rq_Challenge = base64_EncodeToString ch, rq_RequestID = rid\<rparr>"
proof -
  have r: "http_BodyReadable r" "http_Body r = sign_request_body (base64_EncodeToString ch) rid"
    "list_all clean_char rid" "length rid \<le> 64" "length ch \<le> 128"
    using assms by (simp_all add: sign_post_def)
  have "length (base64_EncodeToString ch) \<le> 4 * ((128 + 2) div 3)"
    unfolding base64_length using r(5) by (intro mult_le_mono div_le_mono) simp_all
  then have "length (sign_request_body (base64_EncodeToString ch) rid) \<le> maximumRequestBodyBytes"
    using r(4) by (simp add: sign_request_body_def json_quote_def mfi_consts)
  from decode_sign_request [OF base64_clean r(3) this] show ?thesis by (simp add: r)
qed

lemma handleSign_post:
  assumes "sign_post uuid_ok rid ch r"
    and "service_call d uuid_ok (CallSign rid ch) (srv_service srv) = Some (ReplySign res, sv')"
  shows "handleSign (service_api d i uuid_ok) r ws srv =
     Some (Ok (writeJSON 200 (JsonSignature (base64_EncodeToString (sr_Signature res))) (fst ws),
        (snd ws)\<lparr>st_requestID := rid, st_note := chip_note (sr_Cached res),
           st_chipWait := sr_WaitDuration res, st_chipTime := sr_ChipDuration res\<rparr>),
        srv\<lparr>srv_service := sv'\<rparr>)"
proof -
  have r: "http_Method r = ''POST''" "rid \<noteq> []" "ch \<noteq> []"
    using assms(1) by (simp_all add: sign_post_def)
  show ?thesis
    using r(2) base64_nonempty [OF r(3)]
    by (simp add: handleSign_def requireMethod_def r(1) sign_post_decodes [OF assms(1)]
        base64_decode_encode assms(2))
qed

lemma serve_sign_post:
  assumes "sign_post uuid_ok rid ch r" and "authorized (srv_bearerToken srv) False r"
    and "holds_newest h (srv_recent srv)"
    and "service_call d uuid_ok (CallSign rid ch) (srv_service srv) = Some (ReplySign res, sv')"
  shows "\<exists>w st srv'. serve (service_api d i uuid_ok) f fallback r srv = Some (Ok (w, st), srv')
     \<and> rec_wire w = Some 200 \<and> rec_body w = JsonSignature (base64_EncodeToString (sr_Signature res))
     \<and> st_note st = chip_note (sr_Cached res) \<and> st_requestID st = rid
     \<and> srv_service srv' = sv' \<and> srv_bearerToken srv' = srv_bearerToken srv
     \<and> (\<exists>h'. holds_newest h' (srv_recent srv'))"
proof -
  have path: "http_Path r = ''/mfi/sign''" using assms(1) by (simp add: sign_post_def)
  have m: "mux (service_api d i uuid_ok) f fallback r (new_recorder, new_state) srv =
     Some (Ok (writeJSON 200 (JsonSignature (base64_EncodeToString (sr_Signature res))) new_recorder,
        new_state\<lparr>st_requestID := rid, st_note := chip_note (sr_Cached res),
           st_chipWait := sr_WaitDuration res, st_chipTime := sr_ChipDuration res\<rparr>),
        srv\<lparr>srv_service := sv'\<rparr>)"
    using assms(2) by (simp add: mux_def path withAuth_def handleSign_post [OF assms(1,4)])
  show ?thesis
    using serve_observed [OF m assms(3)] by (auto simp: writeJSON_fresh)
qed

text \<open>A signing request that must be refused: no valid JSON body, a missing field, a challenge that is
  not base64, or a request id or challenge that the service does not accept.\<close>

definition sign_invalid :: "(string \<Rightarrow> bool) \<Rightarrow> request \<Rightarrow> bool" where
  "sign_invalid uuid_ok r \<longleftrightarrow>
     (case decodeJSON (http_BodyReadable r) (http_Body r) of
        None \<Rightarrow> True
      | Some req \<Rightarrow>
          rq_RequestID req = [] \<or> rq_Challenge req = []
          \<or> (case base64_DecodeString (rq_Challenge req) of
               None \<Rightarrow> True
             | Some challenge \<Rightarrow>
                 \<not> uuid_ok (rq_RequestID req) \<or> challenge = [] \<or> length challenge > 128))"

lemma service_call_invalid:
  assumes "\<not> uuid_ok rid \<or> ch = [] \<or> length ch > 128"
  shows "\<exists>e. service_call d uuid_ok (CallSign rid ch) sv = Some (ReplyError (Sentinel e), sv)
     \<and> e \<in> {ErrRequestIDFormat, ErrChallengeSize}"
  using assms by (cases "uuid_ok rid") (auto simp: service_call_def numeral_eq_Suc Sign_enter_def)

lemma handleSign_invalid:
  assumes "http_Method r = ''POST''" and "sign_invalid uuid_ok r" and "rec_status (fst ws) = 0"
  shows "\<exists>w st. handleSign (service_api d i uuid_ok) r ws srv = Some (Ok (w, st), srv)
     \<and> rec_wire w = Some 400 \<and> st_note st = ''bad request''"
proof -
  have bad: "\<exists>w st. Some (Ok (bad_request detail ws'), srv) = Some (Ok (w, st), srv)
      \<and> rec_wire w = Some 400 \<and> st_note st = ''bad request''" if "fst ws' = fst ws" for detail ws'
    using that assms(3) by (simp add: bad_request_def writeJSON_fresh)
  have sentinel: "\<exists>w st. Some (Ok (writeServiceError (Sentinel e) ws'), srv) = Some (Ok (w, st), srv)
      \<and> rec_wire w = Some 400 \<and> st_note st = ''bad request''"
    if "fst ws' = fst ws" "e \<in> {ErrRequestIDFormat, ErrChallengeSize}" for e ws'
    using that assms(3) serviceErrorResponse_client [of "Sentinel e"]
    by (auto simp: writeServiceError_def writeJSON_fresh client_error_def)
  show ?thesis
  proof (cases "decodeJSON (http_BodyReadable r) (http_Body r)")
    case None
    then show ?thesis using bad [of ws] by (simp add: handleSign_def requireMethod_def assms(1))
  next
    case (Some req)
    let ?ws = "(fst ws, (snd ws)\<lparr>st_requestID := rq_RequestID req\<rparr>)"
    show ?thesis
    proof (cases "rq_RequestID req = [] \<or> rq_Challenge req = [] \<or> base64_DecodeString (rq_Challenge req) = None")
      case True
      then show ?thesis
        using bad [of ?ws] by (auto simp: handleSign_def requireMethod_def assms(1) Some Let_def)
    next
      case False
      then obtain ch where ch: "base64_DecodeString (rq_Challenge req) = Some ch" by auto
      then have "\<not> uuid_ok (rq_RequestID req) \<or> ch = [] \<or> length ch > 128"
        using assms(2) Some False by (simp add: sign_invalid_def)
      from service_call_invalid [of uuid_ok "rq_RequestID req" ch, OF this, of d "srv_service srv"] obtain e where
        e: "service_call d uuid_ok (CallSign (rq_RequestID req) ch) (srv_service srv)
            = Some (ReplyError (Sentinel e), srv_service srv)"
          "e \<in> {ErrRequestIDFormat, ErrChallengeSize}" by blast
      show ?thesis
        using sentinel [of ?ws, OF _ e(2)] False
        by (simp add: handleSign_def requireMethod_def assms(1) Some ch e(1))
    qed
  qed
qed

section \<open>Properties\<close>

text \<open>A request with other credentials.\<close>

abbreviation with_credentials :: "string \<Rightarrow> string \<Rightarrow> request \<Rightarrow> request" where
  "with_credentials x y r \<equiv> r\<lparr>http_Authorization := x, http_QueryToken := y\<rparr>"

lemma handlers_credentials:
  "handleCertificate a (with_credentials x y r) ws srv = handleCertificate a r ws srv"
  "handleSign a (with_credentials x y r) ws srv = handleSign a r ws srv"
  "handleReset a (with_credentials x y r) ws srv = handleReset a r ws srv"
  "handleDebug a f (with_credentials x y r) ws srv = handleDebug a f r ws srv"
  "handleHealth a (with_credentials x y r) ws srv = handleHealth a r ws srv"
  by (simp_all add: handler_defs requireMethod_def acceptsJSON_def split: prod.split result.split)

lemma authorized_query: "authorized t False (r\<lparr>http_QueryToken := x\<rparr>) \<longleftrightarrow> authorized t False r"
  by (simp add: authorized_def provided_token_def)

lemma serve_credentials:
  assumes "routed (http_Path r)"
    and "authorized (srv_bearerToken srv) (\<not> isBusinessPath (http_Path r)) (with_credentials x y r)
       \<longleftrightarrow> authorized (srv_bearerToken srv) (\<not> isBusinessPath (http_Path r)) r"
  shows "serve a f fallback (with_credentials x y r) srv = serve a f fallback r srv"
proof -
  have m: "mux a f fallback (with_credentials x y r) ws srv = mux a f fallback r ws srv" for ws
    using assms
    by (auto simp: mux_def routed_def isBusinessPath_def withAuth_def handlers_credentials acceptsJSON_def)
  have p: "http_Path (with_credentials x y r) = http_Path r" "http_Method (with_credentials x y r) = http_Method r"
    by simp_all
  show ?thesis unfolding serve_def observe_def m p ..
qed

text \<open>C32. A request to a protected path (the business paths and the debug page) without the configured
  token, up to a collision of SHA-256, is answered with 401 and never reaches the service: the
  server differs only in the log of recent requests, which for a business path gets one entry.\<close>

theorem unauthorized_refused:
  assumes "isBusinessPath (http_Path r) \<or> http_Path r = ''/debug/usb''"
    and "holds_newest h (srv_recent srv)"
  shows "srv_bearerToken srv = []
     \<or> sha256_Sum256 (string_bytes (provided_token (\<not> isBusinessPath (http_Path r)) r))
         = sha256_Sum256 (string_bytes (srv_bearerToken srv))
     \<or> (\<exists>w st rc. serve a f fallback r srv = Some (Ok (w, st), srv\<lparr>srv_recent := rc\<rparr>)
          \<and> rec_wire w = Some 401 \<and> st_note st = ''unauthorized''
          \<and> rec_body w \<in> {JsonDetail ''unauthorized'', HtmlUnauthorized}
          \<and> holds_newest (if isBusinessPath (http_Path r) then observed a f r srv srv w st # h else h) rc)"
proof (cases "authorized (srv_bearerToken srv) (\<not> isBusinessPath (http_Path r)) r")
  case True
  then show ?thesis by (auto simp: authorized_def)
next
  case False
  obtain w st where m: "mux a f fallback r (new_recorder, new_state) srv = Some (Ok (w, st), srv)"
    and w: "rec_wire w = Some 401" "st_note st = ''unauthorized''"
      "rec_body w \<in> {JsonDetail ''unauthorized'', HtmlUnauthorized}"
    using mux_unauthorized [OF assms(1) False] by blast
  from serve_observed [OF m assms(2)] w show ?thesis by blast
qed

definition test_request :: request where
  "test_request = \<lparr>http_Method = ''POST'', http_Path = ''/mfi/sign'', http_Authorization = [],
     http_Accept = [], http_QueryToken = [],
     http_Body = sign_request_body (base64_EncodeToString [1, 2]) ''r'', http_BodyReadable = True\<rparr>"

definition test_server :: "string \<Rightarrow> int service server" where
  "test_server token = \<lparr>srv_bearerToken = token, srv_startedAt = 0, srv_recent = newRecentStore 20,
     srv_service = test_service\<rparr>"

definition test_format :: clock_format where
  "test_format = \<lparr>fmt_RFC3339 = showInt, fmt_millis = showInt\<rparr>"

definition test_inspector :: "bool \<Rightarrow> int \<Rightarrow> USBStatus \<times> int" where
  "test_inspector strings w = (\<lparr>us_State = ''ready'', us_Reason = [], us_VIDPID = ''1a86:5512'', us_Devices = []\<rparr>, w)"

abbreviation test_api :: "int service api" where
  "test_api \<equiv> service_api test_driver test_inspector (\<lambda>_. True)"

lemma test_server_simps [simp]:
  "srv_recent (test_server t) = newRecentStore 20" "srv_bearerToken (test_server t) = t"
  "srv_service (test_server t) = test_service"
  by (simp_all add: test_server_def)

lemma test_request_facts:
  "isBusinessPath (http_Path test_request)" "http_Path test_request = ''/mfi/sign''"
  "http_Authorization test_request = []"
  "sign_post (\<lambda>_. True) ''r'' [1, 2] test_request"
  by (simp_all add: test_request_def isBusinessPath_def sign_post_def clean_char_def byte_of_def)

theorem unauthorized_refused_witness:
  "sha256_Sum256 (string_bytes []) = sha256_Sum256 (string_bytes ''token'')
     \<or> (\<exists>w st rc. serve test_api test_format (\<lambda>r w. w) test_request (test_server ''token'')
          = Some (Ok (w, st), (test_server ''token'')\<lparr>srv_recent := rc\<rparr>) \<and> rec_wire w = Some 401)"
  using unauthorized_refused [of test_request "[]" "test_server ''token''" test_api test_format "\<lambda>r w. w"]
  by (auto simp: test_request_facts isBusinessPath_def holds_newest_new provided_token_def)

text \<open>C33. The configured token is accepted in the Authorization header everywhere, and as a query
  parameter by the debug page when there is no bearer token; for the business paths the query
  parameter has no effect at all. On every route the credentials decide about admission and
  influence nothing else: two requests that differ only in them, and are both admitted or both
  refused, get the same answer and leave the same state, the log of recent requests included.\<close>

theorem token_accepted:
  shows "(http_Authorization r = ''Bearer '' @ srv_bearerToken srv \<longrightarrow> withAuth q k r ws srv = k r ws srv)
     \<and> (http_Authorization r = [] \<and> http_QueryToken r = srv_bearerToken srv
          \<longrightarrow> withAuth True k r ws srv = k r ws srv)
     \<and> (isBusinessPath (http_Path r)
          \<longrightarrow> serve a f fallback (r\<lparr>http_QueryToken := x\<rparr>) srv = serve a f fallback r srv)
     \<and> (routed (http_Path r)
          \<and> authorized (srv_bearerToken srv) (\<not> isBusinessPath (http_Path r)) (with_credentials x y r)
              = authorized (srv_bearerToken srv) (\<not> isBusinessPath (http_Path r)) r
          \<longrightarrow> serve a f fallback (with_credentials x y r) srv = serve a f fallback r srv)"
proof (intro conjI impI)
  assume "http_Authorization r = ''Bearer '' @ srv_bearerToken srv"
  then have "authorized (srv_bearerToken srv) q r"
    by (cases "srv_bearerToken srv = []")
       (auto simp: authorized_def provided_token_def strings_TrimPrefix_def has_prefix_append [of "''Bearer ''", simplified])
  then show "withAuth q k r ws srv = k r ws srv" by (simp add: withAuth_def)
next
  assume "http_Authorization r = [] \<and> http_QueryToken r = srv_bearerToken srv"
  then have "authorized (srv_bearerToken srv) True r"
    by (simp add: authorized_def provided_token_def)
  then show "withAuth True k r ws srv = k r ws srv" by (simp add: withAuth_def)
next
  assume "isBusinessPath (http_Path r)"
  then show "serve a f fallback (r\<lparr>http_QueryToken := x\<rparr>) srv = serve a f fallback r srv"
    using serve_credentials [where r = r and srv = srv and x = "http_Authorization r" and y = x and a = a and f = f
        and fallback = fallback] by (simp add: routed_def authorized_query)
next
  assume "routed (http_Path r)
     \<and> authorized (srv_bearerToken srv) (\<not> isBusinessPath (http_Path r)) (with_credentials x y r)
         = authorized (srv_bearerToken srv) (\<not> isBusinessPath (http_Path r)) r"
  then show "serve a f fallback (with_credentials x y r) srv = serve a f fallback r srv"
    by (intro serve_credentials) simp_all
qed

theorem token_accepted_witness:
  "withAuth False (handleSign test_api) (test_request\<lparr>http_Authorization := ''Bearer token''\<rparr>)
       (new_recorder, new_state) (test_server ''token'')
     = handleSign test_api (test_request\<lparr>http_Authorization := ''Bearer token''\<rparr>)
         (new_recorder, new_state) (test_server ''token'')"
  using token_accepted [of "test_request\<lparr>http_Authorization := ''Bearer token''\<rparr>" "test_server ''token''"
      False "handleSign test_api" "(new_recorder, new_state)"]
  by simp

text \<open>C34. A service error is a 400 exactly when it is the client's own; every other error gives 500 or
  503 with one of a fixed set of details, so that no internal error text reaches the client. In
  particular a vanished device is reported as a missing chip, and a timeout at the gate as a busy
  chip.\<close>

theorem serviceErrorResponse_classifies:
  shows "(client_error err \<longleftrightarrow> fst (serviceErrorResponse err) = 400)
     \<and> (\<not> client_error err \<longrightarrow> fst (serviceErrorResponse err) \<in> {500, 503}
          \<and> public_detail (fst (snd (serviceErrorResponse err))))
     \<and> (transport_IsKind err ErrorDeviceMissing
          \<longrightarrow> serviceErrorResponse (normalizeHardwareError err) = (503, ''chip missing'', ''error''))
     \<and> serviceErrorResponse (Sentinel ErrChipBusy) = (503, ''chip busy, retry'', ''chip busy'')"
proof (cases "client_error err")
  case True
  then show ?thesis by (simp add: serviceErrorResponse_client chip_missing_response chip_busy_response)
next
  case False
  then obtain status detail nt where r: "serviceErrorResponse err = (status, detail, nt)"
    "status = 500 \<or> status = 503" "public_detail detail"
    using serviceErrorResponse_hardware by blast
  from r(2) have "status \<noteq> 400" "status \<in> {500, 503}" by auto
  then show ?thesis
    using False r(3) by (simp add: r(1) chip_missing_response chip_busy_response)
qed

theorem serviceErrorResponse_classifies_witness:
  "serviceErrorResponse (normalizeHardwareError (TransportError ErrorDeviceMissing ''open CH341'' None))
     = (503, ''chip missing'', ''error'')"
  using serviceErrorResponse_classifies [of "TransportError ErrorDeviceMissing ''open CH341'' None"]
  by (simp add: transport_IsKind_def)

text \<open>C35. End to end: an authorized, well-formed signing request whose id is not in the cache is
  answered with 200 and the base64 form of the signature the chip produced; repeating the request
  at once gives the same body without touching the service state or the hardware.\<close>

theorem sign_request_served:
  assumes "service_driver d" and "sign_post uuid_ok requestID challenge r"
    and "authorized (srv_bearerToken srv) False r"
    and "service_ready (srv_service srv)" and "live_now d (srv_service srv) requestID = None"
    and "cd_SignChallenge d challenge (sv_world (srv_service srv)) = Some (Ok signature, world)"
    and "holds_newest h (srv_recent srv)"
  shows "\<exists>w st srv' w2 st2 srv2.
     serve (service_api d i uuid_ok) f fallback r srv = Some (Ok (w, st), srv')
     \<and> rec_wire w = Some 200 \<and> rec_body w = JsonSignature (base64_EncodeToString signature)
     \<and> st_note st = ''chip'' \<and> sv_world (srv_service srv') = world
     \<and> serve (service_api d i uuid_ok) f fallback r srv' = Some (Ok (w2, st2), srv2)
     \<and> rec_wire w2 = Some 200 \<and> rec_body w2 = rec_body w
     \<and> st_note st2 = ''idempotent-hit'' \<and> srv_service srv2 = srv_service srv'"
proof -
  have sp: "uuid_ok requestID" "challenge \<noteq> []" "length challenge \<le> 128"
    using assms(2) by (simp_all add: sign_post_def)
  let ?res = "\<lparr>sr_Signature = signature, sr_Cached = False, sr_WaitDuration = 0,
      sr_ChipDuration = cd_now d world - cd_now d (sv_world (srv_service srv))\<rparr>"
  let ?e = "entry_for d challenge signature world"
  have spec: "sign_spec d uuid_ok requestID challenge (live_now d (srv_service srv) requestID)
      (sv_world (srv_service srv)) = Some (ReplySign ?res, Some ?e, world)"
    using sp by (simp add: sign_spec_def assms(5,6))
  obtain sv' where c: "service_call d uuid_ok (CallSign requestID challenge) (srv_service srv) = Some (ReplySign ?res, sv')"
    and live: "live_now d sv' requestID = Some ?e" and world: "sv_world sv' = world"
    using service_driver.sign_call_spec [OF assms(1), of "srv_service srv" uuid_ok requestID challenge] assms(4) spec
    by (auto simp: service_ready_def)
  obtain w st srv' where 1: "serve (service_api d i uuid_ok) f fallback r srv = Some (Ok (w, st), srv')"
    "rec_wire w = Some 200" "rec_body w = JsonSignature (base64_EncodeToString signature)"
    "st_note st = ''chip''" "srv_service srv' = sv'" "srv_bearerToken srv' = srv_bearerToken srv"
    "\<exists>h'. holds_newest h' (srv_recent srv')"
    using serve_sign_post [OF assms(2,3,7) c, of i f fallback] by (auto simp: chip_note_def)
  then obtain h' where h': "holds_newest h' (srv_recent srv')" by blast
  have c2: "service_call d uuid_ok (CallSign requestID challenge) (srv_service srv')
      = Some (ReplySign \<lparr>sr_Signature = signature, sr_Cached = True, sr_WaitDuration = 0, sr_ChipDuration = 0\<rparr>, sv')"
    unfolding 1(5) using sign_hit [of uuid_ok requestID challenge d sv' ?e, OF sp live]
    by (simp add: cachedResult_def entry_for_def)
  have auth: "authorized (srv_bearerToken srv') False r" using assms(3) by (simp add: 1(6))
  show ?thesis
    using 1(1-6) world serve_sign_post [OF assms(2) auth h' c2, of i f fallback]
    by (fastforce simp: chip_note_def)
qed

theorem sign_request_served_witness:
  "\<exists>w st srv'. serve test_api test_format (\<lambda>r w. w) test_request (test_server []) = Some (Ok (w, st), srv')
     \<and> rec_wire w = Some 200 \<and> rec_body w = JsonSignature (base64_EncodeToString [2, 1])"
proof -
  have live: "live_now test_driver test_service ''r'' = None"
    by (simp add: live_now_def cache_get_def test_service_def newSignatureCache_def)
  show ?thesis
    using sign_request_served [OF test.service_driver_axioms test_request_facts(4), of "test_server []" "[2, 1]" 1 "[]"
        test_inspector test_format "\<lambda>r w. w"] live
    by (auto simp: authorized_def service_ready_def test_service_def newChipGate_def newSignatureCache_def
        holds_newest_new)
qed

text \<open>C36. Every other signing request is refused with 400 before it reaches the gate or the hardware:
  a body that is not exactly one JSON object of the right shape within 64 KiB, a missing field, a
  challenge that is not base64 or not 1 to 128 bytes long, a request id that is not a UUID. The
  server differs only in the log of recent requests.\<close>

theorem invalid_sign_refused:
  assumes "http_Method r = ''POST''" and "http_Path r = ''/mfi/sign''"
    and "authorized (srv_bearerToken srv) False r" and "sign_invalid uuid_ok r"
    and "holds_newest h (srv_recent srv)"
  shows "\<exists>w st rc. serve (service_api d i uuid_ok) f fallback r srv = Some (Ok (w, st), srv\<lparr>srv_recent := rc\<rparr>)
     \<and> rec_wire w = Some 400 \<and> st_note st = ''bad request'' \<and> (\<exists>e. holds_newest (e # h) rc)"
proof -
  obtain w st where h: "handleSign (service_api d i uuid_ok) r (new_recorder, new_state) srv = Some (Ok (w, st), srv)"
    and w: "rec_wire w = Some 400" "st_note st = ''bad request''"
    using handleSign_invalid [OF assms(1,4), of "(new_recorder, new_state)" d i srv] by auto
  have m: "mux (service_api d i uuid_ok) f fallback r (new_recorder, new_state) srv = Some (Ok (w, st), srv)"
    using assms(3) by (simp add: mux_def assms(2) withAuth_def h)
  have b: "isBusinessPath (http_Path r)" by (simp add: assms(2) isBusinessPath_def)
  show ?thesis using serve_observed [OF m assms(5)] w b by auto
qed

theorem invalid_sign_refused_witness:
  "\<exists>w st rc. serve test_api test_format (\<lambda>r w. w) (test_request\<lparr>http_Body := ''null''\<rparr>) (test_server [])
      = Some (Ok (w, st), (test_server [])\<lparr>srv_recent := rc\<rparr>) \<and> rec_wire w = Some 400"
proof -
  have bad: "sign_invalid (\<lambda>_. True) (test_request\<lparr>http_Body := ''null''\<rparr>)"
    by (simp add: sign_invalid_def test_request_def decodeJSON_def decode_value_def skip_space_def
        is_json_space_def mfi_consts)
  show ?thesis
    using invalid_sign_refused [of "test_request\<lparr>http_Body := ''null''\<rparr>" "test_server []" "\<lambda>_. True" "[]"
        test_driver test_inspector test_format "\<lambda>r w. w", OF _ _ _ bad]
    by (auto simp: test_request_def authorized_def holds_newest_new)
qed

text \<open>C37. Every request to a business path that is answered adds exactly one entry to the log of recent
  requests, with its method, its path, the status that went out on the wire and a note that is
  never empty; requests to other paths leave the log alone.\<close>

theorem requests_recorded:
  assumes "holds_newest h (srv_recent srv)" and "serve a f fallback r srv = Some (Ok (w, st), srv')"
  shows "\<exists>h'. listNewestFirst (srv_recent srv') = Ok (take (rc_capacity (srv_recent srv)) h')
     \<and> holds_newest h' (srv_recent srv')
     \<and> (if isBusinessPath (http_Path r)
         then \<exists>e. h' = e # h \<and> rr_Method e = http_Method r \<and> rr_Path e = http_Path r
                \<and> rec_wire w = Some (rr_Status e) \<and> rr_Note e \<noteq> []
         else h' = h)"
proof -
  obtain srv1 where m: "mux a f fallback r (new_recorder, new_state) srv = Some (Ok (w, st), srv1)"
    using assms(2) by (rule serve_OkE)
  let ?h' = "if isBusinessPath (http_Path r) then observed a f r srv srv1 w st # h else h"
  obtain rc where s: "serve a f fallback r srv = Some (Ok (w, st), srv1\<lparr>srv_recent := rc\<rparr>)"
    "holds_newest ?h' rc" "rc_capacity rc = rc_capacity (srv_recent srv)"
    using serve_observed [OF m assms(1)] by blast
  then have srv': "srv_recent srv' = rc" using assms(2) by auto
  have "rec_wire w = Some (statusOrOK w)" if "isBusinessPath (http_Path r)"
    using mux_answered [OF _ m] that by (auto simp: routed_def answered_def statusOrOK_def known_status_def)
  moreover have "defaultNote x \<noteq> []" for x by (simp add: defaultNote_def)
  ultimately have "if isBusinessPath (http_Path r)
      then \<exists>e. ?h' = e # h \<and> rr_Method e = http_Method r \<and> rr_Path e = http_Path r
                \<and> rec_wire w = Some (rr_Status e) \<and> rr_Note e \<noteq> []
      else ?h' = h"
    by (simp add: observed_def Let_def recent_entry_def)
  with s(2) show ?thesis
    using listNewestFirst_holds [OF s(2)] unfolding srv' s(3) by blast
qed

theorem requests_recorded_witness:
  "\<exists>w st srv' e. serve test_api test_format (\<lambda>r w. w) test_request (test_server []) = Some (Ok (w, st), srv')
     \<and> listNewestFirst (srv_recent srv') = Ok [e] \<and> rr_Path e = ''/mfi/sign'' \<and> rec_wire w = Some (rr_Status e)"
proof -
  have c: "service_call test_driver (\<lambda>_. True) (CallSign ''r'' [1, 2]) (srv_service (test_server []))
      = Some (ReplySign \<lparr>sr_Signature = [2, 1], sr_Cached = False, sr_WaitDuration = 0, sr_ChipDuration = 1\<rparr>,
          test_service1)"
    by (simp add: test_call1)
  have auth: "authorized (srv_bearerToken (test_server [])) False test_request" by (simp add: authorized_def)
  have h: "holds_newest [] (srv_recent (test_server []))" by (simp add: holds_newest_new)
  obtain w st srv' where s: "serve test_api test_format (\<lambda>r w. w) test_request (test_server []) = Some (Ok (w, st), srv')"
    using serve_sign_post [OF test_request_facts(4) auth h c] by blast
  have "rc_capacity (newRecentStore 20) = 20" by (simp add: newRecentStore_def)
  with requests_recorded [OF h s] s show ?thesis
    by (auto simp: test_request_facts isBusinessPath_def)
qed



end
