(* ===== verification/Config.thy ===== *)
theory Config
  imports GoStrings Ch341
begin

text \<open>
  Command line and configuration, internal/config/config.go. Errors are values of a datatype of
  their own: the program prints them and stops, and distinguishes only the request for help. The
  flag parser is that of the Go package \<^verbatim>\<open>flag\<close> with the flags that \<^verbatim>\<open>Parse\<close> defines; its usage
  output is not modelled.
\<close>

section \<open>Log levels\<close>

text \<open>The levels of \<^verbatim>\<open>log/slog\<close> and their numbers; a handler passes on records of its level and above.\<close>

datatype log_level = LevelDebug | LevelInfo | LevelWarn | LevelError

fun level_number :: "log_level \<Rightarrow> int" where
  "level_number LevelDebug = -4"
| "level_number LevelInfo = 0"
| "level_number LevelWarn = 4"
| "level_number LevelError = 8"

lemma level_number_inj: "level_number a = level_number b \<longleftrightarrow> a = b"
  by (cases a; cases b) auto

instantiation log_level :: linorder
begin

definition less_eq_log_level :: "log_level \<Rightarrow> log_level \<Rightarrow> bool" where
  "less_eq_log_level a b \<longleftrightarrow> level_number a \<le> level_number b"

definition less_log_level :: "log_level \<Rightarrow> log_level \<Rightarrow> bool" where
  "less_log_level a b \<longleftrightarrow> level_number a < level_number b"

instance
  by standard (auto simp: less_eq_log_level_def less_log_level_def level_number_inj
      order.antisym dest: order.antisym)

end

section \<open>Configuration\<close>

record Config =
  cf_HTTPAddr :: string
  cf_BearerToken :: string
  cf_USBIDs :: "USBID list"
  cf_I2CAddress :: byte
  cf_I2CSpeedKHz :: int
  cf_LogLevel :: log_level
  cf_LogFormat :: string
  cf_RecentCapacity :: nat

datatype usb_id_error =
    UsbIDFormat string
  | UsbIDVendor string
  | UsbIDProduct string
  | UsbIDNone

datatype config_error =
    FlagHelp
  | FlagSyntax string
  | FlagUndefined string
  | FlagNeedsArgument string
  | FlagInvalidValue string string
  | UnexpectedArguments "string list"
  | HTTPAddrError
  | USBIDsError usb_id_error
  | I2CAddressError string
  | SpeedError
  | LogLevelError
  | LogFormatError

definition defaultHTTPAddr :: string where [mfi_consts]: "defaultHTTPAddr = '':8972''"
definition defaultUSBIDs :: string where [mfi_consts]: "defaultUSBIDs = ''1a86:5512''"
definition defaultI2CAddress :: string where [mfi_consts]: "defaultI2CAddress = ''0x11''"
definition defaultI2CSpeedKHz :: int where [mfi_consts]: "defaultI2CSpeedKHz = 100"
definition defaultLogLevel :: string where [mfi_consts]: "defaultLogLevel = ''info''"
definition defaultLogFormat :: string where [mfi_consts]: "defaultLogFormat = ''json''"
definition defaultRecentEntries :: nat where [mfi_consts]: "defaultRecentEntries = 20"

section \<open>Values\<close>

fun usb_ids_loop :: "string list \<Rightarrow> USBID list \<Rightarrow> USBID list \<Rightarrow> usb_id_error + USBID list" where
  "usb_ids_loop [] seen ids = (if length ids = 0 then Inl UsbIDNone else Inr ids)"
| "usb_ids_loop (part # parts) seen ids =
     (case strings_Split (strings_TrimSpace part) (CHR '':'') of
        [f0, f1] \<Rightarrow>
          (case strconv_ParseUint f0 16 16 of
             None \<Rightarrow> Inl (UsbIDVendor f0)
           | Some vendor \<Rightarrow>
               (case strconv_ParseUint f1 16 16 of
                  None \<Rightarrow> Inl (UsbIDProduct f1)
                | Some product \<Rightarrow>
                    let i = \<lparr>Vendor = word_of_nat vendor, Product = word_of_nat product\<rparr>
                    in if i \<in> set seen then usb_ids_loop parts seen ids
                       else usb_ids_loop parts (i # seen) (ids @ [i])))
      | _ \<Rightarrow> Inl (UsbIDFormat part))"

definition parseUSBIDs :: "string \<Rightarrow> usb_id_error + USBID list" where
  "parseUSBIDs value = usb_ids_loop (strings_Split value (CHR '','')) [] []"

definition parseInteger :: "string \<Rightarrow> nat \<Rightarrow> nat option" where
  "parseInteger value bits = strconv_ParseUint value 0 bits"

definition parseLogLevel :: "string \<Rightarrow> log_level option" where
  "parseLogLevel value =
     (let v = strings_ToLower value
      in if v = ''debug'' then Some LevelDebug
         else if v = ''info'' then Some LevelInfo
         else if v = ''warn'' then Some LevelWarn
         else if v = ''error'' then Some LevelError
         else None)"

definition validSpeed :: "int \<Rightarrow> bool" where
  "validSpeed speed \<longleftrightarrow> speed = 20 \<or> speed = 100 \<or> speed = 400 \<or> speed = 750"

section \<open>Flags\<close>

record flag_values =
  fv_httpAddr :: string
  fv_bearerToken :: string
  fv_usbIDList :: string
  fv_i2cAddress :: string
  fv_speed :: int
  fv_logLevel :: string
  fv_logFormat :: string
  fv_showVersion :: bool

definition default_flags :: flag_values where
  "default_flags = \<lparr>fv_httpAddr = defaultHTTPAddr, fv_bearerToken = [], fv_usbIDList = defaultUSBIDs,
     fv_i2cAddress = defaultI2CAddress, fv_speed = defaultI2CSpeedKHz, fv_logLevel = defaultLogLevel,
     fv_logFormat = defaultLogFormat, fv_showVersion = False\<rparr>"

datatype flag_kind = BoolFlag | ValueFlag

definition flag_kind_of :: "string \<Rightarrow> flag_kind option" where
  "flag_kind_of name =
     (if name = ''version'' then Some BoolFlag
      else if name \<in> {''http-addr'', ''bearer-token'', ''usb-ids'', ''i2c-address'', ''i2c-speed-khz'',
                      ''log-level'', ''log-format''}
      then Some ValueFlag else None)"

text \<open>Setting a flag; \<open>None\<close>: the value does not parse.\<close>

definition set_flag :: "string \<Rightarrow> string \<Rightarrow> flag_values \<Rightarrow> flag_values option" where
  "set_flag name value fv =
     (if name = ''http-addr'' then Some (fv\<lparr>fv_httpAddr := value\<rparr>)
      else if name = ''bearer-token'' then Some (fv\<lparr>fv_bearerToken := value\<rparr>)
      else if name = ''usb-ids'' then Some (fv\<lparr>fv_usbIDList := value\<rparr>)
      else if name = ''i2c-address'' then Some (fv\<lparr>fv_i2cAddress := value\<rparr>)
      else if name = ''i2c-speed-khz''
      then map_option (\<lambda>n. fv\<lparr>fv_speed := n\<rparr>) (strconv_ParseInt64 value)
      else if name = ''log-level'' then Some (fv\<lparr>fv_logLevel := value\<rparr>)
      else if name = ''log-format'' then Some (fv\<lparr>fv_logFormat := value\<rparr>)
      else if name = ''version''
      then map_option (\<lambda>b. fv\<lparr>fv_showVersion := b\<rparr>) (strconv_ParseBool value)
      else None)"

text \<open>The name and the optional value of an argument \<open>name=value\<close>; the name is not empty, so the
  search for the equals sign starts at its second byte.\<close>

definition split_flag :: "string \<Rightarrow> string \<times> string option" where
  "split_flag s =
     (case index_char (CHR ''='') (drop 1 s) of
        None \<Rightarrow> (s, None)
      | Some i \<Rightarrow> (take (i + 1) s, Some (drop (i + 2) s)))"

text \<open>\<^verbatim>\<open>FlagSet.Parse\<close> with \<^verbatim>\<open>ContinueOnError\<close>: the flags and the remaining arguments.\<close>

definition flag_name :: "string \<Rightarrow> string" where
  "flag_name s = (if has_prefix s ''--'' then drop 2 s else drop 1 s)"

function flags_Parse :: "string list \<Rightarrow> flag_values \<Rightarrow> config_error + flag_values \<times> string list" where
  "flags_Parse [] fv = Inr (fv, [])"
| "flags_Parse (s # args) fv =
     (if length s < 2 \<or> \<not> has_prefix s ''-'' then Inr (fv, s # args)
      else if s = ''--'' then Inr (fv, args)
      else if flag_name s = [] \<or> hd (flag_name s) = CHR ''-'' \<or> hd (flag_name s) = CHR ''=''
      then Inl (FlagSyntax s)
      else
        let (name, value) = split_flag (flag_name s)
        in case flag_kind_of name of
             None \<Rightarrow> Inl (if name = ''help'' \<or> name = ''h'' then FlagHelp else FlagUndefined name)
           | Some BoolFlag \<Rightarrow>
               (case set_flag name (case value of Some v \<Rightarrow> v | None \<Rightarrow> ''true'') fv of
                  None \<Rightarrow> Inl (FlagInvalidValue (case value of Some v \<Rightarrow> v | None \<Rightarrow> ''true'') name)
                | Some fv1 \<Rightarrow> flags_Parse args fv1)
           | Some ValueFlag \<Rightarrow>
               (case value of
                  Some v \<Rightarrow>
                    (case set_flag name v fv of
                       None \<Rightarrow> Inl (FlagInvalidValue v name)
                     | Some fv1 \<Rightarrow> flags_Parse args fv1)
                | None \<Rightarrow>
                    (case args of
                       [] \<Rightarrow> Inl (FlagNeedsArgument name)
                     | v # rest \<Rightarrow>
                         (case set_flag name v fv of
                            None \<Rightarrow> Inl (FlagInvalidValue v name)
                          | Some fv1 \<Rightarrow> flags_Parse rest fv1))))"
  by pat_completeness auto
termination
  by (relation "measure (\<lambda>(args, fv). length args)") auto

text \<open>\<^verbatim>\<open>Parse\<close>: the configuration and whether only the version is wanted.\<close>

definition config_of :: "flag_values \<Rightarrow> config_error + Config" where
  "config_of fv =
     (case net_SplitHostPort (fv_httpAddr fv) of
        None \<Rightarrow> Inl HTTPAddrError
      | Some _ \<Rightarrow>
          (case parseUSBIDs (fv_usbIDList fv) of
             Inl e \<Rightarrow> Inl (USBIDsError e)
           | Inr usbIDs \<Rightarrow>
               (case parseInteger (fv_i2cAddress fv) 7 of
                  None \<Rightarrow> Inl (I2CAddressError (fv_i2cAddress fv))
                | Some parsedI2CAddress \<Rightarrow>
                    if \<not> validSpeed (fv_speed fv) then Inl SpeedError
                    else
                      (case parseLogLevel (fv_logLevel fv) of
                         None \<Rightarrow> Inl LogLevelError
                       | Some parsedLogLevel \<Rightarrow>
                           let logFormat = strings_ToLower (fv_logFormat fv)
                           in if logFormat \<noteq> ''json'' \<and> logFormat \<noteq> ''text'' then Inl LogFormatError
                              else Inr \<lparr>cf_HTTPAddr = fv_httpAddr fv,
                                        cf_BearerToken = fv_bearerToken fv, cf_USBIDs = usbIDs,
                                        cf_I2CAddress = word_of_nat parsedI2CAddress,
                                        cf_I2CSpeedKHz = fv_speed fv, cf_LogLevel = parsedLogLevel,
                                        cf_LogFormat = logFormat,
                                        cf_RecentCapacity = defaultRecentEntries\<rparr>))))"

definition Parse :: "string list \<Rightarrow> config_error + Config option" where
  "Parse args =
     (case flags_Parse args default_flags of
        Inl e \<Rightarrow> Inl e
      | Inr (fv, rest) \<Rightarrow>
          if length rest \<noteq> 0 then Inl (UnexpectedArguments rest)
          else if fv_showVersion fv then Inr None
          else case config_of fv of Inl e \<Rightarrow> Inl e | Inr cfg \<Rightarrow> Inr (Some cfg))"

end
