(* ===== verification/ConfigProps.thy ===== *)
theory ConfigProps
  imports Config Chip Recent
begin

text \<open>
  Properties of the configuration: the USB identity list is parsed in order without duplicates
  and printing inverts parsing; an accepted configuration lets every component start.
\<close>

section \<open>Hexadecimal numbers\<close>

lemma hexDigit_cases: "hexDigit n \<in> set ''0123456789abcdef''"
  unfolding hexDigit_def by (rule nth_mem) simp

lemma digit_value_hexDigit:
  assumes "n < 16"
  shows "digit_value (hexDigit n) = Some n"
proof -
  have "list_all (\<lambda>m. digit_value (hexDigit m) = Some m) [0, 1, 2, 3, 4, 5, 6, 7, 8, 9, 10, 11, 12, 13, 14, 15]"
    by (simp add: digit_value_def hexDigit_def lower_bit_def)
  moreover have "n \<in> set [0, 1, 2, 3, 4, 5, 6, 7, 8, 9, 10, 11, 12, 13, 14, 15]"
    using assms by (simp, arith)
  ultimately show ?thesis unfolding list_all_iff by blast
qed

lemma parse_digits_append:
  "parse_digits b0 base mx n (s @ t) =
     (case parse_digits b0 base mx n s of None \<Rightarrow> None | Some m \<Rightarrow> parse_digits b0 base mx m t)"
  by (induction b0 base mx n s rule: parse_digits.induct) (auto split: option.splits)

lemma parse_showHex: "k \<le> mx \<Longrightarrow> parse_digits False 16 mx 0 (showHex k) = Some k"
proof (induction k rule: showHex.induct)
  case (1 k)
  show ?case
  proof (cases "k < 16")
    case True
    then show ?thesis using 1(2) by (simp add: showHex.simps [of k] digit_value_hexDigit)
  next
    case False
    have "k div 16 \<le> mx" using 1(2) by (meson div_le_dividend le_trans)
    then have "parse_digits False 16 mx 0 (showHex (k div 16)) = Some (k div 16)" using 1(1) False by blast
    then show ?thesis
      using False 1(2) by (simp add: showHex.simps [of k] parse_digits_append digit_value_hexDigit)
  qed
qed

lemma parse_zeros: "parse_digits b0 16 mx 0 (replicate m (CHR ''0'') @ s) = parse_digits b0 16 mx 0 s"
  by (induction m) (simp_all add: digit_value_def)

lemma ParseUint_fmt_04x: "strconv_ParseUint (fmt_04x (unat (v :: u16))) 16 16 = Some (unat v)"
proof -
  have "unat v < 2 ^ 16" using unsigned_less [of v] by simp
  then have "parse_digits False 16 65535 0 (showHex (unat v)) = Some (unat v)"
    by (intro parse_showHex) simp
  moreover have "fmt_04x (unat v) \<noteq> []" by (simp add: fmt_04x_def padLeft_def showHex.simps)
  ultimately show ?thesis
    by (simp add: strconv_ParseUint_def fmt_04x_def padLeft_def parse_zeros)
qed

lemma showHex_chars: "set (showHex n) \<subseteq> set ''0123456789abcdef''"
proof (induction n rule: showHex.induct)
  case (1 n)
  then show ?case using hexDigit_cases [of n] hexDigit_cases [of "n mod 16"]
    by (cases "n < 16") (auto simp: showHex.simps [of n])
qed

lemma fmt_04x_chars: "set (fmt_04x n) \<subseteq> set ''0123456789abcdef''" "fmt_04x n \<noteq> []"
proof -
  show "set (fmt_04x n) \<subseteq> set ''0123456789abcdef''"
    using showHex_chars [of n] by (auto simp: fmt_04x_def padLeft_def)
  show "fmt_04x n \<noteq> []" by (simp add: fmt_04x_def padLeft_def showHex.simps [of n])
qed

section \<open>Printing and parsing identities\<close>

lemma trim_left_id:
  assumes "s = [] \<or> hd s \<notin> set (map hd seqs)"
  shows "trim_left seqs s = s"
proof -
  have "\<not> (p \<noteq> [] \<and> has_prefix s p)" if "p \<in> set seqs" "s \<noteq> []" for p
    using assms that by (cases p; cases s) (auto simp: image_iff)
  then have "s \<noteq> [] \<Longrightarrow> find (\<lambda>p. p \<noteq> [] \<and> has_prefix s p) seqs = None"
    by (auto simp: find_None_iff)
  then show ?thesis
    by (cases "s = []") (auto simp: trim_left.simps [of seqs s] trim_left.simps [of seqs "[]"] split: option.splits)
qed

definition id_chars :: string where
  "id_chars = ''0123456789abcdef:''"

lemma TrimSpace_id:
  assumes "set s \<subseteq> set id_chars" and "s \<noteq> []"
  shows "strings_TrimSpace s = s"
proof -
  have d: "set id_chars \<inter> set (map hd space_seqs) = {}" "set id_chars \<inter> set (map hd (map rev space_seqs)) = {}"
    by code_simp+
  have "hd s \<in> set id_chars" "hd (rev s) \<in> set id_chars"
    using assms hd_in_set [of s] hd_in_set [of "rev s"] by auto
  then have "trim_left space_seqs s = s" "trim_left (map rev space_seqs) (rev s) = rev s"
    using d by (auto intro!: trim_left_id simp del: map_map)
  then show ?thesis by (simp add: strings_TrimSpace_def)
qed

lemma USBID_String_facts:
  "set (USBID_String i) \<subseteq> set id_chars" "USBID_String i \<noteq> []"
  "strings_Split (USBID_String i) (CHR '':'') = [fmt_04x (unat (Vendor i)), fmt_04x (unat (Product i))]"
proof -
  have "set ''0123456789abcdef'' \<subseteq> set id_chars" by (simp add: id_chars_def)
  then have "set (fmt_04x n) \<subseteq> set id_chars" for n using fmt_04x_chars(1) [of n] by (rule order_trans [rotated])
  moreover have "CHR '':'' \<in> set id_chars" by (simp add: id_chars_def)
  ultimately show "set (USBID_String i) \<subseteq> set id_chars" by (simp add: USBID_String_def)
  show "USBID_String i \<noteq> []" by (simp add: USBID_String_def)
  have "CHR '':'' \<notin> set ''0123456789abcdef''" by simp
  then have c: "CHR '':'' \<notin> set (fmt_04x n)" for n using fmt_04x_chars(1) [of n] by (rule contra_subsetD [rotated])
  show "strings_Split (USBID_String i) (CHR '':'') = [fmt_04x (unat (Vendor i)), fmt_04x (unat (Product i))]"
    using strings_Split_append [OF c, of "unat (Vendor i)" "fmt_04x (unat (Product i))"]
      strings_Split_no_sep [OF c, of "unat (Product i)"]
    by (simp add: USBID_String_def)
qed

fun join_ids :: "USBID list \<Rightarrow> string" where
  "join_ids [] = []"
| "join_ids [i] = USBID_String i"
| "join_ids (i # j # ids) = USBID_String i @ CHR '','' # join_ids (j # ids)"

lemma USBID_String_no_comma: "CHR '','' \<notin> set (USBID_String i)"
proof -
  have "CHR '','' \<notin> set id_chars" by (simp add: id_chars_def)
  then show ?thesis by (rule contra_subsetD [OF USBID_String_facts(1)])
qed

lemma Split_join_ids: "ids \<noteq> [] \<Longrightarrow> strings_Split (join_ids ids) (CHR '','') = map USBID_String ids"
proof (induction ids rule: join_ids.induct)
  case (2 i)
  show ?case by (simp add: strings_Split_no_sep USBID_String_no_comma)
next
  case (3 i j ids)
  then show ?case by (simp add: strings_Split_append USBID_String_no_comma)
qed simp

lemma usb_ids_loop_print:
  assumes "set seen = set ids" and "distinct (ids @ new)" and "ids @ new \<noteq> []"
  shows "usb_ids_loop (map USBID_String new) seen ids = Inr (ids @ new)"
  using assms
proof (induction new arbitrary: seen ids)
  case (Cons i new)
  have p: "strings_TrimSpace (USBID_String i) = USBID_String i"
    by (rule TrimSpace_id [OF USBID_String_facts(1,2)])
  have i: "\<lparr>Vendor = Vendor i, Product = Product i\<rparr> = i" by simp
  have "usb_ids_loop (map USBID_String new) (i # seen) (ids @ [i]) = Inr ((ids @ [i]) @ new)"
    using Cons.prems by (intro Cons.IH) auto
  then show ?case
    using Cons.prems by (simp add: p USBID_String_facts(3) ParseUint_fmt_04x Let_def i)
qed simp

text \<open>The identity that one part of the list denotes.\<close>

definition part_id :: "string \<Rightarrow> USBID option" where
  "part_id part =
     (case strings_Split (strings_TrimSpace part) (CHR '':'') of
        [f0, f1] \<Rightarrow>
          (case (strconv_ParseUint f0 16 16, strconv_ParseUint f1 16 16) of
             (Some v, Some p) \<Rightarrow> Some \<lparr>Vendor = word_of_nat v, Product = word_of_nat p\<rparr>
           | _ \<Rightarrow> None)
      | _ \<Rightarrow> None)"

text \<open>Removing later duplicates.\<close>

definition first_occurrences :: "'a list \<Rightarrow> 'a list" where
  "first_occurrences xs = rev (remdups (rev xs))"

lemma usb_ids_loop_Cons:
  "part_id part = Some i \<Longrightarrow> usb_ids_loop (part # parts) seen ids =
     (if i \<in> set seen then usb_ids_loop parts seen ids else usb_ids_loop parts (i # seen) (ids @ [i]))"
  "part_id part = None \<Longrightarrow> \<exists>e. usb_ids_loop (part # parts) seen ids = Inl e"
  by (auto simp: part_id_def Let_def split: list.splits option.splits)

lemma usb_ids_loop_Inr:
  assumes "usb_ids_loop parts seen ids = Inr out" and "set seen = set done" and "ids = first_occurrences done"
  shows "\<exists>parsed. map part_id parts = map Some parsed \<and> out = first_occurrences (done @ parsed) \<and> out \<noteq> []"
  using assms
proof (induction parts arbitrary: seen ids "done")
  case Nil
  then show ?case by (auto split: if_splits)
next
  case (Cons part parts)
  then obtain i where part: "part_id part = Some i"
    using usb_ids_loop_Cons(2) [of part parts seen ids] by (cases "part_id part") auto
  note loop = Cons.prems(1) [unfolded usb_ids_loop_Cons(1) [OF part]]
  have "\<exists>seen' ids'. usb_ids_loop parts seen' ids' = Inr out \<and> set seen' = set (done @ [i])
      \<and> ids' = first_occurrences (done @ [i])"
  proof (cases "i \<in> set seen")
    case True
    then show ?thesis using loop Cons.prems(2,3)
      by (intro exI [of _ seen] exI [of _ ids]) (auto simp: first_occurrences_def)
  next
    case False
    then show ?thesis using loop Cons.prems(2,3)
      by (intro exI [of _ "i # seen"] exI [of _ "ids @ [i]"]) (auto simp: first_occurrences_def)
  qed
  then obtain parsed where "map part_id parts = map Some parsed" "out = first_occurrences ((done @ [i]) @ parsed)"
    "out \<noteq> []" using Cons.IH by blast
  then show ?case by (intro exI [of _ "i # parsed"]) (simp add: part)
qed

lemma usb_ids_loop_accepts:
  assumes "map part_id parts = map Some parsed" and "set seen = set ids" and "parts \<noteq> [] \<or> ids \<noteq> []"
  shows "\<exists>out. usb_ids_loop parts seen ids = Inr out"
  using assms
proof (induction parts arbitrary: parsed seen ids)
  case (Cons part parts)
  then obtain i rest where p: "parsed = i # rest" "part_id part = Some i" "map part_id parts = map Some rest"
    by (cases parsed) auto
  have "i \<in> set seen \<Longrightarrow> ids \<noteq> []" using Cons.prems(2) by auto
  then show ?case
    using Cons.IH [OF p(3)] Cons.prems(2) by (simp add: usb_ids_loop_Cons(1) [OF p(2)] del: usb_ids_loop.simps)
qed simp

lemma parse_join_ids: "ids \<noteq> [] \<Longrightarrow> distinct ids \<Longrightarrow> parseUSBIDs (join_ids ids) = Inr ids"
  using usb_ids_loop_print [of "[]" "[]" ids] by (simp add: parseUSBIDs_def Split_join_ids)

lemma first_occurrences_facts:
  "distinct (first_occurrences xs)" "set (first_occurrences xs) = set xs"
  by (simp_all add: first_occurrences_def)

lemma Parse_facts:
  assumes "Parse args = Inr (Some cfg)"
  shows "\<exists>t. NewCh341 (cf_USBIDs cfg) (cf_I2CSpeedKHz cfg) now u = Ok t \<and> t_usbIDs t = cf_USBIDs cfg"
    "\<not> cf_I2CAddress cfg > 0x7f" "distinct (cf_USBIDs cfg)" "cf_RecentCapacity cfg = 20"
    "net_SplitHostPort (cf_HTTPAddr cfg) \<noteq> None" "cf_LogFormat cfg = ''json'' \<or> cf_LogFormat cfg = ''text''"
proof -
  from assms obtain fv where "config_of fv = Inr cfg"
    by (auto simp: Parse_def split: sum.splits if_splits prod.splits)
  then obtain ids addr where c: "parseUSBIDs (fv_usbIDList fv) = Inr ids"
    "parseInteger (fv_i2cAddress fv) 7 = Some addr" "validSpeed (fv_speed fv)"
    "cf_USBIDs cfg = ids" "cf_I2CAddress cfg = word_of_nat addr" "cf_I2CSpeedKHz cfg = fv_speed fv"
    by (auto simp: config_of_def Let_def defaultRecentEntries_def split: option.splits sum.splits if_splits)
  have ids: "ids \<noteq> []" "distinct ids"
    using usb_ids_loop_Inr [OF c(1) [unfolded parseUSBIDs_def], of "[]"]
    by (auto simp: first_occurrences_def)
  have "addr < 128" using strconv_ParseUint_bound [OF c(2) [unfolded parseInteger_def]] by simp
  then show "\<not> cf_I2CAddress cfg > 0x7f"
    by (simp add: c(5) word_less_nat_alt unsigned_of_nat take_bit_eq_mod)
  show "\<exists>t. NewCh341 (cf_USBIDs cfg) (cf_I2CSpeedKHz cfg) now u = Ok t \<and> t_usbIDs t = cf_USBIDs cfg"
    using c(3) ids(1) by (auto simp: NewCh341_def c(4,6) speed_command_def validSpeed_def)
  show "distinct (cf_USBIDs cfg)" using ids(2) c(4) by simp
qed (use assms in \<open>auto simp: Parse_def config_of_def Let_def defaultRecentEntries_def
       split: option.splits sum.splits if_splits prod.splits\<close>)

lemma parseUSBIDs_iff:
  "parseUSBIDs value = Inr ids \<longleftrightarrow>
     (\<exists>parsed. map part_id (strings_Split value (CHR '','')) = map Some parsed
        \<and> ids = first_occurrences parsed \<and> ids \<noteq> [] \<and> distinct ids)"
proof
  assume "parseUSBIDs value = Inr ids"
  from usb_ids_loop_Inr [OF this [unfolded parseUSBIDs_def], of "[]"] first_occurrences_facts(1)
  show "\<exists>parsed. map part_id (strings_Split value (CHR '','')) = map Some parsed
        \<and> ids = first_occurrences parsed \<and> ids \<noteq> [] \<and> distinct ids"
    by (auto simp: first_occurrences_def)
next
  assume "\<exists>parsed. map part_id (strings_Split value (CHR '','')) = map Some parsed
        \<and> ids = first_occurrences parsed \<and> ids \<noteq> [] \<and> distinct ids"
  then obtain parsed where p: "map part_id (strings_Split value (CHR '','')) = map Some parsed"
    "ids = first_occurrences parsed" by blast
  obtain out where out: "parseUSBIDs value = Inr out"
    using usb_ids_loop_accepts [OF p(1), of "[]" "[]"] by (auto simp: parseUSBIDs_def)
  from usb_ids_loop_Inr [OF out [unfolded parseUSBIDs_def], of "[]"] p
  have "out = ids" by (auto simp: first_occurrences_def inj_map_eq_map)
  with out show "parseUSBIDs value = Inr ids" by simp
qed

lemma parse_default_id: "parseUSBIDs ''1a86:5512'' = Inr [\<lparr>Vendor = 0x1a86, Product = 0x5512\<rparr>]"
proof -
  have "join_ids [\<lparr>Vendor = 0x1a86, Product = 0x5512\<rparr>] = ''1a86:5512''"
    by (simp add: USBID_String_def fmt_04x_def padLeft_def showHex.simps hexDigit_def)
  with parse_join_ids [of "[\<lparr>Vendor = 0x1a86, Product = 0x5512\<rparr>]"] show ?thesis by simp
qed

section \<open>Letter case\<close>

lemma upper_case_letters:
  assumes "lower_char c \<noteq> c"
  shows "c \<in> set ''ABCDEFGHIJKLMNOPQRSTUVWXYZ''"
proof -
  define n where "n = (of_char c :: nat)"
  from assms have "65 \<le> n" "n \<le> 90" by (auto simp: lower_char_def n_def split: if_splits)
  then have "n \<in> set [65..<91]" by (simp only: set_upt atLeastLessThan_iff) simp
  moreover have "list_all (\<lambda>n. char_of n \<in> set ''ABCDEFGHIJKLMNOPQRSTUVWXYZ'') [65..<91 :: nat]"
    by code_simp
  ultimately have "(char_of n :: char) \<in> set ''ABCDEFGHIJKLMNOPQRSTUVWXYZ''"
    unfolding list_all_iff by blast
  then show ?thesis by (simp only: n_def char_of_char)
qed

lemma upper_case_facts:
  "c \<in> set ''ABCDEFGHIJKLMNOPQRSTUVWXYZ'' \<Longrightarrow>
     lower_char c \<in> set ''abcdefghijklmnopqrstuvwxyz'' \<and> digit_value (lower_char c) = digit_value c"
proof -
  have "list_all (\<lambda>c. lower_char c \<in> set ''abcdefghijklmnopqrstuvwxyz'' \<and> digit_value (lower_char c) = digit_value c)
      ''ABCDEFGHIJKLMNOPQRSTUVWXYZ''"
    by code_simp
  moreover assume "c \<in> set ''ABCDEFGHIJKLMNOPQRSTUVWXYZ''"
  ultimately show ?thesis unfolding list_all_iff by blast
qed

lemma digit_value_lower: "digit_value (lower_char c) = digit_value c"
  using upper_case_letters [of c] upper_case_facts [of c] by (cases "lower_char c = c") simp_all

text \<open>Bytes that are neither the upper nor the lower case of another byte.\<close>

definition caseless :: "char \<Rightarrow> bool" where
  "caseless x \<longleftrightarrow> x \<notin> set ''ABCDEFGHIJKLMNOPQRSTUVWXYZ'' \<and> x \<notin> set ''abcdefghijklmnopqrstuvwxyz''"

lemma lower_char_caseless: "caseless x \<Longrightarrow> lower_char c = x \<longleftrightarrow> c = x"
  unfolding caseless_def using upper_case_letters [of c] upper_case_facts [of c] by (cases "lower_char c = c") metis+

lemma Split_lower:
  "caseless sep \<Longrightarrow> strings_Split (map lower_char s) sep = map (map lower_char) (strings_Split s sep)"
  by (induction s) (auto simp: lower_char_caseless split: list.split)

lemma has_prefix_lower:
  "list_all caseless p \<Longrightarrow> has_prefix (map lower_char s) p = has_prefix s p"
  by (induction s p rule: has_prefix.induct) (auto simp: lower_char_caseless)

lemma trim_left_lower:
  "list_all (list_all caseless) seqs \<Longrightarrow> trim_left seqs (map lower_char s) = map lower_char (trim_left seqs s)"
proof (induction seqs s rule: trim_left.induct)
  case (1 seqs s)
  have f: "find (\<lambda>p. p \<noteq> [] \<and> has_prefix (map lower_char s) p) seqs = find (\<lambda>p. p \<noteq> [] \<and> has_prefix s p) seqs"
    using "1.prems" by (induction seqs) (simp_all add: has_prefix_lower)
  show ?case
    using 1 by (simp add: trim_left.simps [of _ "map lower_char s"] trim_left.simps [of _ s] f drop_map
        split: option.split)
qed

lemma TrimSpace_lower: "strings_TrimSpace (map lower_char s) = map lower_char (strings_TrimSpace s)"
proof -
  have "list_all (list_all caseless) space_seqs" "list_all (list_all caseless) (map rev space_seqs)"
    by (simp_all add: space_seqs_def caseless_def)
  then show ?thesis by (simp add: strings_TrimSpace_def trim_left_lower rev_map)
qed

lemma parse_digits_lower:
  "parse_digits False base mx n (map lower_char s) = parse_digits False base mx n s"
  by (induction s arbitrary: n) (simp_all add: digit_value_lower split: option.split)

lemma ParseUint_lower: "strconv_ParseUint (map lower_char s) 16 bits = strconv_ParseUint s 16 bits"
  by (simp add: strconv_ParseUint_def parse_digits_lower split: option.split)

lemma part_id_lower: "part_id (map lower_char part) = part_id part"
  by (auto simp: part_id_def TrimSpace_lower Split_lower caseless_def ParseUint_lower split: list.split option.split)

lemma part_ids_lower:
  "map part_id (strings_Split (map lower_char value) (CHR '','')) = map part_id (strings_Split value (CHR '',''))"
  by (simp add: Split_lower caseless_def part_id_lower comp_def)

section \<open>Properties\<close>

text \<open>C28. \<^verbatim>\<open>parseUSBIDs\<close> accepts a list exactly when every comma-separated part is a pair of 16-bit
  hexadecimal numbers, and then returns the identities in the order of their first occurrence,
  without duplicates and never an empty list. The letter case of the digits does not matter:
  a list is accepted if and only if its lower-case form is, and with the same identities. So
  \<^verbatim>\<open>1A86:5512\<close> is accepted, although the error message of the function asks for lowercase
  hexadecimal.\<close>

theorem parseUSBIDs_sound:
  "(parseUSBIDs value = Inr ids \<longleftrightarrow>
     (\<exists>parsed. map part_id (strings_Split value (CHR '','')) = map Some parsed
        \<and> ids = first_occurrences parsed \<and> ids \<noteq> [] \<and> distinct ids))
   \<and> (parseUSBIDs value = Inr ids \<longleftrightarrow> parseUSBIDs (map lower_char value) = Inr ids)
   \<and> parseUSBIDs ''1A86:5512'' = Inr [\<lparr>Vendor = 0x1a86, Product = 0x5512\<rparr>]"
proof (intro conjI)
  show "parseUSBIDs value = Inr ids \<longleftrightarrow>
     (\<exists>parsed. map part_id (strings_Split value (CHR '','')) = map Some parsed
        \<and> ids = first_occurrences parsed \<and> ids \<noteq> [] \<and> distinct ids)"
    by (rule parseUSBIDs_iff)
  show "parseUSBIDs value = Inr ids \<longleftrightarrow> parseUSBIDs (map lower_char value) = Inr ids"
    by (simp only: parseUSBIDs_iff part_ids_lower)
  have "map lower_char ''1A86:5512'' = ''1a86:5512''" by (simp add: lower_char_def) code_simp
  then show "parseUSBIDs ''1A86:5512'' = Inr [\<lparr>Vendor = 0x1a86, Product = 0x5512\<rparr>]"
    using parse_default_id part_ids_lower [of "''1A86:5512''"] by (simp only: parseUSBIDs_iff)
qed

text \<open>C29. Round trip: the printed form of a list of distinct identities parses to that list.\<close>

theorem parseUSBIDs_print:
  assumes "ids \<noteq> []" and "distinct ids"
  shows "parseUSBIDs (join_ids ids) = Inr ids"
  using assms by (rule parse_join_ids)

theorem parseUSBIDs_print_witness:
  "parseUSBIDs (join_ids [\<lparr>Vendor = 0x1a86, Product = 0x5512\<rparr>, \<lparr>Vendor = 1, Product = 2\<rparr>])
     = Inr [\<lparr>Vendor = 0x1a86, Product = 0x5512\<rparr>, \<lparr>Vendor = 1, Product = 2\<rparr>]"
  by (rule parseUSBIDs_print) simp_all

text \<open>An accepted configuration starts: the transport, the driver and the ring buffer of recent
  requests accept the values that \<^verbatim>\<open>Parse\<close> lets through, so \<^verbatim>\<open>run\<close> never fails to initialize them.\<close>

theorem Parse_initializes:
  assumes "Parse args = Inr (Some cfg)"
  shows "(\<exists>t. NewCh341 (cf_USBIDs cfg) (cf_I2CSpeedKHz cfg) now u = Ok t \<and> t_usbIDs t = cf_USBIDs cfg)
     \<and> (\<exists>d. NewDriver (Some bus) (cf_I2CAddress cfg) = Ok d)
     \<and> distinct (cf_USBIDs cfg) \<and> (\<exists>s. recent_add e (newRecentStore (cf_RecentCapacity cfg)) = Ok s)
     \<and> net_SplitHostPort (cf_HTTPAddr cfg) \<noteq> None
     \<and> (cf_LogFormat cfg = ''json'' \<or> cf_LogFormat cfg = ''text'')"
  using Parse_facts [OF assms] by (simp add: NewDriver_def recent_add_def newRecentStore_def Let_def)

text \<open>The configuration without arguments.\<close>

lemma Parse_defaults:
  "Parse [] = Inr (Some \<lparr>cf_HTTPAddr = '':8972'', cf_BearerToken = [],
     cf_USBIDs = [\<lparr>Vendor = 0x1a86, Product = 0x5512\<rparr>], cf_I2CAddress = 0x11, cf_I2CSpeedKHz = 100,
     cf_LogLevel = LevelInfo, cf_LogFormat = ''json'', cf_RecentCapacity = 20\<rparr>)"
proof -
  note u = parse_default_id
  have h: "net_SplitHostPort '':8972'' = Some ([], ''8972'')"
    by (simp add: net_SplitHostPort_def last_index_char_def Let_def)
  have i: "parseInteger ''0x11'' 7 = Some 17"
    by (simp add: parseInteger_def strconv_ParseUint_def base_prefix_def digit_value_def base_letter_def
        lower_bit_def)
  have l: "parseLogLevel ''info'' = Some LevelInfo" "strings_ToLower ''json'' = ''json''"
    by (simp_all add: parseLogLevel_def lower_char_def Let_def)
  show ?thesis
    by (simp add: Parse_def default_flags_def config_of_def mfi_consts u h i l validSpeed_def Let_def
        lower_char_def)
qed

theorem Parse_initializes_witness:
  "\<exists>t. NewCh341 [\<lparr>Vendor = 0x1a86, Product = 0x5512\<rparr>] 100 0 () = Ok t"
  using Parse_initializes [OF Parse_defaults, of 0 "()"] by simp blast

text \<open>Without arguments the program listens on port 8972 without authentication and talks to the
  coprocessor at address 0x11 through the CH341 1a86:5512 at 100 kHz; a log handler of the parsed
  level passes warnings and errors on and drops debug records.\<close>

theorem Parse_no_arguments:
  "\<exists>cfg. Parse [] = Inr (Some cfg) \<and> cf_HTTPAddr cfg = '':8972'' \<and> cf_BearerToken cfg = []
     \<and> cf_USBIDs cfg = [\<lparr>Vendor = 0x1a86, Product = 0x5512\<rparr>] \<and> cf_I2CAddress cfg = 0x11
     \<and> cf_I2CSpeedKHz cfg = 100 \<and> cf_LogLevel cfg \<le> LevelWarn \<and> LevelDebug < cf_LogLevel cfg"
  by (simp add: Parse_defaults less_eq_log_level_def less_log_level_def)

end
