(* ===== verification/ChipFrame.thy ===== *)
theory ChipFrame
  imports Stack
begin

text \<open>
  What the driver leaves alone. The driver of internal/chip/driver.go touches the world only through
  the transactions and the sleeps of its transport. The locale \<open>i2c_frame\<close> states this for a property
  of worlds that both keep; every driver operation then keeps it. On the CH341 transport the
  property is reachability, so all facts about reachable transports hold after every driver call.
\<close>

locale i2c_frame =
  fixes bus :: "'w i2c" and good :: "'w \<Rightarrow> bool"
  assumes transaction_keeps: "good w \<Longrightarrow> good (snd (i2c_Transaction bus a wd n w))"
    and sleep_keeps: "good w \<Longrightarrow> good (i2c_sleep bus t w)"

text \<open>A call that ends in a good world, if it ends.\<close>

definition ends_in :: "('w \<Rightarrow> bool) \<Rightarrow> ('a result \<times> 'w) option \<Rightarrow> bool" where
  "ends_in good m \<longleftrightarrow> (\<forall>r w. m = Some (r, w) \<longrightarrow> good w)"

lemma ends_in_Some [simp]: "ends_in good (Some (r, w)) \<longleftrightarrow> good w"
  by (simp add: ends_in_def)

lemma ends_in_None [simp]: "ends_in good None"
  by (simp add: ends_in_def)

lemma ends_inD: "ends_in good m \<Longrightarrow> m = Some (r, w) \<Longrightarrow> good w"
  by (simp add: ends_in_def)

lemma ends_in_andThen:
  "ends_in good m \<Longrightarrow> (\<And>a w. good w \<Longrightarrow> ends_in good (k a w)) \<Longrightarrow> ends_in good (andThen m k)"
  by (auto simp: andThen_def split: option.split prod.split result.split)

text \<open>A property that an action and the sleeps of the transport keep.\<close>

definition loop_frame :: "('w \<Rightarrow> bool) \<Rightarrow> 'w i2c \<Rightarrow> ('w \<Rightarrow> 'a result \<times> 'w) \<Rightarrow> bool" where
  "loop_frame good bus action \<longleftrightarrow>
     (\<forall>w. good w \<longrightarrow> good (snd (action w))) \<and> (\<forall>t w. good w \<longrightarrow> good (i2c_sleep bus t w))"

lemma retry_loop_frame:
  fixes bus :: "'w i2c" and action :: "'w \<Rightarrow> 'a result \<times> 'w"
  assumes "retry_loop bus operation action deadline w = Some y"
  shows "loop_frame good bus action \<longrightarrow> good w \<longrightarrow> good (snd y)"
proof (rule retry_loop.raw_induct [where P = "\<lambda>bus operation action deadline w y.
      loop_frame good bus action \<longrightarrow> good w \<longrightarrow> good (snd y)", OF _ assms], intro impI)
  fix loop and bus :: "'w i2c" and operation and action :: "'w \<Rightarrow> 'a result \<times> 'w" and deadline w y
  assume IH: "\<And>bus operation action deadline w y. loop bus operation action deadline w = Some y
      \<Longrightarrow> loop_frame good bus action \<longrightarrow> good w \<longrightarrow> good (snd y)"
    and eq: "(case action w of (Ok r, w1) \<Rightarrow> Some (Ok r, w1) | (Err e, w1) \<Rightarrow>
          if \<not> isRetryableTransportError e \<or> deadline < i2c_now bus w1
          then Some (Err (WrapError (operation @ '': '' @ error_text e) e), w1)
          else loop bus operation action deadline (i2c_sleep bus ioRetryDelay w1)
      | (Panic, w1) \<Rightarrow> Some (Panic, w1)) = Some y"
    and frame: "loop_frame good bus action" and w: "good w"
  obtain r w1 where a: "action w = (r, w1)" by fastforce
  have "good (snd (action w))" using frame w by (simp add: loop_frame_def)
  then have "good w1" by (simp add: a)
  moreover have "good (i2c_sleep bus ioRetryDelay w1)" using frame \<open>good w1\<close> by (simp add: loop_frame_def)
  ultimately show "good (snd y)"
    using eq IH frame by (auto simp: a split: result.splits if_splits)
qed

context i2c_frame
begin

lemma transaction_keepsD: "i2c_Transaction bus a wd n w = (r, w') \<Longrightarrow> good w \<Longrightarrow> good w'"
  using transaction_keeps [of w a wd n] by simp

lemma retryIO_keeps:
  assumes "\<And>w. good w \<Longrightarrow> good (snd (action w))" and "good w"
  shows "ends_in good (retryIO bus operation action w)"
  unfolding ends_in_def retryIO_def
proof (intro allI impI)
  fix r w'
  assume "retry_loop bus operation action (i2c_now bus w + ioRetryTimeout) w = Some (r, w')"
  from retry_loop_frame [OF this, of good] assms sleep_keeps show "good w'" by (simp add: loop_frame_def)
qed

lemma selectRegisterOnce_keeps:
  assumes "drv_transport d = bus" and "good w"
  shows "good (snd (selectRegisterOnce d register w))"
  using assms(2)
  by (auto simp: selectRegisterOnce_def assms(1) split: prod.split result.split dest: transaction_keepsD)

lemma readRegisterOnce_keeps:
  assumes "drv_transport d = bus" and "good w"
  shows "good (snd (readRegisterOnce d register len w))"
  using selectRegisterOnce_keeps [OF assms, of register]
  by (auto simp: readRegisterOnce_def assms(1) split: prod.split result.split dest: transaction_keepsD)

lemma writeRegisterOnce_keeps:
  assumes "drv_transport d = bus" and "good w"
  shows "good (snd (writeRegisterOnce d register data w))"
  using assms(2)
  by (auto simp: writeRegisterOnce_def assms(1) split: prod.split result.split dest: transaction_keepsD)

lemma readRegister_keeps:
  assumes "drv_transport d = bus" and "good w"
  shows "ends_in good (readRegister d register len w)"
  using retryIO_keeps [OF readRegisterOnce_keeps [OF assms(1)] assms(2)]
  by (simp add: readRegister_def assms)

lemma writeRegister_keeps:
  assumes "drv_transport d = bus" and "good w"
  shows "ends_in good (writeRegister d register data w)"
  using retryIO_keeps [OF writeRegisterOnce_keeps [OF assms(1)] assms(2)]
  by (simp add: writeRegister_def assms(1))

lemma selectRegister_keeps:
  assumes "drv_transport d = bus" and "good w"
  shows "ends_in good (selectRegister d register w)"
  using retryIO_keeps [OF selectRegisterOnce_keeps [OF assms(1)] assms(2)]
  by (simp add: selectRegister_def assms(1))

lemma readByte_keeps:
  assumes "drv_transport d = bus" and "good w"
  shows "ends_in good (readByte d register w)"
  unfolding readByte_def
  by (rule ends_in_andThen [OF readRegister_keeps [OF assms]]) (simp split: list.split)

lemma readShort_keeps:
  assumes "drv_transport d = bus" and "good w"
  shows "ends_in good (readUnsignedBigEndianShort d register w)"
  unfolding readUnsignedBigEndianShort_def
  by (rule ends_in_andThen [OF readRegister_keeps [OF assms]]) (simp split: list.split)

lemma writeShort_keeps:
  assumes "drv_transport d = bus" and "good w"
  shows "ends_in good (writeUnsignedBigEndianShort d register value w)"
  by (simp add: writeUnsignedBigEndianShort_def writeRegister_keeps assms)

lemma bestEffortErrorCode_keeps:
  assumes "drv_transport d = bus" and "good w"
  shows "ends_in good (bestEffortErrorCode d w)"
  using ends_inD [OF selectRegister_keeps [OF assms, of errorRegister]]
  by (auto simp: bestEffortErrorCode_def assms(1) split: option.split prod.split result.split list.split
      dest: transaction_keepsD)

lemma ProtocolMajor_keeps:
  assumes "drv_transport d = bus" and "good w"
  shows "ends_in good (ProtocolMajor d ctxErr w)"
proof -
  have "ends_in good (andThen (readByte d protocolMajorRegister w) (\<lambda>value w1. Some (Ok (word_of_int value :: byte), w1)))"
    by (rule ends_in_andThen [OF readByte_keeps [OF assms]]) simp
  then show ?thesis by (simp add: ProtocolMajor_def assms(2) split: option.split)
qed

lemma cert_loop_keeps:
  "drv_transport d = bus \<Longrightarrow> good w \<Longrightarrow> ends_in good (cert_loop d len offset register certificate w)"
proof (induction d len offset register certificate w rule: cert_loop.induct)
  case (1 d len offset register certificate w)
  let ?m = "readRegister d register (int (min certificateWindowBytes (len - offset))) w"
  have k: "ends_in good ?m" using "1.prems" by (rule readRegister_keeps)
  show ?case
  proof (cases ?m)
    case None
    then show ?thesis using "1.prems" by (subst cert_loop.simps) simp
  next
    case (Some x)
    then obtain r w1 where x: "?m = Some (r, w1)" by (cases x) auto
    have w1: "good w1" using k x by (rule ends_inD)
    show ?thesis
    proof (cases "offset < len \<and> (\<exists>window. r = Ok window)")
      case True
      then show ?thesis
        using x w1 "1.prems" "1.IH" [OF _ refl x refl] by (subst cert_loop.simps) (auto simp: Let_def)
    next
      case False
      then show ?thesis
        using x w1 "1.prems" by (subst cert_loop.simps) (auto simp: Let_def split: result.split)
    qed
  qed
qed

lemma ReadCertificate_keeps:
  assumes "drv_transport d = bus" and "good w"
  shows "ends_in good (ReadCertificate d ctxErr w)"
  by (auto simp: ReadCertificate_def assms(2) split: option.split
      intro!: ends_in_andThen [OF readShort_keeps [OF assms]] cert_loop_keeps [OF assms(1)])

end

section \<open>The poll loop\<close>

lemma auth_poll_frame:
  fixes d :: "'w Driver"
  assumes "auth_poll d deadline w = Some y"
  shows "i2c_frame (drv_transport d) good \<longrightarrow> good w \<longrightarrow> good (snd y)"
proof (rule auth_poll.raw_induct [where P = "\<lambda>d deadline w y.
      i2c_frame (drv_transport d) good \<longrightarrow> good w \<longrightarrow> good (snd y)", OF _ assms], intro impI)
  fix loop and d :: "'w Driver" and deadline w and y :: "unit result \<times> 'w"
  assume IH: "\<And>d deadline w y. loop d deadline w = Some y
      \<Longrightarrow> i2c_frame (drv_transport d) good \<longrightarrow> good w \<longrightarrow> good (snd y)"
    and eq: "(case readByte d authControlStatusRegister w of None \<Rightarrow> None
      | Some (r, w1) \<Rightarrow>
          if r = Panic then Some (Panic, w1)
          else if r = Ok authSuccessStatus then Some (Ok (), w1)
          else if deadline < i2c_now (drv_transport d) w1
          then (case bestEffortErrorCode d w1 of None \<Rightarrow> None
             | Some (Ok code, w2) \<Rightarrow>
                 Some (Err (ChipError ErrorAuthFailed ''MFi authentication'' code
                              (Some (ErrorString ''timed out after 3s''))), w2)
             | Some (Err e, w2) \<Rightarrow> Some (Err e, w2) | Some (Panic, w2) \<Rightarrow> Some (Panic, w2))
          else loop d deadline (i2c_sleep (drv_transport d) authPollInterval w1)) = Some y"
    and frame: "i2c_frame (drv_transport d) good" and w: "good w"
  obtain r w1 where rd: "readByte d authControlStatusRegister w = Some (r, w1)"
    using eq by (cases "readByte d authControlStatusRegister w") auto
  have w1: "good w1"
    using i2c_frame.readByte_keeps [OF frame refl w] rd by (rule ends_inD)
  have w2: "bestEffortErrorCode d w1 = Some (q, w2) \<Longrightarrow> good w2" for q w2
    using i2c_frame.bestEffortErrorCode_keeps [OF frame refl w1] by (rule ends_inD)
  have s: "good (i2c_sleep (drv_transport d) authPollInterval w1)"
    by (rule i2c_frame.sleep_keeps [OF frame w1])
  show "good (snd y)"
    using eq w1 w2 s IH frame
    by (auto simp: rd split: if_splits option.splits result.splits prod.splits)
qed

context i2c_frame
begin

lemma auth_poll_keeps:
  assumes "drv_transport d = bus" and "good w"
  shows "ends_in good (auth_poll d deadline w)"
  unfolding ends_in_def
proof (intro allI impI)
  fix r w'
  assume "auth_poll d deadline w = Some (r, w')"
  from auth_poll_frame [OF this, of good] show "good w'"
    using assms i2c_frame_axioms by simp
qed

lemma SignChallenge_keeps:
  assumes d: "drv_transport d = bus" and "good w"
  shows "ends_in good (SignChallenge d ctxErr challenge w)"
proof -
  have len: "ends_in good (andThen (readUnsignedBigEndianShort d responseLengthRegister w5)
      (\<lambda>len w6. if len < 1 \<or> len > maximumDataBytes
         then Some (Err (invalid_data op (msg len)), w6)
         else readRegister d responseDataRegister len w6))" if "good w5" for w5 op msg
    by (rule ends_in_andThen [OF readShort_keeps [OF d that]]) (simp add: readRegister_keeps d)
  show ?thesis
    unfolding SignChallenge_def Let_def
    by (auto simp: d assms(2) split: option.split
        intro!: ends_in_andThen writeShort_keeps writeRegister_keeps auth_poll_keeps sleep_keeps len)
qed

end

section \<open>The CH341 transport\<close>

interpretation ch341_frame: i2c_frame "ch341_i2c g" "ch341_reach g" for g :: "'u gousb"
proof unfold_locales
  fix w :: "'u ch341" and a wd n
  assume w: "ch341_reach g w"
  obtain r w' where t: "Transaction g a wd n w = (r, w')" by fastforce
  from ch341_reach.reach_step [OF w ch341_step.step_transaction [OF t]] t
  show "ch341_reach g (snd (i2c_Transaction (ch341_i2c g) a wd n w))" by simp
qed (simp add: ch341_reach.reach_step [OF _ ch341_step.step_sleep])

end
