(* ===== verification/Startup.thy ===== *)
theory Startup
  imports HttpProps ConfigProps ChipFrame
begin

text \<open>
  The program as cmd/remote-mfi-for-xcertplay/main.go puts it together: construction of the transport,
  the driver, the service and the handler, and the record of the startup probe. The sequence of
  requests that the handler serves is a script: each request arrives after some idle time and after
  the answer to the one before. Interleavings of service calls are in \<open>ServiceConc\<close>, of requests in
  \<open>HttpConc\<close>; the goroutines of \<^verbatim>\<open>run\<close>, the signal, the shutdown and the exit code are in \<open>Lifecycle\<close>.
\<close>

section \<open>Construction\<close>

datatype log_handler = TextHandler log_level | JSONHandler log_level

definition newLogger :: "Config \<Rightarrow> log_handler" where
  "newLogger cfg =
     (if cf_LogFormat cfg = ''text'' then TextHandler (cf_LogLevel cfg) else JSONHandler (cf_LogLevel cfg))"

text \<open>The driver as the interface \<^verbatim>\<open>ChipDriver\<close>, with contexts that are never cancelled.\<close>

definition driver_interface :: "'w Driver \<Rightarrow> 'w chip_driver" where
  "driver_interface drv =
     \<lparr>cd_ProtocolMajor = ProtocolMajor drv None, cd_ReadCertificate = ReadCertificate drv None,
      cd_SignChallenge = SignChallenge drv None, cd_now = i2c_now (drv_transport drv)\<rparr>"

definition init_error :: "string \<Rightarrow> go_error \<Rightarrow> go_error" where
  "init_error what e = WrapError (what @ '': '' @ error_text e) e"

text \<open>From the transport to the HTTP handler; the location is \<^verbatim>\<open>time.Local\<close>, the logger is set.\<close>

definition start_service ::
  "'u gousb \<Rightarrow> (string \<Rightarrow> bool) \<Rightarrow> Config \<Rightarrow> 'u ch341 \<Rightarrow> 'u ch341 service server result" where
  "start_service g uuid_ok cfg ch341 =
     (case NewDriver (Some (ch341_i2c g)) (cf_I2CAddress cfg) of
        Err e \<Rightarrow> Err (init_error ''initialize MFi driver'' e)
      | Panic \<Rightarrow> Panic
      | Ok driver \<Rightarrow>
          (case NewService (Some (driver_interface driver)) (Some (InspectUSB g)) ch341 of
             Err e \<Rightarrow> Err (init_error ''initialize service'' e)
           | Panic \<Rightarrow> Panic
           | Ok service \<Rightarrow>
               (case NewHandler (Some (service_api (driver_interface driver) (InspectUSB g) uuid_ok)) True True
                       (cf_BearerToken cfg) (cf_RecentCapacity cfg) (t_clock ch341) service of
                  Err e \<Rightarrow> Err (init_error ''initialize HTTP API'' e)
                | Panic \<Rightarrow> Panic
                | Ok handler \<Rightarrow> Ok handler)))"

section \<open>Startup probe\<close>

datatype probe_record = ProbeFailed go_error | ProbeSucceeded byte

fun probe_record_of :: "reply \<Rightarrow> probe_record result" where
  "probe_record_of (ReplyProbe v) = Ok (ProbeSucceeded v)"
| "probe_record_of (ReplyError e) = Ok (ProbeFailed e)"
| "probe_record_of _ = Panic"

section \<open>Requests one after the other\<close>

definition idle_for :: "'u gousb \<Rightarrow> int \<Rightarrow> 'u ch341 service server \<Rightarrow> 'u ch341 service server" where
  "idle_for g idle srv =
     srv\<lparr>srv_service := (srv_service srv)\<lparr>sv_world := ch341_sleep g idle (sv_world (srv_service srv))\<rparr>\<rparr>"

text \<open>A panic of a handler ends its request only: \<^verbatim>\<open>net/http\<close> recovers it.\<close>

fun serve_all ::
  "'u gousb \<Rightarrow> 'u ch341 service api \<Rightarrow> clock_format \<Rightarrow> (request \<Rightarrow> statusRecorder \<Rightarrow> statusRecorder)
     \<Rightarrow> (int \<times> request) list \<Rightarrow> 'u ch341 service server
     \<Rightarrow> ((statusRecorder \<times> requestState) result list \<times> 'u ch341 service server) option" where
  "serve_all g a f fallback [] srv = Some ([], srv)"
| "serve_all g a f fallback ((idle, r) # rest) srv =
     (case serve a f fallback r (idle_for g idle srv) of
        None \<Rightarrow> None
      | Some (x, srv1) \<Rightarrow> map_option (\<lambda>(xs, srv2). (x # xs, srv2)) (serve_all g a f fallback rest srv1))"

lemma driver_interface_stack:
  "driver_interface \<lparr>drv_transport = ch341_i2c g, drv_address7Bit = address7Bit\<rparr> = stack_driver g address7Bit"
  by (simp add: driver_interface_def stack_driver_def Let_def)

section \<open>Service calls keep the transport reachable\<close>

definition driver_frame :: "'w chip_driver \<Rightarrow> ('w \<Rightarrow> bool) \<Rightarrow> bool" where
  "driver_frame d good \<longleftrightarrow>
     (\<forall>w. good w \<longrightarrow> ends_in good (cd_ProtocolMajor d w) \<and> ends_in good (cd_ReadCertificate d w)
        \<and> (\<forall>ch. ends_in good (cd_SignChallenge d ch w)))"

lemma on_hardware_frame:
  "on_hardware k sv m = Some (p, sv') \<Longrightarrow> ends_in good m \<Longrightarrow> good (sv_world sv')"
  by (auto simp: on_hardware_def split: option.splits)

lemma Sign_lookup_world: "Sign_lookup d rid ch sv = (x, sv') \<Longrightarrow> sv_world sv' = sv_world sv"
  by (auto simp: Sign_lookup_def split: prod.splits option.splits)

lemma thread_run_frame:
  assumes "driver_frame d good" and "good (sv_world sv)" and "thread_run d u p sv = Some (p', sv')"
  shows "good (sv_world sv')"
proof -
  have f: "ends_in good (cd_ProtocolMajor d (sv_world sv))" "ends_in good (cd_ReadCertificate d (sv_world sv))"
    "\<And>ch. ends_in good (cd_SignChallenge d ch (sv_world sv))"
    using assms(1,2) by (simp_all add: driver_frame_def)
  show ?thesis
  proof (cases p)
    case (Entering c)
    then show ?thesis using assms(2,3)
      by (cases c) (auto simp: Sign_enter_def dest: Sign_lookup_world split: option.splits prod.splits if_splits)
  next
    case (Holding c wait)
    then show ?thesis using assms(2,3)
      by (cases c) (auto dest: Sign_lookup_world split: option.splits prod.splits)
  next
    case (Calling c wait st)
    then show ?thesis using assms(3) by (cases c) (auto dest: on_hardware_frame intro: f)
  next
    case (ReadingCertificate wait st pm)
    then show ?thesis using assms(3) by (auto dest: on_hardware_frame intro: f)
  qed (use assms(2,3) in \<open>auto simp: Certificate_store_def Sign_store_def Let_def split: option.splits prod.splits\<close>)
qed

lemma run_thread_frame:
  assumes "driver_frame d good"
  shows "good (sv_world sv) \<Longrightarrow> run_thread n d u p sv = Some (r, sv') \<Longrightarrow> good (sv_world sv')"
proof (induction n arbitrary: p sv)
  case 0
  then show ?case by (cases p) auto
next
  case (Suc n)
  then show ?case
    by (cases "\<exists>q. p = Returned q")
       (auto simp: run_thread_Suc dest: thread_run_frame [OF assms] split: option.splits prod.splits)
qed

lemma service_call_frame:
  "driver_frame d good \<Longrightarrow> good (sv_world sv) \<Longrightarrow> service_call d u c sv = Some (r, sv') \<Longrightarrow> good (sv_world sv')"
  unfolding service_call_def by (rule run_thread_frame)

lemma stack_frame: "driver_frame (stack_driver g address7Bit) (ch341_reach g)"
proof -
  let ?drv = "\<lparr>drv_transport = ch341_i2c g, drv_address7Bit = address7Bit\<rparr>"
  have t: "drv_transport ?drv = ch341_i2c g" by simp
  show ?thesis
    by (simp add: driver_frame_def stack_driver_def Let_def ch341_frame.ProtocolMajor_keeps [OF t]
        ch341_frame.ReadCertificate_keeps [OF t] ch341_frame.SignChallenge_keeps [OF t])
qed

section \<open>Every request is answered\<close>

context http_service
begin

lemma serve_completes:
  assumes "ready (srv_service srv)" and "holds_newest h (srv_recent srv)"
  shows "\<exists>x srv' h'. serve a f fallback r srv = Some (x, srv') \<and> ready (srv_service srv')
     \<and> holds_newest h' (srv_recent srv') \<and> (safe \<longrightarrow> (\<exists>w st. x = Ok (w, st)))"
proof -
  obtain x s' where m: "mux a f fallback r (new_recorder, new_state) srv = Some (x, srv\<lparr>srv_service := s'\<rparr>)"
    and s': "ready s'" and safe: "safe \<longrightarrow> (\<exists>ws. x = Ok ws)"
    using mux_completes [OF assms] unfolding completes_def by blast
  show ?thesis
  proof (cases x)
    case (Ok ws)
    obtain w st where ws: "ws = (w, st)" by fastforce
    obtain rc where "serve a f fallback r srv = Some (Ok (w, st), srv\<lparr>srv_service := s', srv_recent := rc\<rparr>)"
      "holds_newest (if isBusinessPath (http_Path r) then observed a f r srv (srv\<lparr>srv_service := s'\<rparr>) w st # h else h) rc"
      using serve_observed [OF m [unfolded Ok ws] assms(2)] by auto
    with s' show ?thesis by fastforce
  qed (use m s' safe assms(2) in \<open>auto simp: serve_def observe_def\<close>)
qed

end

definition program_ready :: "'u gousb \<Rightarrow> 'u ch341 service \<Rightarrow> bool" where
  "program_ready g sv \<longleftrightarrow> service_ready sv \<and> ch341_reach g (sv_world sv)"

text \<open>The service on the CH341 stack provides the interface of the HTTP layer with the stronger
  invariant that the transport stays reachable.\<close>

interpretation program: http_service
    "service_api (stack_driver g address7Bit) (InspectUSB g) uuid_ok" "program_ready g"
    "driver_safe (stack_driver g address7Bit)" for g :: "'u gousb" and address7Bit uuid_ok
proof
  let ?d = "stack_driver g address7Bit"
  fix s :: "'u ch341 service" and rid ch
  assume "program_ready g s"
  then have s: "service_ready s" "ch341_reach g (sv_world s)" by (simp_all add: program_ready_def)
  note world = service_call_frame [of ?d "ch341_reach g" s uuid_ok, OF stack_frame s(2)]
  show "\<exists>r s'. api_Certificate (service_api ?d (InspectUSB g) uuid_ok) s = Some (r, s') \<and> program_ready g s'
      \<and> (driver_safe ?d \<longrightarrow> r \<noteq> Panic)"
    using stack.certificate_ready [OF s(1), of g address7Bit uuid_ok] world by (fastforce simp: program_ready_def)
  show "\<exists>r s'. api_Sign (service_api ?d (InspectUSB g) uuid_ok) rid ch s = Some (r, s') \<and> program_ready g s'
      \<and> (driver_safe ?d \<longrightarrow> r \<noteq> Panic)"
    using stack.sign_ready [OF s(1), of g address7Bit uuid_ok rid ch] world by (fastforce simp: program_ready_def)
  show "\<exists>r s'. api_Reset (service_api ?d (InspectUSB g) uuid_ok) s = (r, s') \<and> program_ready g s' \<and> r \<noteq> Panic"
    using s by (simp add: Reset_def program_ready_def)
  have inspect: "program_ready g (snd (inspectUSB (InspectUSB g) b s))" for b
  proof -
    obtain st w where i: "InspectUSB g b (sv_world s) = (st, w)" by fastforce
    from ch341_reach.reach_step [OF s(2) ch341_step.step_inspect [OF i]]
    show ?thesis using s(1) by (simp add: inspectUSB_def i program_ready_def service_ready_def)
  qed
  then show "program_ready g (snd (api_Health (service_api ?d (InspectUSB g) uuid_ok) s))"
    "program_ready g (snd (api_Diagnostics (service_api ?d (InspectUSB g) uuid_ok) s))"
    by (simp_all add: Health_def Diagnostics_def)
qed

lemma idle_for_ready:
  "program_ready g (srv_service srv) \<Longrightarrow> program_ready g (srv_service (idle_for g idle srv))"
  "srv_recent (idle_for g idle srv) = srv_recent srv"
  by (auto simp: program_ready_def service_ready_def idle_for_def
      intro: ch341_reach.reach_step [OF _ ch341_step.step_sleep])

lemma serve_all_answers:
  assumes "driver_safe (stack_driver g address7Bit)"
  shows "program_ready g (srv_service srv) \<Longrightarrow> holds_newest h (srv_recent srv) \<Longrightarrow>
     \<exists>xs srv'. serve_all g (service_api (stack_driver g address7Bit) (InspectUSB g) uuid_ok) f fallback script srv
         = Some (xs, srv')
       \<and> length xs = length script \<and> list_all (\<lambda>x. \<exists>w st. x = Ok (w, st)) xs
       \<and> program_ready g (srv_service srv')"
proof (induction script arbitrary: srv h)
  case (Cons p script)
  obtain idle r where p: "p = (idle, r)" by fastforce
  let ?srv = "idle_for g idle srv"
  obtain x srv1 h1 where 1: "serve (service_api (stack_driver g address7Bit) (InspectUSB g) uuid_ok) f fallback r ?srv
      = Some (x, srv1)" "program_ready g (srv_service srv1)" "holds_newest h1 (srv_recent srv1)" "\<exists>w st. x = Ok (w, st)"
    using program.serve_completes [OF idle_for_ready(1) [OF Cons.prems(1), of idle]
        Cons.prems(2) [folded idle_for_ready(2) [of g idle srv]], of address7Bit uuid_ok f fallback r] assms
    by blast
  from Cons.IH [OF 1(2,3)] 1 show ?case by (auto simp: p)
qed simp

lemma start_service_Ok:
  assumes "\<not> cf_I2CAddress cfg > 0x7f" and "0 < cf_RecentCapacity cfg" and "ch341_reach g t"
  shows "\<exists>srv. start_service g uuid_ok cfg t = Ok srv \<and> program_ready g (srv_service srv)
     \<and> holds_newest [] (srv_recent srv) \<and> sv_world (srv_service srv) = t
     \<and> srv_bearerToken srv = cf_BearerToken cfg"
  using assms
  by (simp add: start_service_def NewDriver_def NewService_def NewHandler_def program_ready_def service_ready_def
      newChipGate_def newSignatureCache_def holds_newest_new)

section \<open>Properties\<close>

text \<open>C39. The program serves: every accepted command line leads to a running handler, and whatever
  requests arrive, in whatever order and with whatever pauses, and whatever the USB device does,
  each one is answered by a response; no handler panics if the USB library respects the reader
  contract, and the transport stays in a reachable state.\<close>

theorem program_answers:
  assumes "Parse args = Inr (Some cfg)" and "reads_fit g"
    and "NewCh341 (cf_USBIDs cfg) (cf_I2CSpeedKHz cfg) now usb = Ok t"
  shows "\<exists>srv. start_service g uuid_ok cfg t = Ok srv \<and> srv_bearerToken srv = cf_BearerToken cfg
     \<and> (\<exists>xs srv'. serve_all g (service_api (stack_driver g (cf_I2CAddress cfg)) (InspectUSB g) uuid_ok)
            f fallback script srv = Some (xs, srv')
          \<and> length xs = length script \<and> list_all (\<lambda>x. \<exists>w st. x = Ok (w, st)) xs
          \<and> ch341_reach g (sv_world (srv_service srv')))"
proof -
  have "ch341_reach g t" by (rule ch341_reach.reach_new [OF assms(3)])
  with Parse_facts [OF assms(1)] obtain srv where s: "start_service g uuid_ok cfg t = Ok srv"
    "program_ready g (srv_service srv)" "holds_newest [] (srv_recent srv)" "srv_bearerToken srv = cf_BearerToken cfg"
    using start_service_Ok [of cfg g t uuid_ok] by auto
  from serve_all_answers [OF stack_driver_safe [OF assms(2)] s(2,3)] s(1,4) show ?thesis
    by (fastforce simp: program_ready_def)
qed

lemma sim_reads_fit: "reads_fit sim_gousb"
  by (auto simp: reads_fit_def sim_gousb_def)

theorem program_answers_witness:
  "\<exists>t srv xs srv'. NewCh341 [\<lparr>Vendor = 0x1a86, Product = 0x5512\<rparr>] 100 0 (t_usb sim_start) = Ok t
     \<and> serve_all sim_gousb (service_api (stack_driver sim_gousb 0x11) (InspectUSB sim_gousb) (\<lambda>_. True))
          test_format (\<lambda>r w. w) [(0, test_request), (5, test_request)] srv = Some (xs, srv') \<and> length xs = 2"
proof -
  obtain t where t: "NewCh341 [\<lparr>Vendor = 0x1a86, Product = 0x5512\<rparr>] 100 0 (t_usb sim_start) = Ok t"
    using Parse_facts(1) [OF Parse_defaults, of 0 "t_usb sim_start"] by auto
  with program_answers [OF Parse_defaults sim_reads_fit, of 0 "t_usb sim_start" t "\<lambda>_. True" test_format "\<lambda>r w. w"
      "[(0, test_request), (5, test_request)]"]
  obtain srv xs srv' where "serve_all sim_gousb (service_api (stack_driver sim_gousb 0x11) (InspectUSB sim_gousb) (\<lambda>_. True))
      test_format (\<lambda>r w. w) [(0, test_request), (5, test_request)] srv = Some (xs, srv')" "length xs = 2"
    by (auto simp del: serve_all.simps)
  with t show ?thesis by blast
qed

end
