(* ===== verification/HttpConc.thy ===== *)
theory HttpConc
  imports HttpProps
begin

text \<open>
  Requests served at the same time. \<^verbatim>\<open>net/http\<close> runs the handler of every request in a goroutine of
  its own; the handlers meet in the service, in the log of recent requests and on the device. A
  request of internal/httpapi is cut where it meets the others: at the start of \<^verbatim>\<open>observe\<close>, at its
  service call, which runs as a thread of \<open>ServiceConc\<close>, at the answer, and at the entry into the log.
  The handlers themselves are those of \<open>HttpApi\<close>: the part after the service call is the handler run on
  a service that answers with the reply of the thread (\<open>replay_api\<close>). What a handler does on its own,
  the inspection behind \<^verbatim>\<open>/healthz\<close> and \<^verbatim>\<open>/debug/usb\<close> included, is one step.
\<close>

section \<open>Requests cut at their service call\<close>

text \<open>The service call that the handler of a request makes, if it gets that far.\<close>

definition handler_call :: "string \<Rightarrow> request \<Rightarrow> call option" where
  "handler_call bearerToken r =
     (if \<not> authorized bearerToken False r then None
      else if http_Path r = ''/mfi/certificate''
      then (if http_Method r = ''GET'' then Some CallCertificate else None)
      else if http_Path r = ''/mfi/sign'' \<and> http_Method r = ''POST''
      then (case decodeJSON (http_BodyReadable r) (http_Body r) of
              None \<Rightarrow> None
            | Some req \<Rightarrow>
                if rq_RequestID req = [] \<or> rq_Challenge req = [] then None
                else map_option (CallSign (rq_RequestID req)) (base64_DecodeString (rq_Challenge req)))
      else None)"

text \<open>A service whose next reply is known.\<close>

definition replay_api :: "'s api \<Rightarrow> reply \<Rightarrow> 's api" where
  "replay_api a reply = a\<lparr>
     api_Certificate := (\<lambda>s. Some (certificate_result reply, s)),
     api_Sign := (\<lambda>requestID challenge s. Some (sign_result reply, s))\<rparr>"

lemma replay_api_simps [simp]:
  "api_Certificate (replay_api a reply) s = Some (certificate_result reply, s)"
  "api_Sign (replay_api a reply) rid ch s = Some (sign_result reply, s)"
  "api_Reset (replay_api a reply) = api_Reset a" "api_Health (replay_api a reply) = api_Health a"
  "api_Diagnostics (replay_api a reply) = api_Diagnostics a" "api_Runtime (replay_api a reply) = api_Runtime a"
  "api_now (replay_api a reply) = api_now a"
  by (simp_all add: replay_api_def)

lemma handler_call_path:
  "handler_call tok r = Some CallCertificate \<Longrightarrow> http_Path r = ''/mfi/certificate''"
  "handler_call tok r = Some (CallSign rid ch) \<Longrightarrow> http_Path r = ''/mfi/sign''"
  "handler_call tok r \<noteq> Some CallProbe"
  "handler_call tok r = Some c \<Longrightarrow> authorized tok False r"
  by (auto simp: handler_call_def split: if_splits option.splits)

text \<open>Run without interruption, the pieces are the handler: service call, then answer.\<close>

lemma mux_calls:
  assumes "handler_call (srv_bearerToken srv) r = Some c"
  shows "mux (service_api d i u) f fallback r ws srv =
     (case service_call d u c (srv_service srv) of
        None \<Rightarrow> None
      | Some (reply, sv) \<Rightarrow>
          mux (replay_api (service_api d i u) reply) f fallback r ws (srv\<lparr>srv_service := sv\<rparr>))"
proof (cases "http_Path r = ''/mfi/certificate''")
  case True
  with assms have "c = CallCertificate" "http_Method r = ''GET''" "authorized (srv_bearerToken srv) False r"
    by (auto simp: handler_call_def split: if_splits)
  with True show ?thesis
    by (auto simp: mux_def withAuth_def handleCertificate_def requireMethod_def
        split: option.splits result.splits)
next
  case False
  with assms obtain req ch where "http_Path r = ''/mfi/sign''" "http_Method r = ''POST''"
    "authorized (srv_bearerToken srv) False r" "decodeJSON (http_BodyReadable r) (http_Body r) = Some req"
    "rq_RequestID req \<noteq> []" "rq_Challenge req \<noteq> []" "base64_DecodeString (rq_Challenge req) = Some ch"
    "c = CallSign (rq_RequestID req) ch"
    by (auto simp: handler_call_def split: if_splits option.splits)
  then show ?thesis
    by (auto simp: mux_def withAuth_def handleSign_def requireMethod_def Let_def
        split: option.splits result.splits)
qed

text \<open>A handler that makes no gated call changes the hardware at most by an inspection, and answers
  with neither a certificate nor a signature.\<close>

fun carries_result :: "body \<Rightarrow> bool" where
  "carries_result (JsonCertificate ty pm b64 sha) = True"
| "carries_result (JsonSignature sig) = True"
| "carries_result _ = False"

lemma carries_write [simp]:
  "rec_body (writeJSON status b w) = b" "rec_body (Write_body b w) = b"
  by (simp_all add: writeJSON_def Write_body_def Let_def)

lemma writeServiceError_body [simp]: "\<not> carries_result (rec_body (fst (writeServiceError e ws)))"
  by (simp add: writeServiceError_def split: prod.split)

lemma bad_request_body [simp]: "rec_body (fst (bad_request detail ws)) = JsonDetail detail"
  by (simp add: bad_request_def)

lemma requireMethod_body: "requireMethod m r ws = Some ws1 \<Longrightarrow> \<not> carries_result (rec_body (fst ws1))"
  by (auto simp: requireMethod_def split: if_splits)

definition inspected :: "(bool \<Rightarrow> 'w \<Rightarrow> USBStatus \<times> 'w) \<Rightarrow> 'w service \<Rightarrow> 'w service \<Rightarrow> bool" where
  "inspected inspector sv sv' \<longleftrightarrow> sv' = sv \<or> (\<exists>b. sv' = sv\<lparr>sv_world := snd (inspector b (sv_world sv))\<rparr>)"

definition plain :: "(bool \<Rightarrow> 'w \<Rightarrow> USBStatus \<times> 'w) \<Rightarrow> 'w service server \<Rightarrow> 'w service handled \<Rightarrow> bool" where
  "plain i srv m \<longleftrightarrow>
     (case m of None \<Rightarrow> True
      | Some (x, srv') \<Rightarrow> inspected i (srv_service srv) (srv_service srv')
          \<and> (case x of Ok ws \<Rightarrow> \<not> carries_result (rec_body (fst ws)) | _ \<Rightarrow> True))"

lemma plain_here [simp]:
  "plain i srv (Some (Ok ws, srv)) \<longleftrightarrow> \<not> carries_result (rec_body (fst ws))"
  by (simp add: plain_def inspected_def)

lemma plain_inspection [simp]:
  "plain i srv (Some (Ok ws, srv\<lparr>srv_service := (srv_service srv)\<lparr>sv_world := snd (i b (sv_world (srv_service srv)))\<rparr>\<rparr>))
     \<longleftrightarrow> \<not> carries_result (rec_body (fst ws))"
  "plain i srv (Some (Err e, srv\<lparr>srv_service := (srv_service srv)\<lparr>sv_world := snd (i b (sv_world (srv_service srv)))\<rparr>\<rparr>))"
  "plain i srv (Some (Panic, srv\<lparr>srv_service := (srv_service srv)\<lparr>sv_world := snd (i b (sv_world (srv_service srv)))\<rparr>\<rparr>))"
  by (auto simp: plain_def inspected_def)

lemma handlers_plain:
  "plain i srv (handleReset (service_api d i u) r ws srv)"
  "plain i srv (handleHealth (service_api d i u) r ws srv)"
  "plain i srv (handleDebug (service_api d i u) f r ws srv)"
  by (simp_all add: handleReset_def handleHealth_def handleDebug_def Reset_def Health_def Diagnostics_def
      inspectUSB_def case_prod_beta Let_def requireMethod_body split: option.split result.split)

lemma withAuth_plain:
  "(authorized (srv_bearerToken srv) q r \<Longrightarrow> plain i srv (h r ws srv)) \<Longrightarrow> plain i srv (withAuth q h r ws srv)"
  by (simp add: withAuth_def Let_def)

lemma handleCertificate_plain:
  assumes "handler_call tok r = None" "http_Path r = ''/mfi/certificate''" "authorized tok False r"
  shows "plain i srv (handleCertificate (service_api d i u) r ws srv)"
  using assms by (auto simp: handleCertificate_def handler_call_def requireMethod_def split: if_splits)

lemma handleSign_plain:
  assumes "handler_call tok r = None" "http_Path r = ''/mfi/sign''" "authorized tok False r"
  shows "plain i srv (handleSign (service_api d i u) r ws srv)"
proof (cases "http_Method r = ''POST''")
  case True
  with assms show ?thesis
    by (cases "decodeJSON (http_BodyReadable r) (http_Body r)")
       (auto simp: handleSign_def handler_call_def requireMethod_def Let_def split: if_splits)
qed (simp add: handleSign_def requireMethod_def)

lemma mux_local:
  assumes "handler_call (srv_bearerToken srv) r = None" and "routed (http_Path r)"
  shows "plain i srv (mux (service_api d i u) f fallback r ws srv)"
  using assms
  by (auto simp: mux_def routed_def isBusinessPath_def
      intro!: withAuth_plain handlers_plain handleCertificate_plain handleSign_plain)

text \<open>What \<^verbatim>\<open>http.ServeMux\<close> answers by itself does not touch the service.\<close>

lemma mux_other:
  "\<not> routed (http_Path r) \<Longrightarrow> mux a f fallback r ws srv = Some (Ok (fallback r (fst ws), snd ws), srv)"
  by (auto simp: mux_def routed_def isBusinessPath_def)

text \<open>What the handler makes of the reply: a signature in the answer is the reply's, and so is a
  certificate.\<close>

definition answer_from :: "call \<Rightarrow> reply \<Rightarrow> body \<Rightarrow> bool" where
  "answer_from c reply b \<longleftrightarrow>
     (case b of
        JsonSignature sig \<Rightarrow>
          (\<exists>rid ch res. c = CallSign rid ch \<and> reply = ReplySign res \<and> sig = base64_EncodeToString (sr_Signature res))
      | JsonCertificate ty pm b64 sha \<Rightarrow>
          (\<exists>ct. c = CallCertificate \<and> reply = ReplyCertificate ct \<and> pm = uint (ct_ProtocolMajor ct)
             \<and> b64 = ct_Base64 ct \<and> sha = ct_SHA256Hex ct)
      | _ \<Rightarrow> True)"

lemma answer_from_plain: "\<not> carries_result b \<Longrightarrow> answer_from c reply b"
  by (cases b) (simp_all add: answer_from_def)

lemma mux_reply:
  assumes "handler_call (srv_bearerToken srv) r = Some c"
  shows "\<exists>x. mux (replay_api a reply) f fallback r ws srv = Some (x, srv)
     \<and> (\<forall>w st. x = Ok (w, st) \<longrightarrow> answer_from c reply (rec_body w))"
proof -
  have err: "answer_from c reply (rec_body w)" if "writeServiceError e ws' = (w, st)" for e ws' w st
    using writeServiceError_body [of e ws'] that by (simp add: answer_from_plain)
  show ?thesis
  proof (cases "http_Path r = ''/mfi/certificate''")
    case True
    with assms have c: "c = CallCertificate" "http_Method r = ''GET''" "authorized (srv_bearerToken srv) False r"
      by (auto simp: handler_call_def split: if_splits)
    show ?thesis
      using True c by (cases reply) (auto simp: mux_def withAuth_def handleCertificate_def requireMethod_def
          answer_from_def [where b = "JsonCertificate _ _ _ _"] dest: err)
  next
    case False
    with assms obtain req ch where "http_Path r = ''/mfi/sign''" "http_Method r = ''POST''"
      "authorized (srv_bearerToken srv) False r" "decodeJSON (http_BodyReadable r) (http_Body r) = Some req"
      "rq_RequestID req \<noteq> []" "rq_Challenge req \<noteq> []" "base64_DecodeString (rq_Challenge req) = Some ch"
      "c = CallSign (rq_RequestID req) ch"
      by (auto simp: handler_call_def split: if_splits option.splits)
    then show ?thesis
      by (cases reply) (auto simp: mux_def withAuth_def handleSign_def requireMethod_def Let_def
          answer_from_def [where b = "JsonSignature _"] dest: err)
  qed
qed

section \<open>Many requests\<close>

text \<open>Where a request is: after the start of \<^verbatim>\<open>observe\<close>, in its service call, answered but not yet
  recorded, finished, or ended by a panic, which \<^verbatim>\<open>net/http\<close> confines to the request. The number is the
  time at which \<^verbatim>\<open>observe\<close> started.\<close>

datatype http_place =
    Accepted (hp_request: request) int
  | InService (hp_request: request) int call
  | Written (hp_request: request) int statusRecorder requestState
  | Finished (hp_request: request) statusRecorder
  | Crashed (hp_request: request)

text \<open>\<open>hy_done\<close> records, for the statements only, which request made which entry.\<close>

record 'w http_system =
  hy_system :: "'w system"
  hy_bearerToken :: string
  hy_startedAt :: int
  hy_recent :: recentStore
  hy_requests :: "nat \<rightharpoonup> http_place"
  hy_done :: "(nat \<times> RecentRequest) list"

definition hy_server :: "'w http_system \<Rightarrow> 'w service server" where
  "hy_server h = \<lparr>srv_bearerToken = hy_bearerToken h, srv_startedAt = hy_startedAt h,
     srv_recent = hy_recent h, srv_service = sy_service (hy_system h)\<rparr>"

definition at_place :: "nat \<Rightarrow> http_place \<Rightarrow> 'w http_system \<Rightarrow> 'w http_system" where
  "at_place i p h = h\<lparr>hy_requests := (hy_requests h)(i \<mapsto> p)\<rparr>"

fun handler_ended :: "request \<Rightarrow> int \<Rightarrow> (statusRecorder \<times> requestState) result \<Rightarrow> http_place" where
  "handler_ended r started (Ok (w, st)) = Written r started w st"
| "handler_ended r started (Err e) = Crashed r"
| "handler_ended r started Panic = Crashed r"

lemma handler_ended_request: "hp_request (handler_ended r t x) = r"
  by (cases "(r, t, x)" rule: handler_ended.cases) simp_all

lemma handler_ended_unfinished: "handler_ended r t x \<noteq> Finished r' w'"
  by (cases "(r, t, x)" rule: handler_ended.cases) simp_all

text \<open>The rest of \<^verbatim>\<open>observe\<close>, after the handler has returned.\<close>

definition record_request ::
  "'w chip_driver \<Rightarrow> clock_format \<Rightarrow> nat \<Rightarrow> request \<Rightarrow> int \<Rightarrow> statusRecorder \<Rightarrow> requestState
     \<Rightarrow> 'w http_system \<Rightarrow> 'w http_system" where
  "record_request d f i r started w st h =
     (let now = sv_now d (sy_service (hy_system h));
          entry = recent_entry (fmt_millis f now) (http_Method r) (http_Path r) (statusOrOK w) (now - started)
            (if st_note st = [] then defaultNote (rec_status w) else st_note st)
      in if isBusinessPath (http_Path r)
         then (case recent_add entry (hy_recent h) of
                 Ok recent \<Rightarrow> (at_place i (Finished r w) h)\<lparr>hy_recent := recent, hy_done := (i, entry) # hy_done h\<rparr>
               | _ \<Rightarrow> at_place i (Crashed r) h)
         else at_place i (Finished r w) h)"

text \<open>The next step of request \<open>i\<close>; \<open>None\<close>: its service call has not returned, or it has ended.\<close>

definition http_run ::
  "'w chip_driver \<Rightarrow> (bool \<Rightarrow> 'w \<Rightarrow> USBStatus \<times> 'w) \<Rightarrow> (string \<Rightarrow> bool) \<Rightarrow> clock_format
     \<Rightarrow> (request \<Rightarrow> statusRecorder \<Rightarrow> statusRecorder) \<Rightarrow> nat \<Rightarrow> 'w http_system \<Rightarrow> 'w http_system option" where
  "http_run d inspector uuid_ok f fallback i h =
     (case hy_requests h i of
        Some (Accepted r started) \<Rightarrow>
          (case handler_call (hy_bearerToken h) r of
             Some c \<Rightarrow>
               Some (at_place i (InService r started c) (h\<lparr>hy_system := (hy_system h)\<lparr>sy_threads :=
                 (sy_threads (hy_system h))(i \<mapsto> (c, Entering c))\<rparr>\<rparr>))
           | None \<Rightarrow>
               (case mux (service_api d inspector uuid_ok) f fallback r (new_recorder, new_state) (hy_server h) of
                  None \<Rightarrow> None
                | Some (x, srv) \<Rightarrow>
                    Some (at_place i (handler_ended r started x)
                      (h\<lparr>hy_system := (hy_system h)\<lparr>sy_service := srv_service srv\<rparr>\<rparr>))))
      | Some (InService r started c) \<Rightarrow>
          (case sy_threads (hy_system h) i of
             Some (c', Returned reply) \<Rightarrow>
               (case mux (replay_api (service_api d inspector uuid_ok) reply) f fallback r
                       (new_recorder, new_state) (hy_server h) of
                  None \<Rightarrow> None
                | Some (x, srv) \<Rightarrow> Some (at_place i (handler_ended r started x) h))
           | _ \<Rightarrow> None)
      | Some (Written r started w st) \<Rightarrow> Some (record_request d f i r started w st h)
      | _ \<Rightarrow> None)"

lemma http_runE:
  assumes "http_run d inspector u f fallback i h = Some h'"
  obtains (calls) r t c where "hy_requests h i = Some (Accepted r t)" "handler_call (hy_bearerToken h) r = Some c"
      "h' = at_place i (InService r t c) (h\<lparr>hy_system := (hy_system h)\<lparr>sy_threads :=
         (sy_threads (hy_system h))(i \<mapsto> (c, Entering c))\<rparr>\<rparr>)"
  | (answers) r t x srv where "hy_requests h i = Some (Accepted r t)" "handler_call (hy_bearerToken h) r = None"
      "mux (service_api d inspector u) f fallback r (new_recorder, new_state) (hy_server h) = Some (x, srv)"
      "h' = at_place i (handler_ended r t x) (h\<lparr>hy_system := (hy_system h)\<lparr>sy_service := srv_service srv\<rparr>\<rparr>)"
  | (replies) r t c c' reply x srv where "hy_requests h i = Some (InService r t c)"
      "sy_threads (hy_system h) i = Some (c', Returned reply)"
      "mux (replay_api (service_api d inspector u) reply) f fallback r (new_recorder, new_state) (hy_server h) = Some (x, srv)"
      "h' = at_place i (handler_ended r t x) h"
  | (records) r t w st where "hy_requests h i = Some (Written r t w st)" "h' = record_request d f i r t w st h"
proof -
  obtain q where q: "hy_requests h i = Some q" using assms by (cases "hy_requests h i") (auto simp: http_run_def)
  show thesis
  proof (cases q)
    case (Accepted r t)
    then show thesis using assms q calls answers
      by (auto simp: http_run_def split: option.splits)
  next
    case (InService r t c)
    then show thesis using assms q replies
      by (auto simp: http_run_def split: option.splits prod.splits pc.splits)
  qed (use assms q records in \<open>auto simp: http_run_def\<close>)
qed

lemma record_request_system [simp]: "hy_system (record_request d f i r t w st h) = hy_system h"
  by (simp add: record_request_def at_place_def Let_def split: result.split)

text \<open>A request arrives, a request goes on, a service call goes on (or its wait ends, or the
  environment changes), or the startup probe begins.\<close>

inductive http_step ::
  "'w chip_driver \<Rightarrow> (bool \<Rightarrow> 'w \<Rightarrow> USBStatus \<times> 'w) \<Rightarrow> (string \<Rightarrow> bool) \<Rightarrow> clock_format
     \<Rightarrow> (request \<Rightarrow> statusRecorder \<Rightarrow> statusRecorder) \<Rightarrow> 'w http_system \<Rightarrow> 'w http_system \<Rightarrow> bool"
  for d inspector uuid_ok f fallback where
  http_accept: "hy_requests h i = None \<Longrightarrow> sy_threads (hy_system h) i = None \<Longrightarrow>
    http_step d inspector uuid_ok f fallback h
      (at_place i (Accepted r (sv_now d (sy_service (hy_system h)))) h)"
| http_request: "http_run d inspector uuid_ok f fallback i h = Some h' \<Longrightarrow>
    http_step d inspector uuid_ok f fallback h h'"
| http_call: "system_step d uuid_ok (hy_system h) s \<Longrightarrow> dom (sy_threads s) = dom (sy_threads (hy_system h)) \<Longrightarrow>
    http_step d inspector uuid_ok f fallback h (h\<lparr>hy_system := s\<rparr>)"
| http_probe: "hy_requests h i = None \<Longrightarrow> sy_threads (hy_system h) i = None \<Longrightarrow>
    http_step d inspector uuid_ok f fallback h (h\<lparr>hy_system := (hy_system h)\<lparr>sy_threads :=
      (sy_threads (hy_system h))(i \<mapsto> (CallProbe, Entering CallProbe))\<rparr>\<rparr>)"

definition http_start :: "'w service server \<Rightarrow> 'w http_system" where
  "http_start srv = \<lparr>hy_system = system_start (srv_service srv), hy_bearerToken = srv_bearerToken srv,
     hy_startedAt = srv_startedAt srv, hy_recent = srv_recent srv, hy_requests = (\<lambda>_. None), hy_done = []\<rparr>"

inductive http_reach ::
  "'w chip_driver \<Rightarrow> (bool \<Rightarrow> 'w \<Rightarrow> USBStatus \<times> 'w) \<Rightarrow> (string \<Rightarrow> bool) \<Rightarrow> clock_format
     \<Rightarrow> (request \<Rightarrow> statusRecorder \<Rightarrow> statusRecorder) \<Rightarrow> 'w http_system \<Rightarrow> bool"
  for d inspector uuid_ok f fallback where
  http_new: "NewService (Some d) (Some inspector) w = Ok sv \<Longrightarrow> 0 < recentCapacity \<Longrightarrow>
    NewHandler (Some a) True True bearerToken recentCapacity now sv = Ok srv \<Longrightarrow>
    http_reach d inspector uuid_ok f fallback (http_start srv)"
| http_more: "http_reach d inspector uuid_ok f fallback h \<Longrightarrow>
    http_step d inspector uuid_ok f fallback h h' \<Longrightarrow> http_reach d inspector uuid_ok f fallback h'"

section \<open>Interface\<close>

text \<open>The service as the handlers see it: the driver, and an inspection that takes time.\<close>

locale inspected_service = service_driver d for d :: "'w chip_driver" +
  fixes inspector :: "bool \<Rightarrow> 'w \<Rightarrow> USBStatus \<times> 'w"
  assumes inspection_clock: "cd_now d w \<le> cd_now d (snd (inspector b w))"

section \<open>Invariant\<close>

text \<open>What the answer to a request says about the history of the chip.\<close>

definition body_ok :: "'w system \<Rightarrow> call option \<Rightarrow> body \<Rightarrow> bool" where
  "body_ok s c b \<longleftrightarrow>
     (case b of
        JsonSignature sig \<Rightarrow>
          (\<exists>rid ch. c = Some (CallSign rid ch) \<and> (\<exists>l \<in> set (sy_log s). sg_id l = rid
             \<and> sha256_Sum256 (sg_challenge l) = sha256_Sum256 ch
             \<and> sig = base64_EncodeToString (sg_signature l)))
      | JsonCertificate ty pm b64 sha \<Rightarrow>
          c = Some CallCertificate
          \<and> (\<exists>ct. sv_certificate (sy_service s) = Some ct \<and> pm = uint (ct_ProtocolMajor ct)
               \<and> b64 = ct_Base64 ct \<and> sha = ct_SHA256Hex ct)
      | _ \<Rightarrow> True)"

definition response_ok :: "'w http_system \<Rightarrow> request \<Rightarrow> statusRecorder \<Rightarrow> bool" where
  "response_ok h r w \<longleftrightarrow> (routed (http_Path r) \<longrightarrow>
     answered w \<and> body_ok (hy_system h) (handler_call (hy_bearerToken h) r) (rec_body w))"

fun place_ok :: "'w http_system \<Rightarrow> nat \<Rightarrow> http_place \<Rightarrow> bool" where
  "place_ok h i (Accepted r started) \<longleftrightarrow> sy_threads (hy_system h) i = None"
| "place_ok h i (InService r started c) \<longleftrightarrow>
     handler_call (hy_bearerToken h) r = Some c \<and> (\<exists>p. sy_threads (hy_system h) i = Some (c, p))"
| "place_ok h i (Written r started w st) \<longleftrightarrow> response_ok h r w"
| "place_ok h i (Finished r w) \<longleftrightarrow> response_ok h r w"
| "place_ok h i (Crashed r) \<longleftrightarrow> True"

text \<open>A service call belongs to a request that asks for it, or is the startup probe.\<close>

fun owner_ok :: "string \<Rightarrow> http_place option \<Rightarrow> call \<Rightarrow> bool" where
  "owner_ok bearerToken None c \<longleftrightarrow> c = CallProbe"
| "owner_ok bearerToken (Some q) c \<longleftrightarrow> handler_call bearerToken (hp_request q) = Some c"

definition calls_ok :: "'w http_system \<Rightarrow> bool" where
  "calls_ok h \<longleftrightarrow> (\<forall>i c p. sy_threads (hy_system h) i = Some (c, p) \<longrightarrow>
     owner_ok (hy_bearerToken h) (hy_requests h i) c)"

definition recorded :: "'w http_system \<Rightarrow> nat \<Rightarrow> RecentRequest \<Rightarrow> bool" where
  "recorded h i e \<longleftrightarrow> (\<exists>r w. hy_requests h i = Some (Finished r w) \<and> isBusinessPath (http_Path r)
     \<and> rr_Method e = http_Method r \<and> rr_Path e = http_Path r \<and> rr_Status e = statusOrOK w)"

definition log_ok :: "'w http_system \<Rightarrow> bool" where
  "log_ok h \<longleftrightarrow> holds_newest (map snd (hy_done h)) (hy_recent h) \<and> distinct (map fst (hy_done h))
     \<and> (\<forall>(i, e) \<in> set (hy_done h). recorded h i e)
     \<and> (\<forall>i r w. hy_requests h i = Some (Finished r w) \<and> isBusinessPath (http_Path r) \<longrightarrow> i \<in> fst ` set (hy_done h))"

definition http_inv :: "'w chip_driver \<Rightarrow> 'w http_system \<Rightarrow> bool" where
  "http_inv d h \<longleftrightarrow> system_inv d (hy_system h) \<and> calls_ok h \<and> log_ok h
     \<and> (\<forall>i p. hy_requests h i = Some p \<longrightarrow> place_ok h i p)"

section \<open>Steps of the service under the requests\<close>

lemma body_ok_evolves: "body_ok s c b \<Longrightarrow> evolves d s s' \<Longrightarrow> body_ok s' c b"
  by (cases b) (fastforce simp: body_ok_def evolves_def)+

context service_driver
begin

lemma system_step_evolves:
  assumes "system_step d u s s'" and inv: "system_inv d s"
  shows "evolves d s s'"
  using assms(1)
proof cases
  case (run i c p p' sv')
  have "step_ok d s c p p' s'" by (rule run_step [OF inv run(2,3)]) (simp_all add: run(1))
  then show ?thesis by (simp add: step_ok_def)
qed (auto simp: evolves_def sv_now_def)

end

lemma system_step_threads:
  assumes "system_step d u s s'" and "sy_threads s i = Some (c, p)"
  shows "\<exists>p'. sy_threads s' i = Some (c, p')"
  using assms by cases auto

lemma reply_answer_ok:
  assumes "reply_ok s c reply" and "answer_from c reply b"
  shows "body_ok s (Some c) b"
proof (cases b)
  case (JsonSignature sig)
  with assms show ?thesis by (auto simp: answer_from_def body_ok_def) (metis)
next
  case (JsonCertificate ty pm b64 sha)
  with assms show ?thesis by (auto simp: answer_from_def body_ok_def same_certificate_def)
qed (simp_all add: body_ok_def)

text \<open>The system below moves on, and no request does.\<close>

lemma http_inv_system:
  assumes inv: "http_inv d h" and sys: "system_inv d s" and ev: "evolves d (hy_system h) s"
    and th: "\<And>i c p. sy_threads (hy_system h) i = Some (c, p) \<Longrightarrow> \<exists>p'. sy_threads s i = Some (c, p')"
    and dm: "dom (sy_threads s) = dom (sy_threads (hy_system h))"
  shows "http_inv d (h\<lparr>hy_system := s\<rparr>)"
proof -
  let ?h = "h\<lparr>hy_system := s\<rparr>"
  have resp: "response_ok h r w \<Longrightarrow> response_ok ?h r w" for r w
    using body_ok_evolves [OF _ ev] by (auto simp: response_ok_def)
  have none: "sy_threads (hy_system h) i = None \<Longrightarrow> sy_threads s i = None" for i
    using dm by (metis domIff)
  have "place_ok ?h i p" if "hy_requests h i = Some p" for i p
  proof -
    have "place_ok h i p" using inv that by (simp add: http_inv_def)
    then show ?thesis using resp none th by (cases p) auto
  qed
  moreover have "calls_ok ?h"
    unfolding calls_ok_def
  proof (intro allI impI)
    fix i c p
    assume i: "sy_threads (hy_system ?h) i = Some (c, p)"
    then obtain c' p0 where old: "sy_threads (hy_system h) i = Some (c', p0)" using dm by fastforce
    then have "c' = c" using th [OF old] i by auto
    then show "owner_ok (hy_bearerToken ?h) (hy_requests ?h i) c"
      using inv old by (simp add: http_inv_def calls_ok_def)
  qed
  moreover have "log_ok ?h" using inv by (simp add: http_inv_def log_ok_def recorded_def)
  ultimately show ?thesis using sys by (simp add: http_inv_def)
qed

text \<open>One request moves on, to a place that is not the end, and the rest stays.\<close>

lemma http_inv_place:
  assumes inv: "http_inv d h" and ok: "place_ok (at_place i p h) i p"
    and new: "\<And>r w. hy_requests h i \<noteq> Some (Finished r w)"
    and fin: "\<And>r w. p = Finished r w \<Longrightarrow> \<not> isBusinessPath (http_Path r)"
    and call: "\<And>c q. sy_threads (hy_system h) i = Some (c, q) \<Longrightarrow>
      handler_call (hy_bearerToken h) (hp_request p) = Some c"
  shows "http_inv d (at_place i p h)"
proof -
  let ?h = "at_place i p h"
  have proj: "hy_system ?h = hy_system h" "hy_bearerToken ?h = hy_bearerToken h" "hy_recent ?h = hy_recent h"
    "hy_done ?h = hy_done h" "hy_requests ?h = (hy_requests h)(i \<mapsto> p)" by (simp_all add: at_place_def)
  have "place_ok ?h j q" if "hy_requests ?h j = Some q" for j q
  proof (cases "j = i")
    case False
    then have "place_ok h j q" using that inv by (simp add: http_inv_def proj)
    then show ?thesis by (cases q) (simp_all add: response_ok_def proj)
  qed (use that ok in \<open>simp add: proj\<close>)
  moreover have "calls_ok ?h"
    using inv call by (auto simp: http_inv_def calls_ok_def proj)
  moreover have "recorded ?h j e" if "recorded h j e" for j e
    using that new by (auto simp: recorded_def proj)
  then have "log_ok ?h"
    using inv fin by (auto simp: http_inv_def log_ok_def proj split: if_splits)
  ultimately show ?thesis using inv by (simp add: http_inv_def proj)
qed

text \<open>A service call begins: that of an accepted request, or the startup probe.\<close>

lemma http_inv_spawn:
  assumes inv: "http_inv d h" and free: "sy_threads (hy_system h) i = None"
    and sys: "system_inv d (hy_system h')"
    and s: "hy_system h' = (hy_system h)\<lparr>sy_threads := (sy_threads (hy_system h))(i \<mapsto> (c, p))\<rparr>"
    and same: "hy_bearerToken h' = hy_bearerToken h" "hy_recent h' = hy_recent h" "hy_done h' = hy_done h"
    and others: "\<And>j. j \<noteq> i \<Longrightarrow> hy_requests h' j = hy_requests h j"
    and unfinished: "\<And>r w. hy_requests h i \<noteq> Some (Finished r w)"
    and owner: "owner_ok (hy_bearerToken h) (hy_requests h' i) c"
    and place: "\<And>q. hy_requests h' i = Some q \<Longrightarrow> \<exists>r t. q = InService r t c"
  shows "http_inv d h'"
proof -
  have resp: "response_ok h' r w \<longleftrightarrow> response_ok h r w" for r w
    by (auto simp: response_ok_def body_ok_def same s split: body.splits)
  have "place_ok h' j q" if j: "hy_requests h' j = Some q" for j q
  proof (cases "j = i")
    case True
    then obtain r t where "q = InService r t c" using place j by blast
    then show ?thesis using True j owner by (simp add: same s)
  next
    case False
    then have "place_ok h j q" using inv j others by (simp add: http_inv_def)
    then show ?thesis using False resp by (cases q) (auto simp: same s)
  qed
  then have places: "\<forall>j q. hy_requests h' j = Some q \<longrightarrow> place_ok h' j q" by blast
  have calls: "calls_ok h'"
    using inv owner others by (auto simp: http_inv_def calls_ok_def same s)
  have "recorded h' j e \<longleftrightarrow> recorded h j e" for j e
    using others unfinished place by (cases "j = i") (auto simp: recorded_def)
  moreover have "hy_requests h' j = Some (Finished r w) \<Longrightarrow> hy_requests h j = Some (Finished r w)" for j r w
    using others place by (cases "j = i") auto
  moreover have "log_ok h" using inv by (simp add: http_inv_def)
  ultimately have "log_ok h'" unfolding log_ok_def same by blast
  with places calls sys show ?thesis by (simp add: http_inv_def)
qed

text \<open>A business request is entered into the log.\<close>

lemma http_inv_record:
  assumes inv: "http_inv d h" and at: "hy_requests h i = Some (Written r started w st)"
    and business: "isBusinessPath (http_Path r)" and add: "holds_newest (e # map snd (hy_done h)) recent"
    and e: "rr_Method e = http_Method r" "rr_Path e = http_Path r" "rr_Status e = statusOrOK w"
    and h': "h' = (at_place i (Finished r w) h)\<lparr>hy_recent := recent, hy_done := (i, e) # hy_done h\<rparr>"
  shows "http_inv d h'"
proof -
  have proj: "hy_system h' = hy_system h" "hy_bearerToken h' = hy_bearerToken h" "hy_recent h' = recent"
    "hy_done h' = (i, e) # hy_done h" "hy_requests h' = (hy_requests h)(i \<mapsto> Finished r w)"
    by (simp_all add: h' at_place_def)
  have resp: "response_ok h' r' w' = response_ok h r' w'" for r' w' by (simp add: response_ok_def proj)
  have "place_ok h' j q" if j: "hy_requests h' j = Some q" for j q
  proof (cases "j = i")
    case True
    have "place_ok h i (Written r started w st)" using inv at unfolding http_inv_def by blast
    then show ?thesis using True j by (auto simp: proj resp)
  next
    case False
    then have "place_ok h j q" using inv j by (simp add: http_inv_def proj)
    then show ?thesis by (cases q) (simp_all add: resp proj)
  qed
  moreover have "calls_ok h'"
  proof -
    have "owner_ok (hy_bearerToken h) (hy_requests h j) c" if "sy_threads (hy_system h) j = Some (c, p)" for j c p
      using inv that by (simp add: http_inv_def calls_ok_def)
    then show ?thesis using at by (fastforce simp: calls_ok_def proj)
  qed
  moreover have old: "recorded h j x \<Longrightarrow> j \<noteq> i \<and> recorded h' j x" for j x
    using at by (auto simp: recorded_def proj)
  have "log_ok h'"
  proof -
    have L: "distinct (map fst (hy_done h))" "\<forall>(j, x) \<in> set (hy_done h). recorded h j x"
      "\<And>j r w. hy_requests h j = Some (Finished r w) \<Longrightarrow> isBusinessPath (http_Path r) \<Longrightarrow> j \<in> fst ` set (hy_done h)"
      using inv by (auto simp: http_inv_def log_ok_def)
    have "i \<notin> fst ` set (hy_done h)" using L(2) old by fastforce
    moreover have "recorded h' i e" using business e by (simp add: recorded_def proj)
    moreover have "\<forall>(j, x) \<in> set (hy_done h). recorded h' j x" using L(2) old by fast
    ultimately show ?thesis
      using add L(1) L(3) by (auto simp: log_ok_def proj split: if_splits)
  qed
  ultimately show ?thesis using inv by (simp add: http_inv_def proj)
qed

context inspected_service
begin

lemma inspected_inv:
  assumes "http_inv d h" and "inspected inspector (sy_service (hy_system h)) sv"
  shows "http_inv d (h\<lparr>hy_system := (hy_system h)\<lparr>sy_service := sv\<rparr>\<rparr>)"
proof -
  let ?s = "hy_system h"
  have sys: "system_inv d ?s" using assms(1) by (simp add: http_inv_def)
  have "?s\<lparr>sy_service := sv\<rparr> = ?s \<or> system_step d u ?s (?s\<lparr>sy_service := sv\<rparr>)" for u
    using assms(2) inspection_clock by (auto simp: inspected_def intro: system_step.environment)
  then have "system_inv d (?s\<lparr>sy_service := sv\<rparr>) \<and> evolves d ?s (?s\<lparr>sy_service := sv\<rparr>)"
    using sys system_step_inv system_step_evolves by (metis evolves_def order_refl subset_refl)
  then show ?thesis by (intro http_inv_system [OF assms(1)]) auto
qed

lemma written_ok:
  assumes "\<And>w st. x = Ok (w, st) \<Longrightarrow> response_ok (at_place i p h) r w" and "p = handler_ended r t x"
  shows "place_ok (at_place i p h) i p"
  using assms by (cases x) auto

lemma local_inv:
  assumes inv: "http_inv d h" and at: "hy_requests h i = Some (Accepted r t)"
    and none: "handler_call (hy_bearerToken h) r = None"
    and m: "mux (service_api d inspector u) f fallback r (new_recorder, new_state) (hy_server h) = Some (x, srv)"
  shows "http_inv d (at_place i (handler_ended r t x) (h\<lparr>hy_system := (hy_system h)\<lparr>sy_service := srv_service srv\<rparr>\<rparr>))"
proof -
  let ?h = "h\<lparr>hy_system := (hy_system h)\<lparr>sy_service := srv_service srv\<rparr>\<rparr>"
  have srv: "srv_bearerToken (hy_server h) = hy_bearerToken h" "srv_service (hy_server h) = sy_service (hy_system h)"
    by (simp_all add: hy_server_def)
  have p: "plain inspector (hy_server h) (Some (x, srv))" if "routed (http_Path r)"
    using mux_local [of "hy_server h" r inspector d u f fallback "(new_recorder, new_state)"] none that
    by (simp add: srv m)
  have "inspected inspector (sy_service (hy_system h)) (srv_service srv)"
  proof (cases "routed (http_Path r)")
    case True
    from p [OF this] show ?thesis by (simp add: plain_def srv)
  next
    case False
    then have "srv = hy_server h" using m by (simp add: mux_other)
    then show ?thesis by (simp add: inspected_def srv)
  qed
  from inspected_inv [OF inv this] have inv1: "http_inv d ?h" .
  have thr: "sy_threads (hy_system h) i = None"
  proof -
    have "place_ok h i (Accepted r t)" using inv at unfolding http_inv_def by blast
    then show ?thesis by simp
  qed
  have "response_ok (at_place i q ?h) r w" if x: "x = Ok (w, st)" for w st q
  proof -
    have "answered w \<and> \<not> carries_result (rec_body w)" if "routed (http_Path r)"
      using mux_answered [OF that m [unfolded x]] p [OF that] by (simp add: plain_def x)
    then show ?thesis by (cases "rec_body w") (auto simp: response_ok_def body_ok_def)
  qed
  then have "place_ok (at_place i (handler_ended r t x) ?h) i (handler_ended r t x)"
    by (rule written_ok) simp_all
  then show ?thesis
    by (rule http_inv_place [OF inv1]) (use at thr in \<open>simp_all add: handler_ended_unfinished\<close>)
qed

lemma answer_inv:
  assumes inv: "http_inv d h" and at: "hy_requests h i = Some (InService r t c)"
    and th: "sy_threads (hy_system h) i = Some (c', Returned reply)"
    and m: "mux (replay_api a reply) f fallback r (new_recorder, new_state) (hy_server h) = Some (x, srv)"
  shows "http_inv d (at_place i (handler_ended r t x) h)"
proof -
  have "place_ok h i (InService r t c)" using inv at unfolding http_inv_def by blast
  then have c: "handler_call (hy_bearerToken h) r = Some c" "c' = c" using th by auto
  then have rt: "routed (http_Path r)"
    using handler_call_path(1,2) [of "hy_bearerToken h" r] handler_call_path(3) [of "hy_bearerToken h" r]
    by (cases c) (auto simp: routed_def isBusinessPath_def)
  have "thread_ok d (hy_system h) c (Returned reply)"
    using inv th c(2) unfolding http_inv_def system_inv_def by blast
  then have ok: "reply_ok (hy_system h) c reply" by simp
  have af: "answer_from c reply (rec_body w)" if "x = Ok (w, st)" for w st
    using mux_reply [of "hy_server h" r c a reply f fallback "(new_recorder, new_state)"] c(1) m that
    by (simp add: hy_server_def)
  have "response_ok (at_place i q h) r w" if x: "x = Ok (w, st)" for w st q
    using mux_answered [OF rt m [unfolded x]] reply_answer_ok [OF ok af [OF x]] c(1)
    by (simp add: response_ok_def at_place_def)
  then have "place_ok (at_place i (handler_ended r t x) h) i (handler_ended r t x)"
    by (rule written_ok) simp_all
  then show ?thesis
    by (rule http_inv_place [OF inv])
       (use at th c in \<open>simp_all add: handler_ended_request handler_ended_unfinished\<close>)
qed

lemma record_inv:
  assumes inv: "http_inv d h" and at: "hy_requests h i = Some (Written r t w st)"
  shows "http_inv d (record_request d f i r t w st h)"
proof -
  let ?now = "sv_now d (sy_service (hy_system h))"
  define e where "e = recent_entry (fmt_millis f ?now) (http_Method r) (http_Path r) (statusOrOK w) (?now - t)
            (if st_note st = [] then defaultNote (rec_status w) else st_note st)"
  have "log_ok h" using inv by (simp add: http_inv_def)
  then have hn: "holds_newest (map snd (hy_done h)) (hy_recent h)" by (simp add: log_ok_def)
  show ?thesis
  proof (cases "isBusinessPath (http_Path r)")
    case True
    obtain rc where rc: "recent_add e (hy_recent h) = Ok rc" "holds_newest (e # map snd (hy_done h)) rc"
      using recent_add_holds [OF hn, of e] by blast
    have r: "record_request d f i r t w st h
        = (at_place i (Finished r w) h)\<lparr>hy_recent := rc, hy_done := (i, e) # hy_done h\<rparr>"
      using True rc(1) by (simp add: record_request_def Let_def e_def)
    show ?thesis by (rule http_inv_record [OF inv at True rc(2) _ _ _ r]) (simp_all add: e_def recent_entry_def)
  next
    case False
    have p: "place_ok h i (Written r t w st)" using inv at unfolding http_inv_def by blast
    have own: "\<And>c q. sy_threads (hy_system h) i = Some (c, q) \<Longrightarrow> handler_call (hy_bearerToken h) r = Some c"
      using inv at by (fastforce simp: http_inv_def calls_ok_def)
    have "http_inv d (at_place i (Finished r w) h)"
      using False p own at by (intro http_inv_place [OF inv]) (auto simp: response_ok_def at_place_def)
    with False show ?thesis by (simp add: record_request_def Let_def)
  qed
qed

lemma call_inv:
  assumes inv: "http_inv d h" and at: "hy_requests h i = Some (Accepted r t)"
    and c: "handler_call (hy_bearerToken h) r = Some c"
    and h': "h' = at_place i (InService r t c) (h\<lparr>hy_system := (hy_system h)\<lparr>sy_threads :=
       (sy_threads (hy_system h))(i \<mapsto> (c, Entering c))\<rparr>\<rparr>)"
  shows "http_inv d h'"
proof -
  have "place_ok h i (Accepted r t)" using inv at unfolding http_inv_def by blast
  then have free: "sy_threads (hy_system h) i = None" by simp
  have sys: "system_inv d (hy_system h')"
    by (rule system_step_inv [of u "hy_system h"])
       (use free inv system_step.spawn [of "hy_system h" i d u c] in \<open>simp_all add: h' at_place_def http_inv_def\<close>)
  show ?thesis
    by (rule http_inv_spawn [OF inv free sys, of c "Entering c"])
       (use at c in \<open>auto simp: h' at_place_def\<close>)
qed

lemma request_inv:
  assumes "http_run d inspector u f fallback i h = Some h'" and inv: "http_inv d h"
  shows "http_inv d h'"
  using assms(1)
proof (cases rule: http_runE)
  case calls
  then show ?thesis by (rule call_inv [OF inv])
next
  case answers
  then show ?thesis using local_inv [OF inv] by simp
next
  case replies
  then show ?thesis using answer_inv [OF inv] by simp
next
  case records
  then show ?thesis using record_inv [OF inv] by simp
qed

lemma http_step_inv:
  assumes "http_step d inspector u f fallback h h'" and inv: "http_inv d h"
  shows "http_inv d h'"
  using assms(1)
proof cases
  case (http_accept i r)
  show ?thesis
    unfolding http_accept(1)
    by (rule http_inv_place [OF inv]) (use http_accept in \<open>simp_all add: at_place_def\<close>)
next
  case (http_request i)
  then show ?thesis using request_inv inv by blast
next
  case (http_call s)
  have sys: "system_inv d (hy_system h)" using inv by (simp add: http_inv_def)
  show ?thesis
    unfolding http_call(1)
    by (rule http_inv_system [OF inv system_step_inv [OF http_call(2) sys] system_step_evolves [OF http_call(2) sys]
          system_step_threads [OF http_call(2)] http_call(3)])
next
  case (http_probe i)
  have sys: "system_inv d (hy_system h')"
    by (rule system_step_inv [of u "hy_system h"])
       (use http_probe inv system_step.spawn [of "hy_system h" i d u CallProbe] in \<open>simp_all add: http_inv_def\<close>)
  show ?thesis
    by (rule http_inv_spawn [OF inv http_probe(3) sys, of CallProbe "Entering CallProbe"])
       (use http_probe in auto)
qed

lemma http_reach_inv: "http_reach d inspector u f fallback h \<Longrightarrow> http_inv d h"
proof (induction rule: http_reach.induct)
  case (http_new w sv recentCapacity a bearerToken now srv)
  have srv: "srv_service srv = sv" "srv_recent srv = newRecentStore recentCapacity"
    using http_new(3) by (auto simp: NewHandler_def split: if_splits)
  have "system_inv d (system_start sv)" by (rule system_start_inv [OF http_new(1)])
  then show ?case
    using holds_newest_new [OF http_new(2)]
    by (simp add: http_inv_def http_start_def srv calls_ok_def log_ok_def system_start_def)
next
  case (http_more h h')
  then show ?case by (blast intro: http_step_inv)
qed

end

section \<open>The program's service\<close>

lemma InspectUSB_clock: "t_clock t \<le> t_clock (snd (InspectUSB g b t))"
proof -
  obtain ds c t1 where e: "enumerateUSB g b t = ((ds, c), t1)" by (metis prod.exhaust)
  have t1: "t_clock t \<le> t_clock t1" using enumerateUSB_quiet [OF e] by (simp add: t_quiet_def t_extends_def)
  obtain s2 t2 where s2: "ensureSessionLocked g t1 = (s2, t2)" by fastforce
  then have "t_clock t1 \<le> t_clock t2"
    by (cases "t_session t1") (auto simp: ensureSessionLocked_def t_extends_def dest: ensure_loop_extends)
  with t1 show ?thesis by (auto simp: InspectUSB_def e s2 split: sum.split)
qed

interpretation stack_inspected: inspected_service "stack_driver g address7Bit" "InspectUSB g" for g address7Bit
  by unfold_locales (simp add: stack_driver_def Let_def InspectUSB_clock)

section \<open>One request on its own\<close>

text \<open>The pieces put together again: uninterrupted, \<^verbatim>\<open>observe\<close> around them is the handler \<open>serve\<close> of
  \<open>HttpApi\<close>.\<close>

definition staged_mux ::
  "'w chip_driver \<Rightarrow> (bool \<Rightarrow> 'w \<Rightarrow> USBStatus \<times> 'w) \<Rightarrow> (string \<Rightarrow> bool) \<Rightarrow> clock_format
     \<Rightarrow> (request \<Rightarrow> statusRecorder \<Rightarrow> statusRecorder)
     \<Rightarrow> request \<Rightarrow> statusRecorder \<times> requestState \<Rightarrow> 'w service server \<Rightarrow> 'w service handled" where
  "staged_mux d inspector uuid_ok f fallback r ws srv =
     (case handler_call (srv_bearerToken srv) r of
        None \<Rightarrow> mux (service_api d inspector uuid_ok) f fallback r ws srv
      | Some c \<Rightarrow>
          (case service_call d uuid_ok c (srv_service srv) of
             None \<Rightarrow> None
           | Some (reply, sv) \<Rightarrow>
               mux (replay_api (service_api d inspector uuid_ok) reply) f fallback r ws (srv\<lparr>srv_service := sv\<rparr>)))"

lemma serve_staged:
  "serve (service_api d i u) f fallback r srv
     = observe (service_api d i u) f (staged_mux d i u f fallback) r srv"
proof -
  have "mux (service_api d i u) f fallback r ws srv = staged_mux d i u f fallback r ws srv" for ws
    by (cases "handler_call (srv_bearerToken srv) r") (simp_all add: staged_mux_def mux_calls)
  then show ?thesis by (simp add: serve_def observe_def)
qed

section \<open>Properties\<close>

lemma http_log_facts:
  assumes "log_ok h"
  shows "listNewestFirst (hy_recent h) = Ok (take (rc_capacity (hy_recent h)) (map snd (hy_done h)))"
    and "i \<in> fst ` set (hy_done h) \<longleftrightarrow>
       (\<exists>r w. hy_requests h i = Some (Finished r w) \<and> isBusinessPath (http_Path r))"
proof -
  show "listNewestFirst (hy_recent h) = Ok (take (rc_capacity (hy_recent h)) (map snd (hy_done h)))"
    using assms by (intro listNewestFirst_holds) (simp add: log_ok_def)
  have "\<forall>(j, x) \<in> set (hy_done h). recorded h j x" using assms by (simp add: log_ok_def)
  then show "i \<in> fst ` set (hy_done h) \<longleftrightarrow>
       (\<exists>r w. hy_requests h i = Some (Finished r w) \<and> isBusinessPath (http_Path r))"
    using assms by (fastforce simp: log_ok_def recorded_def)
qed

lemma http_finished_body:
  assumes "http_inv d h" and "hy_requests h i = Some (Finished r w)" and "routed (http_Path r)"
  shows "body_ok (hy_system h) (handler_call (hy_bearerToken h) r) (rec_body w)"
proof -
  have "place_ok h i (Finished r w)" using assms(1,2) unfolding http_inv_def by blast
  with assms(3) show ?thesis by (simp add: response_ok_def)
qed

lemma http_call_owner:
  assumes "http_inv d h" and "sy_threads (hy_system h) i = Some (c, p)" and "hy_requests h i = Some q"
  shows "handler_call (hy_bearerToken h) (hp_request q) = Some c"
proof -
  have "owner_ok (hy_bearerToken h) (hy_requests h i) c"
    using assms(1,2) unfolding http_inv_def calls_ok_def by blast
  with assms(3) show ?thesis by simp
qed

lemma http_signature_origin:
  assumes "http_inv d h" and "hy_requests h i = Some (Finished r w)" and "routed (http_Path r)"
    and "rec_body w = JsonSignature sig"
  shows "\<exists>requestID challenge. handler_call (hy_bearerToken h) r = Some (CallSign requestID challenge)
     \<and> (\<exists>l \<in> set (sy_log (hy_system h)). sg_id l = requestID
          \<and> sha256_Sum256 (sg_challenge l) = sha256_Sum256 challenge
          \<and> chip_signed d (sg_challenge l) (sg_signature l)
          \<and> sig = base64_EncodeToString (sg_signature l))"
proof -
  have "\<forall>l \<in> set (sy_log (hy_system h)). chip_signed d (sg_challenge l) (sg_signature l)"
    using assms(1) by (simp add: http_inv_def system_inv_def log_inv_def)
  with http_finished_body [OF assms(1-3)] assms(4) show ?thesis by (auto simp: body_ok_def)
qed

lemma http_certificates_agree:
  assumes "http_inv d h"
    and "hy_requests h i = Some (Finished r w)" "routed (http_Path r)" "rec_body w = JsonCertificate ty pm b sha"
    and "hy_requests h j = Some (Finished r' w')" "routed (http_Path r')" "rec_body w' = JsonCertificate ty' pm' b' sha'"
  shows "pm = pm' \<and> b = b' \<and> sha = sha'"
  using http_finished_body [OF assms(1-3)] http_finished_body [OF assms(1,5,6)] assms(4,7)
  by (auto simp: body_ok_def)

section \<open>A signing request among others\<close>

text \<open>A service call of a request that runs to its end is a run of the whole system.\<close>

lemma run_thread_http:
  assumes "http_reach d inspector u f fallback h" and "sy_threads (hy_system h) i = Some (c, p)"
    and "run_thread n d u p (sy_service (hy_system h)) = Some (r, sv')"
  shows "http_reach d inspector u f fallback (h\<lparr>hy_system := (hy_system h)\<lparr>sy_service := sv',
     sy_threads := (sy_threads (hy_system h))(i \<mapsto> (c, Returned r)),
     sy_log := run_log n d u p (sy_service (hy_system h)) @ sy_log (hy_system h)\<rparr>\<rparr>)"
  using assms
proof (induction n arbitrary: h p)
  case 0
  then show ?case by (cases p) (auto simp: fun_upd_idem)
next
  case (Suc n)
  show ?case
  proof (cases "\<exists>q. p = Returned q")
    case True
    then have p: "p = Returned r" "sv' = sy_service (hy_system h)" using Suc.prems(3) by auto
    have same: "(sy_threads (hy_system h))(i \<mapsto> (c, Returned r)) = sy_threads (hy_system h)"
      using Suc.prems(2) p(1) by (intro fun_upd_idem) simp
    show ?thesis using Suc.prems(1) by (simp add: p same del: fun_upd_apply)
  next
    case False
    then obtain p1 sv1 where t: "thread_run d u p (sy_service (hy_system h)) = Some (p1, sv1)"
      and r: "run_thread n d u p1 sv1 = Some (r, sv')"
      using Suc.prems(3) by (cases p) (auto split: option.splits prod.splits)
    let ?s1 = "(hy_system h)\<lparr>sy_service := sv1, sy_threads := (sy_threads (hy_system h))(i \<mapsto> (c, p1)),
      sy_log := log_of d p (sy_service (hy_system h)) @ sy_log (hy_system h)\<rparr>"
    have "dom (sy_threads ?s1) = dom (sy_threads (hy_system h))" using Suc.prems(2) by auto
    from http_more [OF Suc.prems(1) http_call [OF system_step.run [OF Suc.prems(2) t] this]]
    have "http_reach d inspector u f fallback (h\<lparr>hy_system := ?s1\<rparr>)" .
    from Suc.IH [OF this, of p1] r show ?thesis by (simp add: t fun_upd_same del: fun_upd_apply)
  qed
qed

interpretation test_inspected: inspected_service test_driver test_inspector
  by unfold_locales (simp add: test_inspector_def)

definition test_result :: SignResult where
  "test_result = \<lparr>sr_Signature = [2, 1], sr_Cached = False, sr_WaitDuration = 0, sr_ChipDuration = 1\<rparr>"

definition test_answer :: statusRecorder where
  "test_answer = writeJSON 200 (JsonSignature (base64_EncodeToString (sr_Signature test_result))) new_recorder"

lemma post_handler_call:
  assumes "sign_post uuid_ok rid ch r" and "authorized tok False r"
  shows "handler_call tok r = Some (CallSign rid ch)"
proof -
  have "http_Path r = ''/mfi/sign''" "http_Method r = ''POST''" "rid \<noteq> []" "ch \<noteq> []"
    using assms(1) by (simp_all add: sign_post_def)
  then show ?thesis
    using assms(2) base64_nonempty [of ch]
    by (simp add: handler_call_def sign_post_decodes [OF assms(1)] base64_decode_encode)
qed

lemma post_reply:
  assumes "sign_post uuid_ok rid ch r" and "authorized (srv_bearerToken srv) False r"
  shows "\<exists>st. mux (replay_api a (ReplySign res)) f fallback r (new_recorder, new_state) srv
     = Some (Ok (writeJSON 200 (JsonSignature (base64_EncodeToString (sr_Signature res))) new_recorder, st), srv)"
proof -
  have "http_Path r = ''/mfi/sign''" "http_Method r = ''POST''" "rid \<noteq> []" "ch \<noteq> []"
    using assms(1) by (simp_all add: sign_post_def)
  then show ?thesis
    using assms(2) base64_nonempty [of ch]
    by (simp add: mux_def withAuth_def handleSign_def requireMethod_def Let_def sign_post_decodes [OF assms(1)]
        base64_decode_encode)
qed

lemma test_handler_call: "handler_call [] test_request = Some (CallSign ''r'' [1, 2])"
  by (rule post_handler_call [OF test_request_facts(4)]) (simp add: authorized_def)

lemma test_finished:
  "\<exists>h. http_reach test_driver test_inspector (\<lambda>_. True) test_format (\<lambda>r w. w) h
     \<and> hy_bearerToken h = [] \<and> hy_requests h 0 = Some (Finished test_request test_answer)"
proof -
  note more = http_more [OF _ http_request]
  let ?h0 = "http_start (test_server [])"
  have "http_reach test_driver test_inspector (\<lambda>_. True) test_format (\<lambda>r w. w) ?h0"
    by (rule http_new [of test_driver test_inspector 0 test_service 20 test_api "[]" 0])
       (simp_all add: NewService_def test_service_def NewHandler_def test_server_def)
  from http_more [OF this http_accept [of ?h0 0]]
  have h1: "http_reach test_driver test_inspector (\<lambda>_. True) test_format (\<lambda>r w. w)
      (at_place 0 (Accepted test_request 0) ?h0)" (is "http_reach _ _ _ _ _ ?h1")
    by (simp add: http_start_def system_start_def sv_now_def test_service_def)
  let ?h2 = "at_place 0 (InService test_request 0 (CallSign ''r'' [1, 2])) (?h1\<lparr>hy_system := (hy_system ?h1)\<lparr>sy_threads :=
                 (sy_threads (hy_system ?h1))(0 \<mapsto> (CallSign ''r'' [1, 2], Entering (CallSign ''r'' [1, 2])))\<rparr>\<rparr>)"
  have h2: "http_reach test_driver test_inspector (\<lambda>_. True) test_format (\<lambda>r w. w) ?h2"
    by (rule more [OF h1, of 0]) (simp add: http_run_def at_place_def http_start_def test_handler_call)
  have "sy_service (hy_system ?h2) = test_service" by (simp add: at_place_def http_start_def system_start_def)
  then have run: "run_thread 8 test_driver (\<lambda>_. True) (Entering (CallSign ''r'' [1, 2])) (sy_service (hy_system ?h2))
      = Some (ReplySign test_result, test_service1)"
    using test_call1(1) by (simp only: service_call_def test_result_def)
  have "sy_threads (hy_system ?h2) 0 = Some (CallSign ''r'' [1, 2], Entering (CallSign ''r'' [1, 2]))"
    by (simp add: at_place_def)
  note ran = run_thread_http [OF h2 this run]
  obtain h3 where h3: "http_reach test_driver test_inspector (\<lambda>_. True) test_format (\<lambda>r w. w) h3"
    "hy_bearerToken h3 = []" "hy_requests h3 0 = Some (InService test_request 0 (CallSign ''r'' [1, 2]))"
    "sy_threads (hy_system h3) 0 = Some (CallSign ''r'' [1, 2], Returned (ReplySign test_result))"
    by (rule that [OF ran]) (simp_all add: at_place_def http_start_def)
  have "authorized (srv_bearerToken (hy_server h3)) False test_request"
    using h3(2) by (simp add: authorized_def hy_server_def)
  from post_reply [OF test_request_facts(4) this, of test_api test_result test_format "\<lambda>r w. w"]
  have m: "\<exists>st. mux (replay_api test_api (ReplySign test_result)) test_format (\<lambda>r w. w) test_request
      (new_recorder, new_state) (hy_server h3) = Some (Ok (test_answer, st), hy_server h3)"
    by (simp only: test_answer_def)
  then obtain st where h4: "http_reach test_driver test_inspector (\<lambda>_. True) test_format (\<lambda>r w. w)
      (at_place 0 (Written test_request 0 test_answer st) h3)" (is "http_reach _ _ _ _ _ ?h4")
    using more [OF h3(1), of 0] h3(3,4) by (auto simp: http_run_def)
  have log: "log_ok ?h4"
    using test_inspected.http_reach_inv [OF h4] by (simp add: http_inv_def)
  let ?e = "recent_entry (fmt_millis test_format (sv_now test_driver (sy_service (hy_system ?h4)))) (http_Method test_request)
      (http_Path test_request) (statusOrOK test_answer) (sv_now test_driver (sy_service (hy_system ?h4)) - 0)
      (if st_note st = [] then defaultNote (rec_status test_answer) else st_note st)"
  obtain rc where rc: "recent_add ?e (hy_recent ?h4) = Ok rc"
    using recent_add_holds log unfolding log_ok_def by blast
  have "http_reach test_driver test_inspector (\<lambda>_. True) test_format (\<lambda>r w. w)
      (record_request test_driver test_format 0 test_request 0 test_answer st ?h4)"
    by (rule more [OF h4, of 0]) (simp add: http_run_def at_place_def)
  then show ?thesis
    using rc h3(2) test_request_facts(1)
    by (intro exI [of _ "record_request test_driver test_format 0 test_request 0 test_answer st ?h4"])
       (simp add: record_request_def Let_def, simp add: at_place_def)
qed

section \<open>Concurrent requests\<close>

text \<open>C31. Requests served at the same time, in every interleaving of their handlers, of the service
  calls, the timeouts and cancellations, the startup probe and the device:
  only an authorized, well-formed request makes a call of the service, and only its own; a
  signature in an answer was produced by the chip for the request id of that request and a
  challenge with the same digest; all certificates in answers agree; and the log of recent
  requests lists exactly the finished business requests, each once, newest first, with the status
  that was answered.\<close>

theorem http_interleavings:
  assumes "inspected_service d inspector" and "http_reach d inspector uuid_ok f fallback h"
  shows "(\<forall>i c p q. sy_threads (hy_system h) i = Some (c, p) \<and> hy_requests h i = Some q \<longrightarrow>
          authorized (hy_bearerToken h) False (hp_request q)
          \<and> handler_call (hy_bearerToken h) (hp_request q) = Some c)
     \<and> (\<forall>i r w sig. hy_requests h i = Some (Finished r w) \<and> routed (http_Path r)
          \<and> rec_body w = JsonSignature sig \<longrightarrow>
          (\<exists>requestID challenge. handler_call (hy_bearerToken h) r = Some (CallSign requestID challenge)
             \<and> (\<exists>l \<in> set (sy_log (hy_system h)). sg_id l = requestID
                  \<and> sha256_Sum256 (sg_challenge l) = sha256_Sum256 challenge
                  \<and> chip_signed d (sg_challenge l) (sg_signature l)
                  \<and> sig = base64_EncodeToString (sg_signature l))))
     \<and> (\<forall>i j r r' w w' ty ty' pm pm' b b' sha sha'.
          hy_requests h i = Some (Finished r w) \<and> routed (http_Path r) \<and> rec_body w = JsonCertificate ty pm b sha
          \<and> hy_requests h j = Some (Finished r' w') \<and> routed (http_Path r') \<and> rec_body w' = JsonCertificate ty' pm' b' sha'
          \<longrightarrow> pm = pm' \<and> b = b' \<and> sha = sha')
     \<and> listNewestFirst (hy_recent h) = Ok (take (rc_capacity (hy_recent h)) (map snd (hy_done h)))
     \<and> distinct (map fst (hy_done h))
     \<and> (\<forall>i. i \<in> fst ` set (hy_done h) \<longleftrightarrow>
          (\<exists>r w. hy_requests h i = Some (Finished r w) \<and> isBusinessPath (http_Path r)))
     \<and> (\<forall>(i, e) \<in> set (hy_done h). recorded h i e)"
proof -
  have inv: "http_inv d h" by (rule inspected_service.http_reach_inv [OF assms])
  then have log: "log_ok h" by (simp add: http_inv_def)
  note owner = http_call_owner [OF inv] and sig = http_signature_origin [OF inv]
    and cert = http_certificates_agree [OF inv]
  have own: "authorized (hy_bearerToken h) False (hp_request q) \<and> handler_call (hy_bearerToken h) (hp_request q) = Some c"
    if "sy_threads (hy_system h) i = Some (c, p) \<and> hy_requests h i = Some q" for i c p q
    using owner that handler_call_path(4) by blast
  have rec: "distinct (map fst (hy_done h))" "\<forall>(i, e) \<in> set (hy_done h). recorded h i e"
    using log by (simp_all add: log_ok_def)
  show ?thesis
    apply (intro conjI)
    subgoal using own by blast
    subgoal using sig by blast
    subgoal using cert by blast
    subgoal by (rule http_log_facts(1) [OF log])
    subgoal by (rule rec)
    subgoal using http_log_facts(2) [OF log] by blast
    subgoal by (rule rec)
    done
qed

theorem http_interleavings_witness:
  "\<exists>h l. http_reach test_driver test_inspector (\<lambda>_. True) test_format (\<lambda>r w. w) h
     \<and> hy_requests h 0 = Some (Finished test_request test_answer) \<and> l \<in> set (sy_log (hy_system h))
     \<and> sg_id l = ''r''
     \<and> base64_EncodeToString (sr_Signature test_result) = base64_EncodeToString (sg_signature l)"
proof -
  obtain h where h: "http_reach test_driver test_inspector (\<lambda>_. True) test_format (\<lambda>r w. w) h"
    "hy_bearerToken h = []" "hy_requests h 0 = Some (Finished test_request test_answer)"
    using test_finished by blast
  have b: "routed (http_Path test_request)" "rec_body test_answer = JsonSignature (base64_EncodeToString (sr_Signature test_result))"
    using test_request_facts(1) by (simp_all add: routed_def test_answer_def)
  from http_interleavings [OF test_inspected.inspected_service_axioms h(1), THEN conjunct2, THEN conjunct1,
      rule_format, OF conjI [OF h(3) conjI [OF b]]] h
  show ?thesis by (auto simp: test_handler_call)
qed

end
