(* ===== verification/Lifecycle.thy ===== *)
theory Lifecycle
  imports Startup HttpConc
begin

text \<open>
  The running program: the goroutines of \<^verbatim>\<open>run\<close> in cmd/remote-mfi-for-xcertplay/main.go (the main
  one, the HTTP server, the startup probe) together with the requests of \<open>HttpConc\<close> and the service
  calls below them, in every interleaving, from the start of the server over the signal and the
  graceful shutdown to the exit code. Each function below is what one goroutine does between two
  points where it can wait; \<open>None\<close>: it is not at that point.

  What \<^verbatim>\<open>net/http\<close> contributes is nondeterministic within its documentation: handlers start while
  connections are open, which some still are after the listener has been closed; \<^verbatim>\<open>Shutdown\<close> returns
  when all connections are idle, possibly with the error of closing a listener, but once its deadline
  has passed it returns the error of its context.
\<close>

section \<open>Version and log\<close>

text \<open>The variables of internal/ver/ver.go, which the linker may set, and their values if it does not.\<close>

record ver =
  ver_Version :: string
  ver_Commit :: string
  ver_BuildDate :: string

definition ver_unset :: ver where
  "ver_unset = \<lparr>ver_Version = ''dev'', ver_Commit = ''unknown'', ver_BuildDate = ''unknown''\<rparr>"

definition version_line :: "ver \<Rightarrow> string" where
  "version_line v = ''remote-mfi-for-xcertplay '' @ ver_Version v @ '' (commit='' @ ver_Commit v
     @ '' built='' @ ver_BuildDate v @ '')'' @ [CHR 0x0A]"

text \<open>The records of \<^verbatim>\<open>run\<close>, \<^verbatim>\<open>probeChip\<close> and \<^verbatim>\<open>observe\<close>, with their attributes in order.\<close>

datatype log_record =
    AuthenticationDisabled
  | ServerStart string string string string string int
  | ShutdownRequested go_error
  | ServerStoppedRecord
  | StartupProbe probe_record
  | HttpRequest request_record

fun record_level :: "log_record \<Rightarrow> log_level" where
  "record_level AuthenticationDisabled = LevelWarn"
| "record_level (StartupProbe (ProbeFailed e)) = LevelWarn"
| "record_level _ = LevelInfo"

text \<open>What the handler chosen by \<^verbatim>\<open>newLogger\<close> lets through.\<close>

fun handler_level :: "log_handler \<Rightarrow> log_level" where
  "handler_level (TextHandler l) = l"
| "handler_level (JSONHandler l) = l"

definition written_log :: "Config \<Rightarrow> log_record list \<Rightarrow> log_record list" where
  "written_log cfg log = filter (\<lambda>r. handler_level (newLogger cfg) \<le> record_level r) log"

text \<open>\<^verbatim>\<open>fmt.Sprint\<close> of a slice of identities.\<close>

fun spaced :: "string list \<Rightarrow> string" where
  "spaced [] = []"
| "spaced [s] = s"
| "spaced (s # ss) = s @ '' '' @ spaced ss"

definition server_start :: "ver \<Rightarrow> Config \<Rightarrow> log_record" where
  "server_start v cfg =
     ServerStart (cf_HTTPAddr cfg) (ver_Version v) (ver_Commit v)
       (''['' @ spaced (map USBID_String (cf_USBIDs cfg)) @ '']'')
       (''0x'' @ fmt_02x (unat (cf_I2CAddress cfg))) (cf_I2CSpeedKHz cfg)"

text \<open>At the default level every record is written; a higher level drops the informative ones first.\<close>

lemma written_log_levels:
  "cf_LogLevel cfg \<le> LevelInfo \<Longrightarrow> written_log cfg log = log"
  "cf_LogLevel cfg = LevelWarn \<Longrightarrow> written_log cfg log = filter (\<lambda>r. record_level r = LevelWarn) log"
  "cf_LogLevel cfg = LevelError \<Longrightarrow> written_log cfg log = []"
proof -
  have l: "handler_level (newLogger cfg) = cf_LogLevel cfg" by (simp add: newLogger_def)
  have level: "record_level r = LevelInfo \<or> record_level r = LevelWarn" for r
    by (cases r rule: record_level.cases) simp_all
  have i: "LevelInfo \<le> record_level r" for r
    using level [of r] by (auto simp: less_eq_log_level_def)
  show "cf_LogLevel cfg \<le> LevelInfo \<Longrightarrow> written_log cfg log = log"
    unfolding written_log_def l by (rule filter_True) (meson i order_trans)
  have w: "LevelWarn \<le> record_level r \<longleftrightarrow> record_level r = LevelWarn" "\<not> LevelError \<le> record_level r" for r
    using level [of r] by (auto simp: less_eq_log_level_def)
  show "cf_LogLevel cfg = LevelWarn \<Longrightarrow> written_log cfg log = filter (\<lambda>r. record_level r = LevelWarn) log"
    "cf_LogLevel cfg = LevelError \<Longrightarrow> written_log cfg log = []"
    by (simp_all add: written_log_def l w)
qed

text \<open>What \<^verbatim>\<open>main\<close> itself prints on the standard output.\<close>

definition main_prints :: "ver \<Rightarrow> string list \<Rightarrow> string" where
  "main_prints v args = (case Parse args of Inr None \<Rightarrow> version_line v | _ \<Rightarrow> [])"

lemma main_prints_version:
  "main_prints ver_unset [''-version''] = ''remote-mfi-for-xcertplay dev (commit=unknown built=unknown)'' @ [CHR 0x0A]"
  by (simp add: main_prints_def Parse_def flag_name_def split_flag_def flag_kind_of_def
      set_flag_def strconv_ParseBool_def default_flags_def version_line_def ver_unset_def)

section \<open>State\<close>

definition shutdownTimeout :: int where [mfi_consts]: "shutdownTimeout = 10 * time_Second"

definition http_ErrServerClosed :: go_error where
  "http_ErrServerClosed = ErrorString ''http: Server closed''"

text \<open>The goroutine of the server, with what it sends on \<^verbatim>\<open>serverError\<close> before it closes the channel.\<close>

datatype server_place = ServerStarting | Serving | ServerReturned "go_error option"

text \<open>The goroutine of the probe; the number is that of its service call.\<close>

datatype probe_place = ProbeStarting | Probing nat | ProbeReported

text \<open>The main goroutine: at the \<^verbatim>\<open>select\<close>, in \<^verbatim>\<open>Shutdown\<close> with its deadline, before the deferred \<^verbatim>\<open>Close\<close>,
  after it, and the end of the process with its exit code.\<close>

datatype run_place =
    Selecting
  | ShuttingDown int
  | Returning "unit result"
  | TransportClosed "unit result"
  | Exited nat

record 'u program =
  pg_http :: "'u ch341 http_system"
  pg_place :: run_place
  pg_server :: server_place
  pg_probe :: probe_place
  pg_signalled :: bool
  pg_log :: "log_record list"

abbreviation pg_world :: "'u program \<Rightarrow> 'u ch341" where
  "pg_world p \<equiv> sv_world (sy_service (hy_system (pg_http p)))"

abbreviation pg_requests :: "'u program \<Rightarrow> nat \<Rightarrow> http_place option" where
  "pg_requests p \<equiv> hy_requests (pg_http p)"

definition program_new :: "Config \<Rightarrow> 'u ch341 service server \<Rightarrow> 'u program" where
  "program_new cfg srv =
     \<lparr>pg_http = http_start srv, pg_place = Selecting, pg_server = ServerStarting, pg_probe = ProbeStarting,
      pg_signalled = False,
      pg_log = (if cf_BearerToken cfg = [] then [AuthenticationDisabled] else [])\<rparr>"

text \<open>The first part of \<^verbatim>\<open>run\<close>: a running program, or the result of \<^verbatim>\<open>run\<close> and the transport that the
  deferred \<^verbatim>\<open>Close\<close> leaves behind, if there is one.\<close>

definition run_starts ::
  "'u gousb \<Rightarrow> (string \<Rightarrow> bool) \<Rightarrow> Config \<Rightarrow> int \<Rightarrow> 'u
     \<Rightarrow> (unit result \<times> 'u ch341 option) + 'u program" where
  "run_starts g uuid_ok cfg now usb =
     (case NewCh341 (cf_USBIDs cfg) (cf_I2CSpeedKHz cfg) now usb of
        Err e \<Rightarrow> Inl (Err (init_error ''initialize CH341 transport'' e), None)
      | Panic \<Rightarrow> Inl (Panic, None)
      | Ok ch341 \<Rightarrow>
          (case start_service g uuid_ok cfg ch341 of
             Err e \<Rightarrow> Inl (Err e, Some (snd (Close g ch341)))
           | Panic \<Rightarrow> Inl (Panic, Some (snd (Close g ch341)))
           | Ok srv \<Rightarrow> Inr (program_new cfg srv)))"

fun exit_code :: "unit result \<Rightarrow> nat" where
  "exit_code (Ok _) = 0"
| "exit_code (Err e) = 1"
| "exit_code Panic = 2"

text \<open>\<^verbatim>\<open>main\<close> up to the running program, or the exit code without one.\<close>

definition main_starts ::
  "'u gousb \<Rightarrow> (string \<Rightarrow> bool) \<Rightarrow> string list \<Rightarrow> int \<Rightarrow> 'u \<Rightarrow> nat + Config \<times> 'u program" where
  "main_starts g uuid_ok args now usb =
     (case Parse args of
        Inl e \<Rightarrow> Inl (if e = FlagHelp then 0 else 2)
      | Inr None \<Rightarrow> Inl 0
      | Inr (Some cfg) \<Rightarrow>
          (case run_starts g uuid_ok cfg now usb of
             Inl (r, _) \<Rightarrow> Inl (exit_code r)
           | Inr p \<Rightarrow> Inr (cfg, p)))"

section \<open>Goroutines\<close>

definition server_begins :: "ver \<Rightarrow> Config \<Rightarrow> 'u program \<Rightarrow> 'u program option" where
  "server_begins v cfg p =
     (if pg_server p = ServerStarting
      then Some (p\<lparr>pg_server := Serving, pg_log := pg_log p @ [server_start v cfg]\<rparr>)
      else None)"

text \<open>\<^verbatim>\<open>ListenAndServe\<close> returns.\<close>

definition server_returns :: "go_error option \<Rightarrow> 'u program \<Rightarrow> 'u program option" where
  "server_returns err p =
     (if pg_server p = Serving
      then Some (p\<lparr>pg_server := ServerReturned
             (case err of
                None \<Rightarrow> None
              | Some e \<Rightarrow> if errors_Is e http_ErrServerClosed then None else Some e)\<rparr>)
      else None)"

text \<open>The two cases of the \<^verbatim>\<open>select\<close>.\<close>

definition begin_shutdown :: "'u program \<Rightarrow> 'u program" where
  "begin_shutdown p = p\<lparr>pg_place := ShuttingDown (t_clock (pg_world p) + shutdownTimeout)\<rparr>"

definition select_signal :: "'u program \<Rightarrow> 'u program option" where
  "select_signal p =
     (if pg_place p = Selecting \<and> pg_signalled p
      then Some (begin_shutdown (p\<lparr>pg_log := pg_log p @ [ShutdownRequested ContextCanceled]\<rparr>))
      else None)"

definition select_server :: "'u program \<Rightarrow> 'u program option" where
  "select_server p =
     (case (pg_place p, pg_server p) of
        (Selecting, ServerReturned (Some e)) \<Rightarrow>
          Some (p\<lparr>pg_place := Returning (Err (init_error ''HTTP server'' e))\<rparr>)
      | (Selecting, ServerReturned None) \<Rightarrow> Some (begin_shutdown p)
      | _ \<Rightarrow> None)"

definition shutdown_returns :: "go_error option \<Rightarrow> 'u program \<Rightarrow> 'u program option" where
  "shutdown_returns err p =
     (case pg_place p of
        ShuttingDown deadline \<Rightarrow>
          (case err of
             Some e \<Rightarrow> Some (p\<lparr>pg_place := Returning (Err (init_error ''graceful shutdown'' e))\<rparr>)
           | None \<Rightarrow> Some (p\<lparr>pg_place := Returning (Ok ()), pg_log := pg_log p @ [ServerStoppedRecord]\<rparr>))
      | _ \<Rightarrow> None)"

text \<open>The deferred \<^verbatim>\<open>ch341.Close()\<close>, whose error is dropped, and the end of \<^verbatim>\<open>main\<close>.\<close>

definition set_world :: "'u ch341 \<Rightarrow> 'u program \<Rightarrow> 'u program" where
  "set_world t p = p\<lparr>pg_http := (pg_http p)\<lparr>hy_system := (hy_system (pg_http p))\<lparr>sy_service :=
     (sy_service (hy_system (pg_http p)))\<lparr>sv_world := t\<rparr>\<rparr>\<rparr>\<rparr>"

definition close_transport :: "'u gousb \<Rightarrow> 'u program \<Rightarrow> 'u program option" where
  "close_transport g p =
     (case pg_place p of
        Returning r \<Rightarrow> Some (set_world (snd (Close g (pg_world p))) (p\<lparr>pg_place := TransportClosed r\<rparr>))
      | _ \<Rightarrow> None)"

definition main_returns :: "'u program \<Rightarrow> 'u program option" where
  "main_returns p =
     (case pg_place p of
        TransportClosed r \<Rightarrow> Some (p\<lparr>pg_place := Exited (exit_code r)\<rparr>)
      | _ \<Rightarrow> None)"

text \<open>\<^verbatim>\<open>probeChip\<close>: its service call begins, and its outcome is logged; a panic in this goroutine ends the
  process.\<close>

definition probe_begins :: "nat \<Rightarrow> 'u program \<Rightarrow> 'u program option" where
  "probe_begins i p =
     (if pg_probe p = ProbeStarting \<and> pg_requests p i = None \<and> sy_threads (hy_system (pg_http p)) i = None
      then Some (p\<lparr>pg_probe := Probing i,
             pg_http := (pg_http p)\<lparr>hy_system := (hy_system (pg_http p))\<lparr>sy_threads :=
               (sy_threads (hy_system (pg_http p)))(i \<mapsto> (CallProbe, Entering CallProbe))\<rparr>\<rparr>\<rparr>)
      else None)"

definition probe_reports :: "'u program \<Rightarrow> 'u program option" where
  "probe_reports p =
     (case pg_probe p of
        Probing i \<Rightarrow>
          (case sy_threads (hy_system (pg_http p)) i of
             Some (c, Returned reply) \<Rightarrow>
               (case probe_record_of reply of
                  Ok rec \<Rightarrow> Some (p\<lparr>pg_probe := ProbeReported, pg_log := pg_log p @ [StartupProbe rec]\<rparr>)
                | _ \<Rightarrow> Some (p\<lparr>pg_place := Exited 2\<rparr>))
           | _ \<Rightarrow> None)
      | _ \<Rightarrow> None)"

section \<open>Steps\<close>

fun ended :: "http_place \<Rightarrow> bool" where
  "ended (Finished r w) = True"
| "ended (Crashed r) = True"
| "ended _ = False"

definition all_ended :: "'u program \<Rightarrow> bool" where
  "all_ended p \<longleftrightarrow> (\<forall>i q. pg_requests p i = Some q \<longrightarrow> ended q)"

text \<open>Can a handler start? After a clean shutdown there is no connection any more.\<close>

fun clean :: "run_place \<Rightarrow> bool" where
  "clean (Returning r) \<longleftrightarrow> r = Ok ()"
| "clean (TransportClosed r) \<longleftrightarrow> r = Ok ()"
| "clean (Exited c) \<longleftrightarrow> c = 0"
| "clean _ \<longleftrightarrow> False"

fun exited :: "run_place \<Rightarrow> bool" where
  "exited (Exited c) = True"
| "exited _ = False"

text \<open>When \<^verbatim>\<open>Shutdown\<close> may return, and with what: within the deadline of its context once all requests
  have ended, with the error of closing the listeners if there was one; from the deadline on with
  the error of the context, and with nothing else.\<close>

definition shutdown_may_return :: "go_error option \<Rightarrow> 'u program \<Rightarrow> bool" where
  "shutdown_may_return err p \<longleftrightarrow>
     (\<exists>deadline. pg_place p = ShuttingDown deadline
        \<and> (all_ended p \<and> t_clock (pg_world p) \<le> deadline
           \<or> deadline \<le> t_clock (pg_world p) \<and> err = Some ContextDeadlineExceeded))"

text \<open>What the handler of request \<open>i\<close> logs in its next step: \<^verbatim>\<open>observe\<close> writes the record of an answered request.\<close>

definition logged_by :: "nat \<Rightarrow> 'u program \<Rightarrow> log_record list" where
  "logged_by i p =
     (case pg_requests p i of
        Some (Written r started w st) \<Rightarrow> [HttpRequest (http_request_record r w st (t_clock (pg_world p) - started))]
      | _ \<Rightarrow> [])"

text \<open>Everything but \<^verbatim>\<open>Close\<close> that happens to the transport.\<close>

inductive transport_use :: "'u gousb \<Rightarrow> 'u ch341 \<Rightarrow> 'u ch341 \<Rightarrow> bool" for g where
  use_transaction: "Transaction g a w n t = (r, t') \<Longrightarrow> transport_use g t t'"
| use_inspect: "InspectUSB g b t = (st, t') \<Longrightarrow> transport_use g t t'"
| use_sleep: "transport_use g t (ch341_sleep g d t)"

abbreviation transport_uses :: "'u gousb \<Rightarrow> 'u ch341 \<Rightarrow> 'u ch341 \<Rightarrow> bool" where
  "transport_uses g \<equiv> (transport_use g)\<^sup>*\<^sup>*"

inductive program_step ::
  "'u gousb \<Rightarrow> (string \<Rightarrow> bool) \<Rightarrow> clock_format \<Rightarrow> (request \<Rightarrow> statusRecorder \<Rightarrow> statusRecorder)
     \<Rightarrow> ver \<Rightarrow> Config \<Rightarrow> 'u program \<Rightarrow> 'u program \<Rightarrow> bool"
  for g uuid_ok f fallback v cfg where
  handler_starts: "\<not> exited (pg_place p) \<Longrightarrow> \<not> clean (pg_place p) \<Longrightarrow> pg_server p \<noteq> ServerStarting \<Longrightarrow>
    pg_requests p i = None \<Longrightarrow> sy_threads (hy_system (pg_http p)) i = None \<Longrightarrow>
    program_step g uuid_ok f fallback v cfg p
      (p\<lparr>pg_http := at_place i (Accepted r (t_clock (pg_world p))) (pg_http p)\<rparr>)"
| handler_runs: "\<not> exited (pg_place p) \<Longrightarrow>
    http_run (stack_driver g (cf_I2CAddress cfg)) (InspectUSB g) uuid_ok f fallback i (pg_http p) = Some h \<Longrightarrow>
    program_step g uuid_ok f fallback v cfg p (p\<lparr>pg_http := h, pg_log := pg_log p @ logged_by i p\<rparr>)"
| call_runs: "\<not> exited (pg_place p) \<Longrightarrow>
    system_step (stack_driver g (cf_I2CAddress cfg)) uuid_ok (hy_system (pg_http p)) s \<Longrightarrow>
    dom (sy_threads s) = dom (sy_threads (hy_system (pg_http p))) \<Longrightarrow>
    transport_uses g (pg_world p) (sv_world (sy_service s)) \<Longrightarrow>
    program_step g uuid_ok f fallback v cfg p (p\<lparr>pg_http := (pg_http p)\<lparr>hy_system := s\<rparr>\<rparr>)"
| signal_arrives: "\<not> exited (pg_place p) \<Longrightarrow>
    program_step g uuid_ok f fallback v cfg p (p\<lparr>pg_signalled := True\<rparr>)"
| server_runs: "\<not> exited (pg_place p) \<Longrightarrow> server_begins v cfg p = Some p' \<or> server_returns err p = Some p' \<Longrightarrow>
    program_step g uuid_ok f fallback v cfg p p'"
| probe_runs: "\<not> exited (pg_place p) \<Longrightarrow> probe_begins i p = Some p' \<or> probe_reports p = Some p' \<Longrightarrow>
    program_step g uuid_ok f fallback v cfg p p'"
| main_selects: "select_signal p = Some p' \<or> select_server p = Some p' \<Longrightarrow>
    program_step g uuid_ok f fallback v cfg p p'"
| main_shutdown: "shutdown_returns err p = Some p' \<Longrightarrow> shutdown_may_return err p \<Longrightarrow>
    program_step g uuid_ok f fallback v cfg p p'"
| main_ends: "close_transport g p = Some p' \<or> main_returns p = Some p' \<Longrightarrow>
    program_step g uuid_ok f fallback v cfg p p'"

inductive program_reach ::
  "'u gousb \<Rightarrow> (string \<Rightarrow> bool) \<Rightarrow> clock_format \<Rightarrow> (request \<Rightarrow> statusRecorder \<Rightarrow> statusRecorder)
     \<Rightarrow> ver \<Rightarrow> string list \<Rightarrow> Config \<Rightarrow> 'u program \<Rightarrow> bool"
  for g uuid_ok f fallback v args cfg where
  program_begins: "main_starts g uuid_ok args now usb = Inr (cfg, p) \<Longrightarrow>
    program_reach g uuid_ok f fallback v args cfg p"
| program_continues: "program_reach g uuid_ok f fallback v args cfg p \<Longrightarrow>
    program_step g uuid_ok f fallback v cfg p p' \<Longrightarrow> program_reach g uuid_ok f fallback v args cfg p'"

inductive_cases program_stepE: "program_step g uuid_ok f fallback v cfg p p'"

lemmas goroutines = server_begins_def server_returns_def begin_shutdown_def select_signal_def select_server_def
  shutdown_returns_def close_transport_def main_returns_def probe_begins_def probe_reports_def

section \<open>The transport\<close>

lemma transport_use_extends:
  "transport_use g t t' \<Longrightarrow> ch341_wf t \<Longrightarrow> t_extends t t' \<and> ch341_wf t'"
  by (induction rule: transport_use.induct)
     (auto dest: Transaction_extends InspectUSB_extends intro: t_quiet_wf [OF ch341_sleep_quiet]
       t_quiet_extends [OF ch341_sleep_quiet])

lemma transport_uses_extends:
  "transport_uses g t t' \<Longrightarrow> ch341_wf t \<Longrightarrow> t_extends t t' \<and> ch341_wf t'"
  by (induction rule: rtranclp_induct) (auto dest: transport_use_extends intro: t_extends_trans)

interpretation uses_frame: i2c_frame "ch341_i2c g" "transport_uses g t" for g :: "'u gousb" and t
proof unfold_locales
  fix w :: "'u ch341" and a wd n
  assume w: "transport_uses g t w"
  obtain r w' where "Transaction g a wd n w = (r, w')" by fastforce
  then show "transport_uses g t (snd (i2c_Transaction (ch341_i2c g) a wd n w))"
    using w by (auto intro: rtranclp.rtrancl_into_rtrancl use_transaction)
qed (auto intro: rtranclp.rtrancl_into_rtrancl use_sleep)

lemma stack_uses_frame: "driver_frame (stack_driver g address7Bit) (transport_uses g t)"
proof -
  let ?drv = "\<lparr>drv_transport = ch341_i2c g, drv_address7Bit = address7Bit\<rparr>"
  have t: "drv_transport ?drv = ch341_i2c g" by simp
  show ?thesis
    by (simp add: driver_frame_def stack_driver_def Let_def uses_frame.ProtocolMajor_keeps [OF t]
        uses_frame.ReadCertificate_keeps [OF t] uses_frame.SignChallenge_keeps [OF t])
qed

text \<open>The condition on the transport in \<open>call_runs\<close> restricts the environment only: every step of a
  call and of a handler satisfies it.\<close>

lemma thread_run_uses:
  "thread_run (stack_driver g address7Bit) u q sv = Some (q', sv') \<Longrightarrow> transport_uses g (sv_world sv) (sv_world sv')"
  by (rule thread_run_frame [OF stack_uses_frame]) auto

lemma inspected_uses: "inspected (InspectUSB g) sv sv' \<Longrightarrow> transport_uses g (sv_world sv) (sv_world sv')"
  by (auto simp: inspected_def intro: r_into_rtranclp [of "transport_use g", OF use_inspect [OF prod.collapse [symmetric]]])

lemma local_inspected:
  assumes "handler_call (hy_bearerToken h) r = None"
    and "mux (service_api d inspector u) f fallback r ws (hy_server h) = Some (x, srv)"
  shows "inspected inspector (sy_service (hy_system h)) (srv_service srv)"
proof (cases "routed (http_Path r)")
  case True
  then show ?thesis
    using mux_local [of "hy_server h" r inspector d u f fallback ws] assms by (simp add: hy_server_def plain_def)
next
  case False
  then show ?thesis using assms(2) by (auto simp: mux_other inspected_def hy_server_def)
qed

lemma http_run_uses:
  assumes "http_run d (InspectUSB g) u f fallback i h = Some h'"
  shows "transport_uses g (sv_world (sy_service (hy_system h))) (sv_world (sy_service (hy_system h')))"
  using assms by (rule http_runE) (auto simp: at_place_def intro: inspected_uses local_inspected)

section \<open>Below the program\<close>

text \<open>The program is an instance of the concurrent HTTP system of \<open>HttpConc\<close>: every step is one of its
  steps, or leaves it alone.\<close>

lemma stack_now [simp]: "sv_now (stack_driver g address7Bit) sv = t_clock (sv_world sv)"
  "cd_now (stack_driver g address7Bit) = t_clock"
  by (simp_all add: sv_now_def stack_driver_def Let_def)

lemma program_step_http:
  assumes "program_step g u f fallback v cfg p p'" and wf: "ch341_wf (pg_world p)"
  shows "pg_http p' = pg_http p
     \<or> http_step (stack_driver g (cf_I2CAddress cfg)) (InspectUSB g) u f fallback (pg_http p) (pg_http p')"
  using assms(1)
proof cases
  case (handler_starts i r)
  then show ?thesis using http_accept [of "pg_http p" i "stack_driver g (cf_I2CAddress cfg)"] by simp
next
  case (call_runs s)
  then show ?thesis by (auto intro: http_call)
next
  case (probe_runs i)
  then show ?thesis
    by (auto simp: probe_begins_def probe_reports_def intro: http_probe
        split: if_splits probe_place.splits option.splits prod.splits pc.splits result.splits)
next
  case main_ends
  then show ?thesis
  proof
    assume c: "close_transport g p = Some p'"
    obtain e t where t: "Close g (pg_world p) = (e, t)" by fastforce
    have "t_clock (pg_world p) \<le> t_clock t" using Close_state [OF t wf] by simp
    then have "http_step (stack_driver g (cf_I2CAddress cfg)) (InspectUSB g) u f fallback (pg_http p)
        (pg_http (set_world t p))"
      unfolding set_world_def by (auto intro!: http_call system_step.environment)
    then show ?thesis using c by (auto simp: close_transport_def t set_world_def split: run_place.splits)
  qed (auto simp: main_returns_def split: run_place.splits)
qed (auto simp: goroutines intro: http_request split: if_splits run_place.splits server_place.splits option.splits)

section \<open>No panic\<close>

fun pc_fine :: "pc \<Rightarrow> bool" where
  "pc_fine (Releasing r) \<longleftrightarrow> r \<noteq> ReplyPanic"
| "pc_fine (Returned r) \<longleftrightarrow> r \<noteq> ReplyPanic"
| "pc_fine _ \<longleftrightarrow> True"

definition threads_fine :: "'w system \<Rightarrow> bool" where
  "threads_fine s \<longleftrightarrow> (\<forall>i c p. sy_threads s i = Some (c, p) \<longrightarrow> pc_fine p)"

definition none_crashed :: "'w http_system \<Rightarrow> bool" where
  "none_crashed h \<longleftrightarrow> (\<forall>i r. hy_requests h i \<noteq> Some (Crashed r))"

lemma hardware_reply_fine: "(\<And>a. pc_fine (k a)) \<Longrightarrow> r \<noteq> Panic \<Longrightarrow> pc_fine (hardware_reply k r)"
  by (cases r) simp_all

lemma on_hardware_fine:
  "on_hardware k sv m = Some (p, sv') \<Longrightarrow> (\<And>a. pc_fine (k a)) \<Longrightarrow> (\<And>w. m \<noteq> Some (Panic, w)) \<Longrightarrow> pc_fine p"
  by (auto simp: on_hardware_def intro!: hardware_reply_fine split: option.splits)

lemma Sign_lookup_fine: "Sign_lookup d rid ch sv = (Some r, sv') \<Longrightarrow> reply_of ReplySign r \<noteq> ReplyPanic"
  by (auto simp: Sign_lookup_def cachedResult_def split: prod.splits option.splits if_splits)

lemma thread_run_fine:
  assumes safe: "driver_safe d" and "thread_run d u p sv = Some (p', sv')" and "pc_fine p"
  shows "pc_fine p'"
proof (cases p)
  case (Entering c)
  then show ?thesis using assms(2)
    by (cases c) (auto simp: Sign_enter_def dest: Sign_lookup_fine split: option.splits prod.splits if_splits)
next
  case (Holding c wait)
  then show ?thesis using assms(2)
    by (cases c) (auto dest: Sign_lookup_fine split: option.splits prod.splits)
next
  case (Calling c wait st)
  then show ?thesis using assms(2) safe
    by (cases c) (auto dest!: on_hardware_fine simp: driver_safe_def)
next
  case (ReadingCertificate wait st pm)
  then show ?thesis using assms(2) safe by (auto dest!: on_hardware_fine simp: driver_safe_def)
qed (use assms(2,3) in \<open>auto split: option.splits prod.splits\<close>)

lemma system_step_fine:
  assumes "driver_safe d" and "system_step d u s s'" and "threads_fine s"
  shows "threads_fine s'"
  using assms(2,3) by cases (auto simp: threads_fine_def dest: thread_run_fine [OF assms(1)])

text \<open>Handlers end with an answer if their service call does not panic.\<close>

lemma mux_reply_Ok:
  assumes "handler_call (srv_bearerToken srv) r = Some c" and "reply \<noteq> ReplyPanic" and "reply_ok s c reply"
  shows "\<exists>ws'. mux (replay_api a reply) f fallback r ws srv = Some (Ok ws', srv)"
proof (cases "http_Path r = ''/mfi/certificate''")
  case True
  with assms have "c = CallCertificate" "http_Method r = ''GET''" "authorized (srv_bearerToken srv) False r"
    by (auto simp: handler_call_def split: if_splits)
  with True assms(2,3) show ?thesis
    by (cases reply) (auto simp: mux_def withAuth_def handleCertificate_def requireMethod_def)
next
  case False
  with assms obtain req ch where "http_Path r = ''/mfi/sign''" "http_Method r = ''POST''"
    "authorized (srv_bearerToken srv) False r" "decodeJSON (http_BodyReadable r) (http_Body r) = Some req"
    "rq_RequestID req \<noteq> []" "rq_Challenge req \<noteq> []" "base64_DecodeString (rq_Challenge req) = Some ch"
    "c = CallSign (rq_RequestID req) ch"
    by (auto simp: handler_call_def split: if_splits option.splits)
  with assms(2,3) show ?thesis
    by (cases reply) (auto simp: mux_def withAuth_def handleSign_def requireMethod_def Let_def)
qed

definition answers_ok :: "'s handled \<Rightarrow> bool" where
  "answers_ok m \<longleftrightarrow> (\<exists>ws srv. m = Some (Ok ws, srv))"

lemma answers_ok_Some [simp]: "answers_ok (Some (Ok ws, srv))"
  by (simp add: answers_ok_def)

lemma mux_local_Ok:
  assumes "handler_call (srv_bearerToken srv) r = None" and "holds_newest log (srv_recent srv)"
  shows "answers_ok (mux (service_api d i u) f fallback r ws srv)"
proof -
  have auth: "(authorized (srv_bearerToken srv) q r \<Longrightarrow> answers_ok (h r ws srv)) \<Longrightarrow> answers_ok (withAuth q h r ws srv)"
    for q and h :: "request \<Rightarrow> statusRecorder \<times> requestState \<Rightarrow> 'a service server \<Rightarrow> 'a service handled"
    by (simp add: withAuth_def Let_def)
  have cert: "answers_ok (handleCertificate (service_api d i u) r ws srv)"
    if "http_Path r = ''/mfi/certificate''" "authorized (srv_bearerToken srv) False r"
    using assms(1) that by (auto simp: handleCertificate_def handler_call_def requireMethod_def split: if_splits)
  have sign: "answers_ok (handleSign (service_api d i u) r ws srv)"
    if "http_Path r = ''/mfi/sign''" "authorized (srv_bearerToken srv) False r"
    using assms(1) that
    by (cases "decodeJSON (http_BodyReadable r) (http_Body r)")
       (auto simp: handleSign_def handler_call_def requireMethod_def Let_def split: if_splits)
  have "answers_ok (handleReset (service_api d i u) r ws srv)" "answers_ok (handleHealth (service_api d i u) r ws srv)"
    "answers_ok (handleDebug (service_api d i u) f r ws srv)"
    by (simp_all add: handleReset_def handleHealth_def handleDebug_def Reset_def case_prod_beta Let_def
        listNewestFirst_holds [OF assms(2)] split: option.split)
  with cert sign show ?thesis by (auto simp: mux_def intro!: auth)
qed

lemma handler_ended_Crashed: "handler_ended r t (Ok ws) \<noteq> Crashed r'"
  by (cases ws) simp

lemma http_run_fine:
  assumes run: "http_run d inspector u f fallback i h = Some h'" and inv: "http_inv d h"
    and "threads_fine (hy_system h)" and "none_crashed h"
  shows "threads_fine (hy_system h') \<and> none_crashed h'"
proof -
  have log: "holds_newest (map snd (hy_done h)) (hy_recent h)" using inv by (simp add: http_inv_def log_ok_def)
  from run show ?thesis
  proof (rule http_runE)
    fix r t x srv
    assume a: "handler_call (hy_bearerToken h) r = None"
      "mux (service_api d inspector u) f fallback r (new_recorder, new_state) (hy_server h) = Some (x, srv)"
      "h' = at_place i (handler_ended r t x) (h\<lparr>hy_system := (hy_system h)\<lparr>sy_service := srv_service srv\<rparr>\<rparr>)"
    have "answers_ok (mux (service_api d inspector u) f fallback r (new_recorder, new_state) (hy_server h))"
      by (rule mux_local_Ok) (use a(1) log in \<open>simp_all add: hy_server_def\<close>)
    then show ?thesis
      using a(2,3) assms(3,4)
      by (auto simp: answers_ok_def threads_fine_def none_crashed_def at_place_def handler_ended_Crashed)
  next
    fix r t c c' reply x srv
    assume a: "hy_requests h i = Some (InService r t c)" "sy_threads (hy_system h) i = Some (c', Returned reply)"
      "mux (replay_api (service_api d inspector u) reply) f fallback r (new_recorder, new_state) (hy_server h) = Some (x, srv)"
      "h' = at_place i (handler_ended r t x) h"
    have "place_ok h i (InService r t c)" using inv a(1) unfolding http_inv_def by blast
    then have c: "handler_call (srv_bearerToken (hy_server h)) r = Some c" "c' = c" using a(2) by (auto simp: hy_server_def)
    have "thread_ok d (hy_system h) c (Returned reply)"
      using inv a(2) c(2) unfolding http_inv_def system_inv_def by blast
    then have ok: "reply_ok (hy_system h) c reply" by simp
    have "reply \<noteq> ReplyPanic" using assms(3) a(2) unfolding threads_fine_def by (metis pc_fine.simps(2))
    from mux_reply_Ok [OF c(1) this ok] obtain ws where "x = Ok ws" using a(3) by (metis option.inject prod.inject)
    then show ?thesis
      using a(4) assms(3,4) by (auto simp: threads_fine_def none_crashed_def at_place_def handler_ended_Crashed)
  next
    fix r t w st
    assume "h' = record_request d f i r t w st h"
    then show ?thesis
      using recent_add_holds [OF log] assms(3,4)
      by (auto simp: record_request_def none_crashed_def at_place_def Let_def split: result.split) (metis result.distinct)+
  qed (use assms(3,4) in \<open>auto simp: threads_fine_def none_crashed_def at_place_def\<close>)
qed

section \<open>Invariant\<close>

fun closed_place :: "run_place \<Rightarrow> bool" where
  "closed_place (TransportClosed r) = True"
| "closed_place (Exited c) = True"
| "closed_place _ = False"

fun place_fine :: "run_place \<Rightarrow> bool" where
  "place_fine (Returning r) \<longleftrightarrow> r \<noteq> Panic"
| "place_fine (TransportClosed r) \<longleftrightarrow> r \<noteq> Panic"
| "place_fine (Exited c) \<longleftrightarrow> c \<le> 1"
| "place_fine _ \<longleftrightarrow> True"

definition probe_ok :: "'u program \<Rightarrow> bool" where
  "probe_ok p \<longleftrightarrow> (\<forall>i. pg_probe p = Probing i \<longrightarrow> (\<exists>q. sy_threads (hy_system (pg_http p)) i = Some (CallProbe, q)))"

definition world_ok :: "'u gousb \<Rightarrow> 'u program \<Rightarrow> bool" where
  "world_ok g p \<longleftrightarrow> ch341_reach g (pg_world p) \<and> (t_closed (pg_world p) \<longleftrightarrow> closed_place (pg_place p))"

definition main_ok :: "'u program \<Rightarrow> bool" where
  "main_ok p \<longleftrightarrow> place_fine (pg_place p) \<and> (clean (pg_place p) \<longrightarrow> all_ended p)
     \<and> (ServerStoppedRecord \<in> set (pg_log p) \<longleftrightarrow> clean (pg_place p))"

text \<open>Exactly the finished requests have been logged.\<close>

definition logs_ok :: "'u program \<Rightarrow> bool" where
  "logs_ok p \<longleftrightarrow>
     (\<forall>i r w. pg_requests p i = Some (Finished r w) \<longrightarrow>
        (\<exists>st duration. HttpRequest (http_request_record r w st duration) \<in> set (pg_log p)))
     \<and> (\<forall>rec. HttpRequest rec \<in> set (pg_log p) \<longrightarrow>
        (\<exists>i r w st duration. pg_requests p i = Some (Finished r w) \<and> rec = http_request_record r w st duration))"

definition program_inv :: "'u gousb \<Rightarrow> Config \<Rightarrow> 'u program \<Rightarrow> bool" where
  "program_inv g cfg p \<longleftrightarrow> http_inv (stack_driver g (cf_I2CAddress cfg)) (pg_http p) \<and> world_ok g p
     \<and> threads_fine (hy_system (pg_http p)) \<and> none_crashed (pg_http p) \<and> probe_ok p \<and> main_ok p
     \<and> logs_ok p"

lemma transport_uses_reach: "transport_uses g t t' \<Longrightarrow> ch341_reach g t \<Longrightarrow> ch341_reach g t'"
proof (induction rule: rtranclp_induct)
  case (step t1 t2)
  then have "ch341_step g t1 t2" by (auto elim!: transport_use.cases intro: ch341_step.intros)
  with step show ?case by (blast intro: ch341_reach.reach_step)
qed

lemma world_ok_uses:
  assumes "world_ok g p" and "transport_uses g (pg_world p) (pg_world p')" and "pg_place p' = pg_place p"
  shows "world_ok g p'"
  using assms transport_uses_reach [OF assms(2)] transport_uses_extends [OF assms(2)] ch341_reach_wf
  by (fastforce simp: world_ok_def t_extends_def)

lemma http_run_requests:
  assumes "http_run d inspector u f fallback i h = Some h'"
  shows "\<exists>q. hy_requests h i = Some q \<and> \<not> ended q"
  using assms by (rule http_runE) auto

lemma http_run_threads:
  assumes "http_run d inspector u f fallback i h = Some h'" and "http_inv d h" and "sy_threads (hy_system h) j = Some x"
  shows "sy_threads (hy_system h') j = Some x"
  using assms(1)
proof (rule http_runE)
  fix r t c
  assume a: "hy_requests h i = Some (Accepted r t)"
    "h' = at_place i (InService r t c) (h\<lparr>hy_system := (hy_system h)\<lparr>sy_threads :=
         (sy_threads (hy_system h))(i \<mapsto> (c, Entering c))\<rparr>\<rparr>)"
  have "place_ok h i (Accepted r t)" using assms(2) a(1) unfolding http_inv_def by blast
  then show ?thesis using a(2) assms(3) by (auto simp: at_place_def)
qed (use assms(3) in \<open>simp_all add: at_place_def\<close>)

lemma http_run_places:
  assumes run: "http_run d inspector u f fallback i h = Some h'" and inv: "http_inv d h"
  shows "\<exists>q. hy_requests h' = (hy_requests h)(i \<mapsto> q)
     \<and> (case hy_requests h i of Some (Written r t w st) \<Rightarrow> q = Finished r w | _ \<Rightarrow> (\<forall>r w. q \<noteq> Finished r w))
     \<and> (\<forall>r w. hy_requests h i \<noteq> Some (Finished r w))"
  using run
proof (cases rule: http_runE)
  case (records r t w st)
  have "holds_newest (map snd (hy_done h)) (hy_recent h)" using inv by (simp add: http_inv_def log_ok_def)
  from recent_add_holds [OF this] have "hy_requests h' = (hy_requests h)(i \<mapsto> Finished r w)"
    unfolding records(2) record_request_def Let_def
    by (auto simp: at_place_def split: result.split) (metis result.distinct)+
  then show ?thesis using records(1) by simp
qed (auto simp: at_place_def handler_ended_unfinished)

lemma logs_ok_place:
  assumes "logs_ok p" and "pg_requests p' = (pg_requests p)(i \<mapsto> q)" and "pg_log p' = pg_log p"
    and "\<forall>r w. pg_requests p i \<noteq> Some (Finished r w)" and "\<forall>r w. q \<noteq> Finished r w"
  shows "logs_ok p'"
  using assms(1,4,5) unfolding logs_ok_def assms(2,3) by simp metis

lemma handler_logs_ok:
  assumes run: "http_run d inspector u f fallback i (pg_http p) = Some h" and inv: "http_inv d (pg_http p)" and "logs_ok p"
  shows "logs_ok (p\<lparr>pg_http := h, pg_log := pg_log p @ logged_by i p\<rparr>)"
proof -
  obtain q where q: "hy_requests h = (pg_requests p)(i \<mapsto> q)" "\<forall>r w. pg_requests p i \<noteq> Some (Finished r w)"
    "case pg_requests p i of Some (Written r t w st) \<Rightarrow> q = Finished r w | _ \<Rightarrow> (\<forall>r w. q \<noteq> Finished r w)"
    using http_run_places [OF run inv] by blast
  show ?thesis
  proof (cases "\<exists>r t w st. pg_requests p i = Some (Written r t w st)")
    case True
    then obtain r t w st where at: "pg_requests p i = Some (Written r t w st)" by blast
    then have p': "hy_requests h = (pg_requests p)(i \<mapsto> Finished r w)" using q(1,3) by simp
    have keep: "pg_requests p j = Some (Finished r' w') \<Longrightarrow> hy_requests h j = Some (Finished r' w')" for j r' w'
      using q(2) by (auto simp: p')
    have new: "hy_requests h i = Some (Finished r w)" by (simp add: p')
    have log: "logged_by i p = [HttpRequest (http_request_record r w st (t_clock (pg_world p) - t))]"
      by (simp add: logged_by_def at)
    have "\<exists>j r' w' st' duration. hy_requests h j = Some (Finished r' w') \<and> rec = http_request_record r' w' st' duration"
      if "HttpRequest rec \<in> set (pg_log p @ logged_by i p)" for rec
      using that assms(3) keep new unfolding log logs_ok_def by simp metis
    moreover have "\<exists>st' duration. HttpRequest (http_request_record r' w' st' duration) \<in> set (pg_log p @ logged_by i p)"
      if "hy_requests h j = Some (Finished r' w')" for j r' w'
      using that assms(3) unfolding log logs_ok_def p' by (auto split: if_splits) blast
    ultimately show ?thesis unfolding logs_ok_def by simp
  next
    case False
    then have "\<forall>r w. q \<noteq> Finished r w" "logged_by i p = []"
      using q(3) by (auto simp: logged_by_def split: option.splits http_place.splits)
    with q(1,2) show ?thesis by (intro logs_ok_place [OF assms(3), where i = i and q = q]) simp_all
  qed
qed

lemma handler_step_inv:
  assumes inv: "program_inv g cfg p"
    and http: "http_inv (stack_driver g (cf_I2CAddress cfg)) h"
    and run: "http_run (stack_driver g (cf_I2CAddress cfg)) (InspectUSB g) u f fallback i (pg_http p) = Some h"
  shows "program_inv g cfg (p\<lparr>pg_http := h, pg_log := pg_log p @ logged_by i p\<rparr>)" (is "program_inv g cfg ?p")
proof -
  have i: "http_inv (stack_driver g (cf_I2CAddress cfg)) (pg_http p)" "world_ok g p"
    "threads_fine (hy_system (pg_http p))" "none_crashed (pg_http p)" "probe_ok p" "main_ok p" "logs_ok p"
    using inv by (simp_all add: program_inv_def)
  have "world_ok g ?p" by (rule world_ok_uses [OF i(2)]) (use http_run_uses [OF run] in simp_all)
  moreover have "probe_ok ?p"
    using i(5) http_run_threads [OF run i(1)] by (fastforce simp: probe_ok_def)
  moreover have "ServerStoppedRecord \<notin> set (logged_by i p)"
    by (auto simp: logged_by_def split: option.splits http_place.splits)
  then have "main_ok ?p"
    using i(6) http_run_requests [OF run] by (auto simp: main_ok_def all_ended_def)
  ultimately show ?thesis
    using http http_run_fine [OF run i(1,3,4)] handler_logs_ok [OF run i(1,7)] by (simp add: program_inv_def)
qed

lemma call_step_inv:
  assumes inv: "program_inv g cfg p" and safe: "driver_safe (stack_driver g (cf_I2CAddress cfg))"
    and http: "http_inv (stack_driver g (cf_I2CAddress cfg)) ((pg_http p)\<lparr>hy_system := s\<rparr>)"
    and step: "system_step (stack_driver g (cf_I2CAddress cfg)) u (hy_system (pg_http p)) s"
    and uses: "transport_uses g (pg_world p) (sv_world (sy_service s))"
  shows "program_inv g cfg (p\<lparr>pg_http := (pg_http p)\<lparr>hy_system := s\<rparr>\<rparr>)"
proof -
  have i: "world_ok g p" "threads_fine (hy_system (pg_http p))" "none_crashed (pg_http p)" "probe_ok p" "main_ok p"
    "logs_ok p"
    using inv by (simp_all add: program_inv_def)
  let ?p = "p\<lparr>pg_http := (pg_http p)\<lparr>hy_system := s\<rparr>\<rparr>"
  have "world_ok g ?p" by (rule world_ok_uses [OF i(1)]) (use uses in simp_all)
  moreover have "probe_ok ?p" using i(4) system_step_threads [OF step] by (fastforce simp: probe_ok_def)
  ultimately show ?thesis
    using http system_step_fine [OF safe step i(2)] i(3,5,6)
    by (simp add: program_inv_def none_crashed_def main_ok_def all_ended_def logs_ok_def)
qed

lemma close_step_inv:
  assumes inv: "program_inv g cfg p" and c: "close_transport g p = Some p'"
    and http: "http_inv (stack_driver g (cf_I2CAddress cfg)) (pg_http p')"
  shows "program_inv g cfg p'"
proof -
  obtain r where r: "pg_place p = Returning r" using c by (auto simp: close_transport_def split: run_place.splits)
  obtain e t where t: "Close g (pg_world p) = (e, t)" by fastforce
  have p': "p' = set_world t (p\<lparr>pg_place := TransportClosed r\<rparr>)" using c by (simp add: close_transport_def r t)
  have reach: "ch341_reach g (pg_world p)" using inv by (simp add: program_inv_def world_ok_def)
  have "t_closed t" "ch341_reach g t"
    using Close_state [OF t ch341_reach_wf [OF reach]] ch341_reach.reach_step [OF reach ch341_step.step_close [OF t]] by simp_all
  then show ?thesis
    using inv http
    by (simp add: program_inv_def p' set_world_def world_ok_def threads_fine_def none_crashed_def probe_ok_def
        main_ok_def all_ended_def logs_ok_def r)
qed

lemma exit_code_0 [simp]: "exit_code r = 0 \<longleftrightarrow> r = Ok ()"
  by (cases r) simp_all

lemma exit_code_le [simp]: "r \<noteq> Panic \<Longrightarrow> exit_code r \<le> Suc 0"
  by (cases r) simp_all

lemma probe_reports_fine:
  assumes "program_inv g cfg p" and "probe_reports p = Some p'"
  shows "\<exists>rec. p' = p\<lparr>pg_probe := ProbeReported, pg_log := pg_log p @ [StartupProbe rec]\<rparr>"
proof -
  obtain i c reply where pr: "pg_probe p = Probing i" "sy_threads (hy_system (pg_http p)) i = Some (c, Returned reply)"
    using assms(2) by (auto simp: probe_reports_def split: probe_place.splits option.splits prod.splits pc.splits)
  have "c = CallProbe" using assms(1) pr by (auto simp: program_inv_def probe_ok_def)
  moreover have "thread_ok (stack_driver g (cf_I2CAddress cfg)) (hy_system (pg_http p)) c (Returned reply)"
    using assms(1) pr(2) unfolding program_inv_def http_inv_def system_inv_def by blast
  moreover have "pc_fine (Returned reply)" using assms(1) pr(2) unfolding program_inv_def threads_fine_def by blast
  ultimately show ?thesis
    using assms(2) pr by (cases reply) (auto simp: probe_reports_def)
qed

text \<open>Steps of the main goroutine, the server and the probe that leave the requests alone.\<close>

lemma quiet_step_inv:
  assumes "program_inv g cfg p" and "pg_http p' = pg_http p" and "probe_ok p'" and "main_ok p'" and "logs_ok p'"
    and "closed_place (pg_place p') = closed_place (pg_place p)"
  shows "program_inv g cfg p'"
  using assms by (simp add: program_inv_def world_ok_def)

lemma program_step_inv:
  assumes step: "program_step g u f fallback v cfg p p'" and inv: "program_inv g cfg p"
    and safe: "driver_safe (stack_driver g (cf_I2CAddress cfg))"
  shows "program_inv g cfg p'"
proof -
  have wf: "ch341_wf (pg_world p)" using inv ch341_reach_wf by (auto simp: program_inv_def world_ok_def)
  have old: "http_inv (stack_driver g (cf_I2CAddress cfg)) (pg_http p)" "probe_ok p" "main_ok p" "logs_ok p"
    using inv by (simp_all add: program_inv_def)
  have http: "http_inv (stack_driver g (cf_I2CAddress cfg)) (pg_http p')"
    using program_step_http [OF step wf] old(1) stack_inspected.http_step_inv by metis
  note quiet = quiet_step_inv [OF inv]
  from step show ?thesis
  proof cases
    case (handler_starts i r)
    then have "logs_ok p'"
      by (intro logs_ok_place [OF old(4), where i = i and q = "Accepted r (t_clock (pg_world p))"]) (simp_all add: at_place_def)
    with handler_starts show ?thesis
      using inv http
      by (auto simp: program_inv_def at_place_def threads_fine_def none_crashed_def world_ok_def probe_ok_def
          main_ok_def all_ended_def)
  next
    case (handler_runs i h)
    then show ?thesis using handler_step_inv [OF inv] http by simp
  next
    case (call_runs s)
    then show ?thesis using call_step_inv [OF inv safe] http by simp
  next
    case signal_arrives
    show ?thesis by (rule quiet) (use old signal_arrives in \<open>simp_all add: probe_ok_def main_ok_def all_ended_def logs_ok_def\<close>)
  next
    case (server_runs err)
    then show ?thesis
      by (intro quiet) (use old in \<open>auto simp: goroutines probe_ok_def main_ok_def all_ended_def logs_ok_def server_start_def
          split: if_splits\<close>)
  next
    case (probe_runs i)
    from probe_runs(2) show ?thesis
    proof
      assume "probe_begins i p = Some p'"
      then show ?thesis
        using inv http
        by (auto simp: probe_begins_def program_inv_def threads_fine_def none_crashed_def world_ok_def probe_ok_def
            main_ok_def all_ended_def logs_ok_def split: if_splits)
    next
      assume "probe_reports p = Some p'"
      then obtain rec where "p' = p\<lparr>pg_probe := ProbeReported, pg_log := pg_log p @ [StartupProbe rec]\<rparr>"
        using probe_reports_fine [OF inv] by blast
      then show ?thesis by (intro quiet) (use old in \<open>auto simp: probe_ok_def main_ok_def all_ended_def logs_ok_def\<close>)
    qed
  next
    case main_selects
    then show ?thesis
      by (intro quiet) (use old in \<open>auto simp: goroutines probe_ok_def main_ok_def all_ended_def logs_ok_def
          split: if_splits run_place.splits server_place.splits option.splits\<close>)
  next
    case (main_shutdown err)
    then show ?thesis
      by (intro quiet) (use old in \<open>auto simp: goroutines probe_ok_def main_ok_def all_ended_def logs_ok_def shutdown_may_return_def
          split: run_place.splits option.splits\<close>)
  next
    case main_ends
    then show ?thesis
    proof
      assume "main_returns p = Some p'"
      then show ?thesis
        by (intro quiet) (use old in \<open>auto simp: main_returns_def probe_ok_def main_ok_def all_ended_def logs_ok_def
            split: run_place.splits\<close>)
    qed (rule close_step_inv [OF inv _ http])
  qed
qed

lemma main_starts_Inr:
  assumes "main_starts g u args now usb = Inr (cfg, p)"
  obtains t srv where "Parse args = Inr (Some cfg)" "NewCh341 (cf_USBIDs cfg) (cf_I2CSpeedKHz cfg) now usb = Ok t"
    "start_service g u cfg t = Ok srv" "p = program_new cfg srv"
  using assms
  by (auto simp: main_starts_def run_starts_def split: sum.splits option.splits result.splits prod.splits)

lemma main_starts_accepted:
  assumes "Parse args = Inr (Some cfg)"
  shows "\<exists>p. main_starts g u args now usb = Inr (cfg, p)"
proof -
  obtain t where t: "NewCh341 (cf_USBIDs cfg) (cf_I2CSpeedKHz cfg) now usb = Ok t"
    using Parse_facts(1) [OF assms, of now usb] by blast
  obtain srv where "start_service g u cfg t = Ok srv"
    using start_service_Ok [of cfg g t u] ch341_reach.reach_new [OF t] Parse_facts(2,4) [OF assms] by auto
  with t show ?thesis by (simp add: main_starts_def run_starts_def assms)
qed

lemma program_begins_http:
  assumes "Parse args = Inr (Some cfg)" and "start_service g u cfg t = Ok srv"
  shows "http_reach (stack_driver g (cf_I2CAddress cfg)) (InspectUSB g) u f fallback (http_start srv)"
    and "sv_world (srv_service srv) = t"
proof -
  let ?d = "stack_driver g (cf_I2CAddress cfg)"
  have "\<not> cf_I2CAddress cfg > 0x7f" and cap: "0 < cf_RecentCapacity cfg" using Parse_facts [OF assms(1)] by simp_all
  then have s: "NewDriver (Some (ch341_i2c g)) (cf_I2CAddress cfg)
      = Ok \<lparr>drv_transport = ch341_i2c g, drv_address7Bit = cf_I2CAddress cfg\<rparr>"
    by (simp add: NewDriver_def)
  obtain sv where sv: "NewService (Some ?d) (Some (InspectUSB g)) t = Ok sv"
    "NewHandler (Some (service_api ?d (InspectUSB g) u)) True True (cf_BearerToken cfg) (cf_RecentCapacity cfg)
       (t_clock t) sv = Ok srv"
    using assms(2) by (auto simp: start_service_def s driver_interface_stack split: result.splits)
  show "http_reach ?d (InspectUSB g) u f fallback (http_start srv)" by (rule http_new [OF sv(1) cap sv(2)])
  show "sv_world (srv_service srv) = t"
    using sv by (auto simp: NewService_def NewHandler_def split: if_splits)
qed

lemma program_reach_inv:
  assumes "program_reach g u f fallback v args cfg p" and "reads_fit g"
  shows "http_reach (stack_driver g (cf_I2CAddress cfg)) (InspectUSB g) u f fallback (pg_http p)
     \<and> program_inv g cfg p"
  using assms(1)
proof (induction rule: program_reach.induct)
  case (program_begins now usb p)
  then obtain t srv where start: "Parse args = Inr (Some cfg)"
    "NewCh341 (cf_USBIDs cfg) (cf_I2CSpeedKHz cfg) now usb = Ok t" "start_service g u cfg t = Ok srv"
    "p = program_new cfg srv"
    by (rule main_starts_Inr)
  note H = program_begins_http [OF start(1,3)]
  have "http_inv (stack_driver g (cf_I2CAddress cfg)) (http_start srv)"
    by (rule stack_inspected.http_reach_inv [OF H(1)])
  moreover have "ch341_reach g t" "\<not> t_closed t"
    using ch341_reach.reach_new [OF start(2)] NewCh341_Ok [OF start(2)] by simp_all
  ultimately show ?case
    using H by (simp add: start(4) program_new_def program_inv_def world_ok_def http_start_def system_start_def
        threads_fine_def none_crashed_def probe_ok_def main_ok_def logs_ok_def)
next
  case (program_continues p p')
  then have wf: "ch341_wf (pg_world p)" using ch341_reach_wf by (auto simp: program_inv_def world_ok_def)
  have "http_reach (stack_driver g (cf_I2CAddress cfg)) (InspectUSB g) u f fallback (pg_http p')"
    using program_step_http [OF program_continues(2) wf] program_continues(3) http_more by metis
  then show ?case
    using program_step_inv [OF program_continues(2) _ stack_driver_safe [OF assms(2)]] program_continues(3) by blast
qed

end
