(* ===== verification/Shutdown.thy ===== *)
theory Shutdown
  imports Lifecycle
begin

text \<open>
  The end of the program of \<open>Lifecycle\<close>: the requests in flight can always be drained, since every step
  of a handler or a service call leaves less to do and one of them can always be taken; and what
  holds in every state on the way to the exit code.
\<close>

section \<open>Work that is left\<close>

definition rank_sum :: "('a \<Rightarrow> nat) \<Rightarrow> (nat \<rightharpoonup> 'a) \<Rightarrow> nat" where
  "rank_sum rank m = (\<Sum>i \<in> dom m. rank (the (m i)))"

lemma rank_sum_new:
  assumes "finite (dom m)" and "m i = None"
  shows "rank_sum rank (m(i \<mapsto> x)) = rank_sum rank m + rank x"
proof -
  have "(\<Sum>j \<in> dom m. rank (the ((m(i \<mapsto> x)) j))) = rank_sum rank m"
    unfolding rank_sum_def using assms(2) by (intro sum.cong) auto
  then show ?thesis using assms by (simp add: rank_sum_def domIff del: fun_upd_apply) simp
qed

lemma rank_sum_replace:
  assumes "finite (dom m)" and "m i = Some y"
  shows "rank_sum rank (m(i \<mapsto> x)) + rank y = rank_sum rank m + rank x"
proof -
  have "i \<in> dom m" using assms(2) by auto
  then have "rank_sum rank m' = rank (the (m' i)) + (\<Sum>j \<in> dom m - {i}. rank (the (m' j)))" if "dom m' = dom m" for m'
    using assms(1) that by (simp add: rank_sum_def sum.remove)
  from this [of m] this [of "m(i \<mapsto> x)"] assms(2) show ?thesis by (auto simp: insert_absorb domI cong: sum.cong_simp)
qed

fun pc_rank :: "pc \<Rightarrow> nat" where
  "pc_rank (Entering c) = 7"
| "pc_rank (Waiting c t) = 6"
| "pc_rank (Holding c t) = 5"
| "pc_rank (Calling c t t') = 4"
| "pc_rank (ReadingCertificate t t' pm) = 3"
| "pc_rank (StoringCertificate t t' pm data) = 2"
| "pc_rank (StoringSignature rid ch t t' sig) = 2"
| "pc_rank (Releasing r) = 1"
| "pc_rank (Returned r) = 0"

fun place_rank :: "http_place \<Rightarrow> nat" where
  "place_rank (Accepted r t) = 10"
| "place_rank (InService r t c) = 2"
| "place_rank (Written r t w st) = 1"
| "place_rank (Finished r w) = 0"
| "place_rank (Crashed r) = 0"

definition work_left :: "'w http_system \<Rightarrow> nat" where
  "work_left h = rank_sum place_rank (hy_requests h) + rank_sum (pc_rank \<circ> snd) (sy_threads (hy_system h))"

definition finitely_many :: "'w http_system \<Rightarrow> bool" where
  "finitely_many h \<longleftrightarrow> finite (dom (hy_requests h)) \<and> finite (dom (sy_threads (hy_system h)))"

lemma hardware_reply_rank: "(\<And>a. pc_rank (k a) < n) \<Longrightarrow> 1 < n \<Longrightarrow> pc_rank (hardware_reply k r) < n"
  by (cases r) simp_all

lemma on_hardware_rank:
  "on_hardware k sv m = Some (p, sv') \<Longrightarrow> (\<And>a. pc_rank (k a) < n) \<Longrightarrow> 1 < n \<Longrightarrow> pc_rank p < n"
  by (auto simp: on_hardware_def hardware_reply_rank split: option.splits)

lemma thread_run_rank: "thread_run d u p sv = Some (p', sv') \<Longrightarrow> pc_rank p' < pc_rank p"
proof (cases p)
  case (Entering c)
  then show "thread_run d u p sv = Some (p', sv') \<Longrightarrow> ?thesis"
    by (cases c) (auto split: option.splits prod.splits)
next
  case (Holding c wait)
  then show "thread_run d u p sv = Some (p', sv') \<Longrightarrow> ?thesis"
    by (cases c) (auto split: option.splits prod.splits)
next
  case (Calling c wait st)
  then show "thread_run d u p sv = Some (p', sv') \<Longrightarrow> ?thesis"
    by (cases c) (auto intro: on_hardware_rank)
qed (auto intro: on_hardware_rank split: option.splits prod.splits)

lemma handler_ended_rank: "place_rank (handler_ended r t x) \<le> 1"
  by (cases "(r, t, x)" rule: handler_ended.cases) simp_all

lemma record_request_ends:
  "\<exists>q. hy_requests (record_request d f i r t w st h) = (hy_requests h)(i \<mapsto> q) \<and> ended q \<and> hp_request q = r"
  by (auto simp: record_request_def at_place_def Let_def split: result.split)

lemma ended_rank: "place_rank q = 0 \<longleftrightarrow> ended q"
  by (cases q) simp_all

text \<open>A step of a request moves that request on, keeps the others, and leaves less to do.\<close>

lemma http_run_advances:
  assumes run: "http_run d inspector u f fallback i h = Some h'" and inv: "http_inv d h" and fin: "finitely_many h"
  shows "\<exists>q q'. hy_requests h i = Some q \<and> hy_requests h' = (hy_requests h)(i \<mapsto> q') \<and> hp_request q' = hp_request q
     \<and> work_left h' < work_left h"
proof -
  have F: "finite (dom (hy_requests h))" "finite (dom (sy_threads (hy_system h)))"
    using fin by (simp_all add: finitely_many_def)
  note R = rank_sum_replace [OF F(1), where rank = place_rank]
  from run show ?thesis
  proof (rule http_runE)
    fix r t c
    assume a: "hy_requests h i = Some (Accepted r t)"
      "h' = at_place i (InService r t c) (h\<lparr>hy_system := (hy_system h)\<lparr>sy_threads :=
         (sy_threads (hy_system h))(i \<mapsto> (c, Entering c))\<rparr>\<rparr>)"
    have "place_ok h i (Accepted r t)" using inv a(1) unfolding http_inv_def by blast
    then show ?thesis
      using a R [OF a(1), of "InService r t c"] rank_sum_new [OF F(2), of i "pc_rank \<circ> snd" "(c, Entering c)"]
      by (intro exI [of _ "Accepted r t"] exI [of _ "InService r t c"]) (simp add: at_place_def work_left_def)
  next
    fix r t x srv
    assume a: "hy_requests h i = Some (Accepted r t)"
      "h' = at_place i (handler_ended r t x) (h\<lparr>hy_system := (hy_system h)\<lparr>sy_service := srv_service srv\<rparr>\<rparr>)"
    then show ?thesis
      using R [OF a(1), of "handler_ended r t x"] handler_ended_rank [of r t x]
      by (intro exI [of _ "Accepted r t"] exI [of _ "handler_ended r t x"])
         (simp add: at_place_def work_left_def handler_ended_request)
  next
    fix r t c x
    assume a: "hy_requests h i = Some (InService r t c)" "h' = at_place i (handler_ended r t x) h"
    then show ?thesis
      using R [OF a(1), of "handler_ended r t x"] handler_ended_rank [of r t x]
      by (intro exI [of _ "InService r t c"] exI [of _ "handler_ended r t x"])
         (simp add: at_place_def work_left_def handler_ended_request)
  next
    fix r t w st
    assume a: "hy_requests h i = Some (Written r t w st)" "h' = record_request d f i r t w st h"
    obtain q where q: "hy_requests h' = (hy_requests h)(i \<mapsto> q)" "ended q" "hp_request q = r"
      using record_request_ends a(2) by metis
    then show ?thesis
      using R [OF a(1), of q] a
      by (intro exI [of _ "Written r t w st"] exI [of _ q]) (simp add: work_left_def flip: ended_rank)
  qed
qed

lemma http_run_finite:
  assumes "http_run d inspector u f fallback i h = Some h'" and "finitely_many h"
  shows "finitely_many h'"
  using assms(1)
proof (rule http_runE)
  fix r t w st
  assume h': "h' = record_request d f i r t w st h"
  obtain q where "hy_requests (record_request d f i r t w st h) = (hy_requests h)(i \<mapsto> q)"
    using record_request_ends by metis
  then show ?thesis using assms(2) by (simp add: finitely_many_def h')
qed (use assms(2) in \<open>simp_all add: finitely_many_def at_place_def\<close>)

lemma http_step_finite:
  assumes "http_step d inspector u f fallback h h'" and "finitely_many h"
  shows "finitely_many h'"
  using assms(1)
proof cases
  case (http_request i)
  then show ?thesis using http_run_finite assms(2) by blast
qed (use assms(2) in \<open>auto simp: finitely_many_def at_place_def\<close>)

lemma http_reach_finite: "http_reach d inspector u f fallback h \<Longrightarrow> finitely_many h"
proof (induction rule: http_reach.induct)
  case http_new
  then show ?case by (simp add: finitely_many_def http_start_def system_start_def)
qed (rule http_step_finite)

section \<open>Draining\<close>

text \<open>While a request has not ended, some handler or some service call can go on, and the step leaves
  less to do.\<close>

definition drain_step :: "'w chip_driver \<Rightarrow> (bool \<Rightarrow> 'w \<Rightarrow> USBStatus \<times> 'w) \<Rightarrow> (string \<Rightarrow> bool) \<Rightarrow> clock_format
     \<Rightarrow> (request \<Rightarrow> statusRecorder \<Rightarrow> statusRecorder) \<Rightarrow> 'w http_system \<Rightarrow> 'w http_system \<Rightarrow> bool" where
  "drain_step d inspector u f fallback h h' \<longleftrightarrow>
     (\<exists>i. http_run d inspector u f fallback i h = Some h')
     \<or> (\<exists>i c q q' sv'. sy_threads (hy_system h) i = Some (c, q)
          \<and> thread_run d u q (sy_service (hy_system h)) = Some (q', sv')
          \<and> h' = h\<lparr>hy_system := (hy_system h)\<lparr>sy_service := sv', sy_threads := (sy_threads (hy_system h))(i \<mapsto> (c, q')),
               sy_log := log_of d q (sy_service (hy_system h)) @ sy_log (hy_system h)\<rparr>\<rparr>)"

definition requests_kept :: "'w http_system \<Rightarrow> 'w http_system \<Rightarrow> bool" where
  "requests_kept h h' \<longleftrightarrow> dom (hy_requests h') = dom (hy_requests h)
     \<and> (\<forall>i q. hy_requests h i = Some q \<longrightarrow> (\<exists>q'. hy_requests h' i = Some q' \<and> hp_request q' = hp_request q))"

lemma requests_kept_refl [simp]: "requests_kept h h"
  by (simp add: requests_kept_def)

lemma requests_kept_trans: "requests_kept h h' \<Longrightarrow> requests_kept h' h'' \<Longrightarrow> requests_kept h h''"
  by (fastforce simp: requests_kept_def)

lemma drain_step_advances:
  assumes "drain_step d inspector u f fallback h h'" and "http_inv d h" and fin: "finitely_many h"
  shows "requests_kept h h' \<and> work_left h' < work_left h"
  using assms(1) unfolding drain_step_def
proof (elim disjE exE conjE)
  fix i
  assume "http_run d inspector u f fallback i h = Some h'"
  then obtain q q' where "hy_requests h i = Some q" "hy_requests h' = (hy_requests h)(i \<mapsto> q')"
    "hp_request q' = hp_request q" "work_left h' < work_left h"
    using http_run_advances assms(2,3) by blast
  then show ?thesis by (auto simp: requests_kept_def)
next
  fix i c q q' sv'
  assume a: "sy_threads (hy_system h) i = Some (c, q)" "thread_run d u q (sy_service (hy_system h)) = Some (q', sv')"
    "h' = h\<lparr>hy_system := (hy_system h)\<lparr>sy_service := sv', sy_threads := (sy_threads (hy_system h))(i \<mapsto> (c, q')),
               sy_log := log_of d q (sy_service (hy_system h)) @ sy_log (hy_system h)\<rparr>\<rparr>"
  show ?thesis
    using rank_sum_replace [of "sy_threads (hy_system h)", OF _ a(1), of "pc_rank \<circ> snd" "(c, q')"] thread_run_rank [OF a(2)] a(3) fin
    by (simp add: requests_kept_def work_left_def finitely_many_def)
qed

context inspected_service
begin

lemma drain_progress:
  assumes inv: "http_inv d h" and q: "hy_requests h i = Some q" "\<not> ended q"
  shows "\<exists>h'. drain_step d inspector u f fallback h h'"
proof -
  have go: ?thesis if "http_run d inspector u f fallback i h \<noteq> None"
    using that by (auto simp: drain_step_def)
  show ?thesis
  proof (cases q)
    case (Accepted r t)
    have log: "holds_newest (map snd (hy_done h)) (srv_recent (hy_server h))"
      using inv by (simp add: http_inv_def log_ok_def hy_server_def)
    have "answers_ok (mux (service_api d inspector u) f fallback r (new_recorder, new_state) (hy_server h))"
      if "handler_call (hy_bearerToken h) r = None"
      using mux_local_Ok [OF _ log] that by (simp add: hy_server_def)
    then show ?thesis using q Accepted
      by (intro go, cases "handler_call (hy_bearerToken h) r") (auto simp: http_run_def answers_ok_def)
  next
    case (InService r t c)
    have "place_ok h i (InService r t c)" using inv q InService unfolding http_inv_def by blast
    then obtain p where p: "sy_threads (hy_system h) i = Some (c, p)" "handler_call (hy_bearerToken h) r = Some c" by auto
    show ?thesis
    proof (cases "\<exists>reply. p = Returned reply")
      case True
      then obtain reply where r: "p = Returned reply" by blast
      obtain x where "mux (replay_api (service_api d inspector u) reply) f fallback r (new_recorder, new_state) (hy_server h)
          = Some (x, hy_server h)"
        using mux_reply [of "hy_server h" r c] p(2) by (fastforce simp: hy_server_def)
      then show ?thesis using q InService p(1) r by (intro go) (simp add: http_run_def)
    next
      case False
      have "system_inv d (hy_system h)" using inv by (simp add: http_inv_def)
      from system_progress [OF this p(1)] False show ?thesis unfolding drain_step_def by blast
    qed
  qed (use q in \<open>auto intro!: go simp: http_run_def\<close>)
qed

end

lemma drain_step_program:
  assumes "drain_step (stack_driver g (cf_I2CAddress cfg)) (InspectUSB g) u f fallback (pg_http p) h"
    and "\<not> exited (pg_place p)"
  shows "\<exists>log. program_step g u f fallback v cfg p (p\<lparr>pg_http := h, pg_log := log\<rparr>)"
  using assms(1) unfolding drain_step_def
proof (elim disjE exE conjE)
  fix i c q q' sv'
  assume a: "sy_threads (hy_system (pg_http p)) i = Some (c, q)"
    "thread_run (stack_driver g (cf_I2CAddress cfg)) u q (sy_service (hy_system (pg_http p))) = Some (q', sv')"
    "h = (pg_http p)\<lparr>hy_system := (hy_system (pg_http p))\<lparr>sy_service := sv',
       sy_threads := (sy_threads (hy_system (pg_http p)))(i \<mapsto> (c, q')),
       sy_log := log_of (stack_driver g (cf_I2CAddress cfg)) q (sy_service (hy_system (pg_http p)))
         @ sy_log (hy_system (pg_http p))\<rparr>\<rparr>"
  have "program_step g u f fallback v cfg p (p\<lparr>pg_http := h\<rparr>)"
    unfolding a(3)
    by (rule call_runs [OF assms(2) system_step.run [OF a(1,2)]]) (use a(1) thread_run_uses [OF a(2)] in auto)
  then show ?thesis by (intro exI [of _ "pg_log p"]) simp
qed (blast intro: handler_runs [OF assms(2)])

lemma program_drains:
  assumes "program_reach g u f fallback v args cfg p" and fit: "reads_fit g" and "\<not> exited (pg_place p)"
  shows "\<exists>p'. (program_step g u f fallback v cfg)\<^sup>*\<^sup>* p p' \<and> all_ended p' \<and> pg_place p' = pg_place p
     \<and> requests_kept (pg_http p) (pg_http p')"
  using assms(1,3)
proof (induction "work_left (pg_http p)" arbitrary: p rule: less_induct)
  case less
  let ?step = "program_step g u f fallback v cfg"
  have inv: "http_inv (stack_driver g (cf_I2CAddress cfg)) (pg_http p)"
    and reach: "http_reach (stack_driver g (cf_I2CAddress cfg)) (InspectUSB g) u f fallback (pg_http p)"
    using program_reach_inv [OF less.prems(1) fit] by (simp_all add: program_inv_def)
  show ?case
  proof (cases "all_ended p")
    case True
    then show ?thesis by (intro exI [of _ p]) simp
  next
    case False
    then obtain i q where "pg_requests p i = Some q" "\<not> ended q" by (auto simp: all_ended_def)
    then obtain h log where h: "drain_step (stack_driver g (cf_I2CAddress cfg)) (InspectUSB g) u f fallback (pg_http p) h"
      and step: "?step p (p\<lparr>pg_http := h, pg_log := log\<rparr>)"
      using stack_inspected.drain_progress [OF inv] drain_step_program less.prems(2) by metis
    let ?p = "p\<lparr>pg_http := h, pg_log := log\<rparr>"
    have adv: "requests_kept (pg_http p) (pg_http ?p)" "work_left (pg_http ?p) < work_left (pg_http p)" "\<not> exited (pg_place ?p)"
      using drain_step_advances [OF h inv http_reach_finite [OF reach]] less.prems(2) by simp_all
    from less.hyps [OF adv(2) program_continues [OF less.prems(1) step] adv(3)] obtain p' where
      "?step\<^sup>*\<^sup>* ?p p'" "all_ended p'" "pg_place p' = pg_place ?p" "requests_kept (pg_http ?p) (pg_http p')" by blast
    moreover from this have "?step\<^sup>*\<^sup>* p p'" using step by (meson converse_rtranclp_into_rtranclp)
    ultimately show ?thesis using requests_kept_trans [OF adv(1)] by auto
  qed
qed

lemma program_reach_steps:
  "(program_step g u f fallback v cfg)\<^sup>*\<^sup>* p p' \<Longrightarrow> program_reach g u f fallback v args cfg p \<Longrightarrow>
     program_reach g u f fallback v args cfg p'"
  by (induction rule: rtranclp_induct) (auto intro: program_continues)

section \<open>The way out\<close>

text \<open>The deadline of the shutdown that has begun, or that begins now.\<close>

definition shutdown_deadline :: "'u program \<Rightarrow> int" where
  "shutdown_deadline p =
     (case pg_place p of ShuttingDown deadline \<Rightarrow> deadline | _ \<Rightarrow> t_clock (pg_world p) + shutdownTimeout)"

lemma shutdown_begins:
  assumes "pg_place p = Selecting \<and> pg_signalled p \<or> pg_place p = ShuttingDown deadline"
  shows "\<exists>p'. (program_step g u f fallback v cfg)\<^sup>*\<^sup>* p p' \<and> pg_place p' = ShuttingDown (shutdown_deadline p)
     \<and> pg_http p' = pg_http p"
proof (cases "pg_place p = Selecting \<and> pg_signalled p")
  case True
  let ?p = "begin_shutdown (p\<lparr>pg_log := pg_log p @ [ShutdownRequested ContextCanceled]\<rparr>)"
  have "program_step g u f fallback v cfg p ?p"
    by (rule main_selects) (simp add: True select_signal_def)
  then have "(program_step g u f fallback v cfg)\<^sup>*\<^sup>* p ?p" by (rule r_into_rtranclp)
  moreover have "pg_http ?p = pg_http p" "pg_place ?p = ShuttingDown (shutdown_deadline p)"
    using True by (simp_all add: begin_shutdown_def shutdown_deadline_def)
  ultimately show ?thesis by blast
next
  case False
  then have "pg_place p = ShuttingDown (shutdown_deadline p)" using assms by (auto simp: shutdown_deadline_def)
  then show ?thesis by blast
qed

text \<open>After the return of \<^verbatim>\<open>run\<close>.\<close>

lemma run_ends:
  assumes "pg_place p = Returning r"
  shows "\<exists>p'. (program_step g u f fallback v cfg)\<^sup>*\<^sup>* p p' \<and> pg_place p' = Exited (exit_code r)
     \<and> pg_log p' = pg_log p \<and> pg_requests p' = pg_requests p"
proof -
  let ?step = "program_step g u f fallback v cfg"
  define p1 where "p1 = set_world (snd (Close g (pg_world p))) (p\<lparr>pg_place := TransportClosed r\<rparr>)"
  have "?step p p1" by (rule main_ends) (simp add: close_transport_def p1_def assms)
  moreover have "?step p1 (p1\<lparr>pg_place := Exited (exit_code r)\<rparr>)"
    by (rule main_ends) (simp add: main_returns_def p1_def set_world_def)
  ultimately have "?step\<^sup>*\<^sup>* p (p1\<lparr>pg_place := Exited (exit_code r)\<rparr>)"
    by (meson converse_rtranclp_into_rtranclp r_into_rtranclp)
  then show ?thesis by (intro exI [of _ "p1\<lparr>pg_place := Exited (exit_code r)\<rparr>"]) (simp add: p1_def set_world_def)
qed

lemma shutdown_completes:
  assumes "pg_place p = ShuttingDown deadline" and "all_ended p" and "t_clock (pg_world p) \<le> deadline"
  shows "\<exists>p'. (program_step g u f fallback v cfg)\<^sup>*\<^sup>* p p' \<and> pg_place p' = Exited 0 \<and> pg_requests p' = pg_requests p"
proof -
  let ?step = "program_step g u f fallback v cfg"
  let ?p1 = "p\<lparr>pg_place := Returning (Ok ()), pg_log := pg_log p @ [ServerStoppedRecord]\<rparr>"
  have s: "?step p ?p1"
    by (rule main_shutdown [of None]) (use assms in \<open>simp_all add: shutdown_returns_def shutdown_may_return_def\<close>)
  obtain p' where "?step\<^sup>*\<^sup>* ?p1 p'" "pg_place p' = Exited 0" "pg_requests p' = pg_requests ?p1"
    using run_ends [of ?p1 "Ok ()" g u f fallback v cfg] by auto
  then show ?thesis using converse_rtranclp_into_rtranclp [of ?step, OF s] by auto
qed

lemma shutdown_gives_up:
  assumes "pg_place p = ShuttingDown deadline" and "deadline \<le> t_clock (pg_world p)"
  shows "\<exists>p'. (program_step g u f fallback v cfg)\<^sup>*\<^sup>* p p' \<and> pg_place p' = Exited 1 \<and> pg_requests p' = pg_requests p"
proof -
  let ?step = "program_step g u f fallback v cfg"
  let ?r = "Err (init_error ''graceful shutdown'' ContextDeadlineExceeded) :: unit result"
  let ?p1 = "p\<lparr>pg_place := Returning ?r\<rparr>"
  have s: "?step p ?p1"
    by (rule main_shutdown [of "Some ContextDeadlineExceeded"])
       (use assms in \<open>simp_all add: shutdown_returns_def shutdown_may_return_def\<close>)
  obtain p' where "?step\<^sup>*\<^sup>* ?p1 p'" "pg_place p' = Exited 1" "pg_requests p' = pg_requests ?p1"
    using run_ends [of ?p1 ?r g u f fallback v cfg] by auto
  then show ?thesis using converse_rtranclp_into_rtranclp [of ?step, OF s] by auto
qed

text \<open>Time passes whatever the requests do.\<close>

lemma time_passes:
  assumes "\<not> exited (pg_place p)"
  shows "\<exists>p'. program_step g u f fallback v cfg p p' \<and> deadline \<le> t_clock (pg_world p')
     \<and> pg_place p' = pg_place p \<and> pg_requests p' = pg_requests p"
proof -
  define w where "w = ch341_sleep g (max 0 (deadline - t_clock (pg_world p))) (pg_world p)"
  let ?s = "(hy_system (pg_http p))\<lparr>sy_service := (sy_service (hy_system (pg_http p)))\<lparr>sv_world := w\<rparr>\<rparr>"
  have w: "t_clock (pg_world p) \<le> t_clock w" "deadline \<le> t_clock w"
    using ch341_sleep_clock [of "pg_world p" "max 0 (deadline - t_clock (pg_world p))" g] by (simp_all add: w_def)
  have "program_step g u f fallback v cfg p (p\<lparr>pg_http := (pg_http p)\<lparr>hy_system := ?s\<rparr>\<rparr>)"
    by (rule call_runs [OF assms system_step.environment]) (use w in \<open>auto simp: w_def intro: use_sleep\<close>)
  then show ?thesis using w by (intro exI [of _ "p\<lparr>pg_http := (pg_http p)\<lparr>hy_system := ?s\<rparr>\<rparr>"]) simp
qed

text \<open>Once the deadline has passed, only a failed shutdown is left.\<close>

fun late_place :: "int \<Rightarrow> run_place \<Rightarrow> bool" where
  "late_place now Selecting \<longleftrightarrow> False"
| "late_place now (ShuttingDown deadline) \<longleftrightarrow> deadline < now"
| "late_place now (Returning r) \<longleftrightarrow> (\<exists>e. r = Err e)"
| "late_place now (TransportClosed r) \<longleftrightarrow> (\<exists>e. r = Err e)"
| "late_place now (Exited c) \<longleftrightarrow> c = 1"

lemma late_place_mono: "late_place now place \<Longrightarrow> now \<le> now' \<Longrightarrow> late_place now' place"
  by (cases place) auto

lemma program_step_clock:
  assumes "program_step g u f fallback v cfg p p'" and wf: "ch341_wf (pg_world p)"
  shows "t_clock (pg_world p) \<le> t_clock (pg_world p')"
  using assms(1)
proof cases
  case (handler_runs i h)
  then show ?thesis using transport_uses_extends [OF http_run_uses wf] by (auto simp: t_extends_def)
next
  case (call_runs s)
  then show ?thesis using transport_uses_extends [OF _ wf] by (auto simp: t_extends_def)
next
  case main_ends
  then show ?thesis
    using Close_state [OF prod.collapse [symmetric] wf, of g]
    by (auto simp: close_transport_def main_returns_def set_world_def split: run_place.splits)
qed (auto simp: goroutines at_place_def
    split: if_splits run_place.splits server_place.splits option.splits probe_place.splits prod.splits pc.splits result.splits)

lemma program_step_late:
  assumes step: "program_step g u f fallback v cfg p p'" and inv: "program_inv g cfg p"
    and late: "late_place (t_clock (pg_world p)) (pg_place p)"
  shows "late_place (t_clock (pg_world p')) (pg_place p')"
proof -
  have wf: "ch341_wf (pg_world p)" using inv ch341_reach_wf by (auto simp: program_inv_def world_ok_def)
  have same: ?thesis if "pg_place p' = pg_place p"
    using late_place_mono [OF late program_step_clock [OF step wf]] that by simp
  from step show ?thesis
  proof cases
    case (probe_runs i)
    then have "pg_place p' = pg_place p"
      using probe_reports_fine [OF inv] by (auto simp: probe_begins_def split: if_splits)
    then show ?thesis by (rule same)
  qed (use late same in \<open>auto simp: goroutines shutdown_may_return_def set_world_def
      split: if_splits run_place.splits server_place.splits option.splits\<close>)
qed

lemma late_exit:
  assumes "program_reach g u f fallback v args cfg p" and "reads_fit g"
    and "late_place (t_clock (pg_world p)) (pg_place p)"
  shows "(program_step g u f fallback v cfg)\<^sup>*\<^sup>* p p' \<Longrightarrow> late_place (t_clock (pg_world p')) (pg_place p')"
proof (induction rule: rtranclp_induct)
  case (step p1 p2)
  have "program_inv g cfg p1"
    using program_reach_inv [OF program_reach_steps [OF step(1) assms(1)] assms(2)] by simp
  then show ?case using program_step_late step by blast
qed (rule assms(3))

section \<open>Properties\<close>

text \<open>A program with the default configuration, on a device that answers, that has accepted a request
  and received a signal.\<close>

definition default_config :: Config where
  "default_config = \<lparr>cf_HTTPAddr = '':8972'', cf_BearerToken = [],
     cf_USBIDs = [\<lparr>Vendor = 0x1a86, Product = 0x5512\<rparr>], cf_I2CAddress = 0x11, cf_I2CSpeedKHz = 100,
     cf_LogLevel = LevelInfo, cf_LogFormat = ''json'', cf_RecentCapacity = 20\<rparr>"

lemma Parse_default_config: "Parse [] = Inr (Some default_config)"
  by (simp add: Parse_defaults default_config_def)

abbreviation sim_reach :: "sim program \<Rightarrow> bool" where
  "sim_reach \<equiv> program_reach sim_gousb (\<lambda>_. True) test_format (\<lambda>r w. w) ver_unset [] default_config"

lemma sim_accepts: "\<exists>p. main_starts sim_gousb (\<lambda>_. True) [] 0 ([], []) = Inr (default_config, p)
     \<and> pg_world p = sim_start \<and> pg_place p = Selecting \<and> pg_server p = ServerStarting \<and> \<not> pg_signalled p
     \<and> pg_requests p = (\<lambda>_. None) \<and> sy_threads (hy_system (pg_http p)) = (\<lambda>_. None)"
proof -
  have new: "NewCh341 (cf_USBIDs default_config) (cf_I2CSpeedKHz default_config) 0 ([], []) = Ok sim_start"
    using sim_start_new by (simp add: default_config_def)
  obtain srv where srv: "start_service sim_gousb (\<lambda>_. True) default_config sim_start = Ok srv"
    "sv_world (srv_service srv) = sim_start"
    using start_service_Ok [of default_config sim_gousb sim_start "\<lambda>_. True"] ch341_reach.reach_new [OF new]
    by (auto simp: default_config_def)
  then show ?thesis
    by (auto simp: main_starts_def run_starts_def Parse_default_config new program_new_def http_start_def system_start_def)
qed

abbreviation sim_step :: "sim program \<Rightarrow> sim program \<Rightarrow> bool" where
  "sim_step \<equiv> program_step sim_gousb (\<lambda>_. True) test_format (\<lambda>r w. w) ver_unset default_config"

text \<open>The server is running and has accepted a request.\<close>

lemma sim_serving:
  "\<exists>p. sim_reach p \<and> pg_place p = Selecting \<and> pg_server p = Serving \<and> \<not> pg_signalled p
     \<and> pg_requests p 0 = Some (Accepted test_request 0)"
proof -
  obtain p0 where p0: "main_starts sim_gousb (\<lambda>_. True) [] 0 ([], []) = Inr (default_config, p0)"
    "pg_world p0 = sim_start" "pg_place p0 = Selecting" "pg_server p0 = ServerStarting"
    "pg_requests p0 = (\<lambda>_. None)" "sy_threads (hy_system (pg_http p0)) = (\<lambda>_. None)" "\<not> pg_signalled p0"
    using sim_accepts by blast
  let ?p1 = "p0\<lparr>pg_server := Serving, pg_log := pg_log p0 @ [server_start ver_unset default_config]\<rparr>"
  let ?p2 = "?p1\<lparr>pg_http := at_place 0 (Accepted test_request 0) (pg_http ?p1)\<rparr>"
  have "sim_step p0 ?p1" by (rule server_runs) (simp_all add: p0(3,4) server_begins_def)
  moreover have "sim_step ?p1 ?p2"
    using handler_starts [of ?p1 0 sim_gousb "\<lambda>_. True" test_format "\<lambda>r w. w" ver_unset default_config test_request]
    by (simp add: p0(2,3,5,6)) (simp add: sim_start_def)
  ultimately have "sim_reach ?p2"
    using program_begins [OF p0(1)] by (blast intro: program_continues)
  then show ?thesis by (rule exI [of _ ?p2, OF conjI]) (simp add: p0(3,7) at_place_def)
qed

text \<open>The request has been answered and a signal has arrived.\<close>

lemma sim_signalled:
  "\<exists>p q. sim_reach p \<and> pg_place p = Selecting \<and> pg_signalled p \<and> all_ended p
     \<and> pg_requests p 0 = Some q \<and> hp_request q = test_request"
proof -
  obtain p where p: "sim_reach p" "pg_place p = Selecting" "pg_requests p 0 = Some (Accepted test_request 0)"
    using sim_serving by blast
  have "\<not> exited (pg_place p)" by (simp add: p(2))
  from program_drains [OF p(1) sim_reads_fit this] obtain p1 where p1: "sim_step\<^sup>*\<^sup>* p p1" "all_ended p1"
    "pg_place p1 = Selecting" "requests_kept (pg_http p) (pg_http p1)" by (auto simp: p(2))
  obtain q where q: "pg_requests p1 0 = Some q" "hp_request q = test_request"
    using p1(4) p(3) unfolding requests_kept_def by fastforce
  have "sim_step p1 (p1\<lparr>pg_signalled := True\<rparr>)" by (rule signal_arrives) (simp add: p1(3))
  from program_continues [OF program_reach_steps [OF p1(1) p(1)] this]
  show ?thesis using p1(2,3) q
    by (intro exI [of _ "p1\<lparr>pg_signalled := True\<rparr>"] exI [of _ q]) (simp add: all_ended_def)
qed

lemma sim_stopped:
  "\<exists>p q. sim_reach p \<and> pg_place p = Exited 0 \<and> pg_requests p 0 = Some q \<and> hp_request q = test_request"
proof -
  obtain p q where p: "sim_reach p" "pg_place p = Selecting" "pg_signalled p" "all_ended p"
    and q: "pg_requests p 0 = Some q" "hp_request q = test_request"
    using sim_signalled by blast
  obtain p1 where p1: "sim_step\<^sup>*\<^sup>* p p1" "pg_place p1 = ShuttingDown (shutdown_deadline p)" "pg_http p1 = pg_http p"
    using shutdown_begins [OF disjI1 [OF conjI [OF p(2,3)]]] by blast
  have "all_ended p1" "t_clock (pg_world p1) \<le> shutdown_deadline p"
    using p(2,4) p1(3) by (simp_all add: all_ended_def shutdown_deadline_def mfi_consts)
  from shutdown_completes [where g = sim_gousb and u = "\<lambda>_. True" and f = test_format and fallback = "\<lambda>r w. w"
      and v = ver_unset and cfg = default_config, OF p1(2) this] obtain p' where
    "sim_step\<^sup>*\<^sup>* p1 p'" "pg_place p' = Exited 0" "pg_requests p' = pg_requests p1" by auto
  with program_reach_steps [OF _ program_reach_steps [OF p1(1) p(1)], of p'] q p1(3) show ?thesis
    by (intro exI [of _ p'] exI [of _ q]) auto
qed

text \<open>C16. The life of the program, in every interleaving of the main goroutine, the server, the probe,
  the handlers and the service calls: it behaves as the concurrent HTTP system, no handler
  panics, and the transport is open exactly until \<^verbatim>\<open>run\<close> has closed it on its way out, so no request
  fails because of the shutdown before that. When \<^verbatim>\<open>run\<close> returns without an error, which is when
  \<^verbatim>\<open>server_stopped\<close> is logged, every request has been answered. The process ends with code 0 in that case
  and with code 1 in every other, and the transport is then closed and without a session. The log has
  an \<^verbatim>\<open>http_request\<close> record with the answered status for every request that is finished, and for no other.\<close>

theorem program_lifecycle:
  assumes "program_reach g uuid_ok f fallback v args cfg p" and "reads_fit g"
  shows "http_reach (stack_driver g (cf_I2CAddress cfg)) (InspectUSB g) uuid_ok f fallback (pg_http p)
     \<and> (\<forall>i r. pg_requests p i \<noteq> Some (Crashed r))
     \<and> (t_closed (pg_world p) \<longleftrightarrow> (\<exists>r. pg_place p = TransportClosed r) \<or> (\<exists>c. pg_place p = Exited c))
     \<and> (ServerStoppedRecord \<in> set (pg_log p) \<longleftrightarrow>
          pg_place p = Returning (Ok ()) \<or> pg_place p = TransportClosed (Ok ()) \<or> pg_place p = Exited 0)
     \<and> (ServerStoppedRecord \<in> set (pg_log p) \<longrightarrow>
          (\<forall>i q. pg_requests p i = Some q \<longrightarrow> (\<exists>w. q = Finished (hp_request q) w)))
     \<and> (\<forall>c. pg_place p = Exited c \<longrightarrow> c \<le> 1 \<and> t_session (pg_world p) = None)
     \<and> (\<forall>i r w. pg_requests p i = Some (Finished r w) \<longrightarrow>
          (\<exists>st duration. HttpRequest (http_request_record r w st duration) \<in> set (pg_log p)))
     \<and> (\<forall>rec. HttpRequest rec \<in> set (pg_log p) \<longrightarrow>
          (\<exists>i r w st duration. pg_requests p i = Some (Finished r w) \<and> rec = http_request_record r w st duration))"
proof -
  have R: "http_reach (stack_driver g (cf_I2CAddress cfg)) (InspectUSB g) uuid_ok f fallback (pg_http p)"
    and I: "program_inv g cfg p" using program_reach_inv [OF assms] by simp_all
  have crash: "\<forall>i r. pg_requests p i \<noteq> Some (Crashed r)" using I by (simp add: program_inv_def none_crashed_def)
  have closed: "t_closed (pg_world p) \<longleftrightarrow> closed_place (pg_place p)" and m: "main_ok p" and l: "logs_ok p"
    using I by (simp_all add: program_inv_def world_ok_def)
  have wf: "ch341_wf (pg_world p)" using I ch341_reach_wf by (auto simp: program_inv_def world_ok_def)
  have "\<exists>w. q = Finished (hp_request q) w" if "clean (pg_place p)" "pg_requests p i = Some q" for i q
  proof -
    have "ended q" using m that by (simp add: main_ok_def all_ended_def)
    then show ?thesis using crash that(2) by (cases q) auto
  qed
  moreover have "c \<le> 1 \<and> t_session (pg_world p) = None" if "pg_place p = Exited c" for c
    using that m closed wf by (auto simp: main_ok_def ch341_wf_def)
  moreover have "clean (pg_place p) \<longleftrightarrow>
      pg_place p = Returning (Ok ()) \<or> pg_place p = TransportClosed (Ok ()) \<or> pg_place p = Exited 0"
    by (cases "pg_place p") auto
  moreover have "closed_place (pg_place p) \<longleftrightarrow> (\<exists>r. pg_place p = TransportClosed r) \<or> (\<exists>c. pg_place p = Exited c)"
    by (cases "pg_place p") auto
  ultimately show ?thesis using R crash closed m l unfolding main_ok_def logs_ok_def by blast
qed

theorem program_lifecycle_witness:
  "\<exists>p w. sim_reach p \<and> pg_place p = Exited 0 \<and> t_closed (pg_world p) \<and> t_session (pg_world p) = None
     \<and> ServerStoppedRecord \<in> set (pg_log p) \<and> pg_requests p 0 = Some (Finished test_request w)"
proof -
  obtain p q where p: "sim_reach p" "pg_place p = Exited 0" "pg_requests p 0 = Some q" "hp_request q = test_request"
    using sim_stopped by blast
  from program_lifecycle [OF p(1) sim_reads_fit] p(2) have
    "t_closed (pg_world p)" "t_session (pg_world p) = None" "ServerStoppedRecord \<in> set (pg_log p)"
    "\<exists>w. q = Finished (hp_request q) w" using p(3) by blast+
  with p show ?thesis by auto
qed

text \<open>C18. A graceful shutdown. From every state in which a signal has arrived, or the shutdown has
  begun, the requests in flight, and the calls they wait for, can run to their end without any
  help from outside, each with an answer; the process then ends with the transport closed, and
  with exit code 0 and \<^verbatim>\<open>server_stopped\<close> in the log exactly if the requests were done by the
  deadline, ten seconds after the signal; otherwise with code 1. If all requests are done already,
  it ends with code 0. Requests that hang do not keep the process alive: without any progress of
  theirs it ends with code 1. And if the deadline has passed while \<^verbatim>\<open>Shutdown\<close> was waiting, it
  ends with code 1 on every path.\<close>

theorem shutdown_drains:
  assumes "program_reach g uuid_ok f fallback v args cfg p" and "reads_fit g"
    and "pg_place p = Selecting \<and> pg_signalled p \<or> pg_place p = ShuttingDown deadline"
  shows "(\<exists>p2 p'. (program_step g uuid_ok f fallback v cfg)\<^sup>*\<^sup>* p p2
        \<and> pg_place p2 = ShuttingDown (shutdown_deadline p) \<and> dom (pg_requests p2) = dom (pg_requests p)
        \<and> (\<forall>i q. pg_requests p i = Some q \<longrightarrow> (\<exists>w. pg_requests p2 i = Some (Finished (hp_request q) w)))
        \<and> (program_step g uuid_ok f fallback v cfg)\<^sup>*\<^sup>* p2 p'
        \<and> pg_place p' = Exited (if t_clock (pg_world p2) \<le> shutdown_deadline p then 0 else 1)
        \<and> (ServerStoppedRecord \<in> set (pg_log p') \<longleftrightarrow> t_clock (pg_world p2) \<le> shutdown_deadline p)
        \<and> pg_requests p' = pg_requests p2 \<and> t_closed (pg_world p'))
     \<and> (all_ended p \<and> t_clock (pg_world p) \<le> shutdown_deadline p \<longrightarrow>
          (\<exists>p'. (program_step g uuid_ok f fallback v cfg)\<^sup>*\<^sup>* p p' \<and> pg_place p' = Exited 0 \<and> t_closed (pg_world p')))
     \<and> (\<exists>p'. (program_step g uuid_ok f fallback v cfg)\<^sup>*\<^sup>* p p' \<and> pg_place p' = Exited 1
          \<and> pg_requests p' = pg_requests p \<and> t_closed (pg_world p'))
     \<and> (shutdown_deadline p < t_clock (pg_world p) \<longrightarrow>
          (\<forall>p' c. (program_step g uuid_ok f fallback v cfg)\<^sup>*\<^sup>* p p' \<and> pg_place p' = Exited c \<longrightarrow> c = 1))"
    (is "?drains \<and> (_ \<longrightarrow> ?idle) \<and> ?hangs \<and> (_ \<longrightarrow> ?late)")
proof -
  let ?step = "program_step g uuid_ok f fallback v cfg"
  obtain p1 where p1: "?step\<^sup>*\<^sup>* p p1" "pg_place p1 = ShuttingDown (shutdown_deadline p)" "pg_http p1 = pg_http p"
    using shutdown_begins [OF assms(3)] by blast
  note r1 = program_reach_steps [OF p1(1) assms(1)]
  note completes = shutdown_completes [where g = g and u = uuid_ok and f = f and fallback = fallback and v = v and cfg = cfg]
    and gives_up = shutdown_gives_up [where g = g and u = uuid_ok and f = f and fallback = fallback and v = v and cfg = cfg]
  have ends: "t_closed (pg_world p')" "ServerStoppedRecord \<in> set (pg_log p') \<longleftrightarrow> c = 0"
    if "?step\<^sup>*\<^sup>* p p'" "pg_place p' = Exited c" for p' c
    using program_reach_inv [OF program_reach_steps [OF that(1) assms(1)] assms(2)] that(2)
    by (simp_all add: program_inv_def world_ok_def main_ok_def)
  obtain p2 where p2: "?step\<^sup>*\<^sup>* p1 p2" "all_ended p2" "pg_place p2 = ShuttingDown (shutdown_deadline p)"
    "requests_kept (pg_http p1) (pg_http p2)"
    using program_drains [OF r1 assms(2)] p1(2) by auto
  obtain p' where p': "?step\<^sup>*\<^sup>* p2 p'" "pg_requests p' = pg_requests p2"
    "pg_place p' = Exited (if t_clock (pg_world p2) \<le> shutdown_deadline p then 0 else 1)"
    using completes [OF p2(3,2)] gives_up [OF p2(3)]
    by (cases "t_clock (pg_world p2) \<le> shutdown_deadline p") auto
  have path: "?step\<^sup>*\<^sup>* p p2" "?step\<^sup>*\<^sup>* p p'" using p1(1) p2(1) p'(1) by (meson rtranclp_trans)+
  have I: "program_inv g cfg p2"
    using program_reach_inv [OF program_reach_steps [OF path(1) assms(1)] assms(2)] by simp
  have "\<exists>w. pg_requests p2 i = Some (Finished (hp_request q) w)" if q: "pg_requests p i = Some q" for i q
  proof -
    obtain q' where q': "pg_requests p2 i = Some q'" "hp_request q' = hp_request q"
      using p2(4) [unfolded p1(3)] q unfolding requests_kept_def by blast
    have "ended q'" using p2(2) q'(1) by (simp add: all_ended_def)
    moreover have "\<And>r. q' \<noteq> Crashed r" using I q'(1) by (auto simp: program_inv_def none_crashed_def)
    ultimately show ?thesis using q' by (cases q') simp_all
  qed
  moreover have "dom (pg_requests p2) = dom (pg_requests p)" using p2(4) p1(3) by (simp add: requests_kept_def)
  ultimately have ?drains
    using path(1) p2(3) p' ends [OF path(2) p'(3)] by (intro exI [of _ p2] exI [of _ p']) simp
  moreover have ?idle if done_now: "all_ended p \<and> t_clock (pg_world p) \<le> shutdown_deadline p"
  proof -
    obtain p3 where "?step\<^sup>*\<^sup>* p1 p3" "pg_place p3 = Exited 0"
      using completes [OF p1(2)] done_now p1(3) by (auto simp: all_ended_def)
    with ends(1) p1(1) show ?thesis by (meson rtranclp_trans)
  qed
  moreover have ?hangs
  proof -
    have "\<not> exited (pg_place p1)" by (simp add: p1(2))
    then obtain p3 where p3: "?step p1 p3" "shutdown_deadline p \<le> t_clock (pg_world p3)"
      "pg_place p3 = ShuttingDown (shutdown_deadline p)" "pg_requests p3 = pg_requests p1"
      using time_passes p1(2) by metis
    obtain p4 where p4: "?step\<^sup>*\<^sup>* p3 p4" "pg_place p4 = Exited 1" "pg_requests p4 = pg_requests p3"
      using gives_up [OF p3(3,2)] by blast
    have "?step\<^sup>*\<^sup>* p p4" using p1(1) p3(1) p4(1) by (meson rtranclp.rtrancl_into_rtrancl rtranclp_trans)
    then show ?thesis using p4(2,3) p3(4) p1(3) ends(1) by metis
  qed
  moreover have ?late if "shutdown_deadline p < t_clock (pg_world p)"
  proof -
    have "late_place (t_clock (pg_world p)) (pg_place p)"
      using that assms(3) by (auto simp: shutdown_deadline_def mfi_consts)
    from late_exit [OF assms(1,2) this] show ?thesis by fastforce
  qed
  ultimately show ?thesis by blast
qed

theorem shutdown_drains_witness:
  "\<exists>p p' p''. sim_reach p \<and> pg_place p = Selecting \<and> pg_signalled p
     \<and> sim_step\<^sup>*\<^sup>* p p' \<and> pg_place p' = Exited 0 \<and> t_closed (pg_world p')
     \<and> sim_step\<^sup>*\<^sup>* p p'' \<and> pg_place p'' = Exited 1 \<and> pg_requests p'' = pg_requests p"
proof -
  obtain p q where p: "sim_reach p" "pg_place p = Selecting" "pg_signalled p" "all_ended p"
    using sim_signalled by blast
  have "t_clock (pg_world p) \<le> shutdown_deadline p" by (simp add: shutdown_deadline_def p(2) mfi_consts)
  with shutdown_drains [OF p(1) sim_reads_fit, of 0] p show ?thesis by blast
qed

section \<open>Why the program ends\<close>

text \<open>A shutdown is orderly after a signal, or when the server has stopped without an error.\<close>

definition orderly :: "'u program \<Rightarrow> bool" where
  "orderly p \<longleftrightarrow> pg_signalled p \<or> pg_server p = ServerReturned None"

definition result_reason :: "'u program \<Rightarrow> unit result \<Rightarrow> bool" where
  "result_reason p r \<longleftrightarrow> r = Ok () \<and> orderly p
     \<or> (\<exists>e. r = Err (init_error ''HTTP server'' e) \<and> pg_server p = ServerReturned (Some e))
     \<or> (\<exists>e. r = Err (init_error ''graceful shutdown'' e) \<and> orderly p)"

fun place_reason :: "'u program \<Rightarrow> run_place \<Rightarrow> bool" where
  "place_reason p Selecting \<longleftrightarrow> True"
| "place_reason p (ShuttingDown deadline) \<longleftrightarrow> orderly p"
| "place_reason p (Returning r) \<longleftrightarrow> result_reason p r"
| "place_reason p (TransportClosed r) \<longleftrightarrow> result_reason p r"
| "place_reason p (Exited c) \<longleftrightarrow> (\<exists>r. result_reason p r \<and> c = exit_code r)"

definition server_reason :: "'u program \<Rightarrow> bool" where
  "server_reason p \<longleftrightarrow> (\<forall>e. pg_server p = ServerReturned (Some e) \<longrightarrow> \<not> errors_Is e http_ErrServerClosed)"

lemma result_reason_same:
  "pg_signalled p' = pg_signalled p \<Longrightarrow> pg_server p' = pg_server p \<Longrightarrow> result_reason p' = result_reason p"
  by (intro ext) (simp add: result_reason_def orderly_def)

lemma place_reason_mono:
  assumes "place_reason p place" and "orderly p \<Longrightarrow> orderly p'"
    and "\<And>e. pg_server p = ServerReturned (Some e) \<Longrightarrow> pg_server p' = ServerReturned (Some e)"
  shows "place_reason p' place"
  using assms by (cases place) (auto simp: result_reason_def)

lemma program_step_reason:
  assumes step: "program_step g u f fallback v cfg p p'" and inv: "program_inv g cfg p"
    and r: "place_reason p (pg_place p)" "server_reason p"
  shows "place_reason p' (pg_place p') \<and> server_reason p'"
proof -
  have same: ?thesis if "pg_place p' = pg_place p" "pg_server p' = pg_server p" "pg_signalled p \<Longrightarrow> pg_signalled p'"
    using place_reason_mono [OF r(1), of p'] r(2) that by (auto simp: orderly_def server_reason_def)
  from step show ?thesis
  proof cases
    case (probe_runs i)
    then show ?thesis
      using probe_reports_fine [OF inv] by (intro same) (auto simp: probe_begins_def split: if_splits)
  next
    case (server_runs err)
    then have p': "pg_place p' = pg_place p" "pg_signalled p' = pg_signalled p" "server_reason p'"
      "\<And>x. pg_server p \<noteq> ServerReturned x"
      by (auto simp: goroutines server_reason_def split: if_splits option.splits)
    then show ?thesis using place_reason_mono [OF r(1), of p'] by (auto simp: orderly_def)
  next
    case main_selects
    then show ?thesis
      using r by (auto simp: goroutines orderly_def result_reason_def server_reason_def
          split: if_splits run_place.splits server_place.splits option.splits)
  next
    case (main_shutdown err)
    then show ?thesis
      using r by (auto simp: goroutines orderly_def result_reason_def server_reason_def
          split: run_place.splits option.splits)
  next
    case main_ends
    then show ?thesis
      using r result_reason_same [of p' p]
      by (auto simp: close_transport_def main_returns_def server_reason_def set_world_def split: run_place.splits)
  qed (use same in auto)
qed

lemma program_reach_reason:
  assumes "program_reach g u f fallback v args cfg p" and "reads_fit g"
  shows "place_reason p (pg_place p) \<and> server_reason p"
  using assms(1)
proof (induction rule: program_reach.induct)
  case (program_begins now usb p)
  then obtain srv where "p = program_new cfg srv" by (rule main_starts_Inr)
  then show ?case by (simp add: program_new_def server_reason_def)
next
  case (program_continues p p')
  then show ?case using program_step_reason program_reach_inv [OF program_continues(1) assms(2)] by blast
qed

lemma server_failure_exits:
  assumes "pg_server p = ServerReturned (Some e)" and "place_reason p (pg_place p)" and "\<not> orderly p"
  shows "\<exists>p'. (program_step g u f fallback v cfg)\<^sup>*\<^sup>* p p' \<and> pg_place p' = Exited 1"
proof (cases "pg_place p")
  case Selecting
  let ?p = "p\<lparr>pg_place := Returning (Err (init_error ''HTTP server'' e))\<rparr>"
  have "program_step g u f fallback v cfg p ?p"
    by (rule main_selects) (simp add: select_server_def Selecting assms(1))
  moreover obtain p' where "(program_step g u f fallback v cfg)\<^sup>*\<^sup>* ?p p'" "pg_place p' = Exited 1"
    using run_ends [of ?p "Err (init_error ''HTTP server'' e)" g u f fallback v cfg] by auto
  ultimately show ?thesis by (meson converse_rtranclp_into_rtranclp)
next
  case (Returning r)
  with assms have "exit_code r = 1" by (auto simp: result_reason_def)
  with run_ends [OF Returning] show ?thesis by metis
next
  case (TransportClosed r)
  with assms have "exit_code r = 1" by (auto simp: result_reason_def)
  moreover have "program_step g u f fallback v cfg p (p\<lparr>pg_place := Exited (exit_code r)\<rparr>)"
    by (rule main_ends) (simp add: main_returns_def TransportClosed)
  ultimately show ?thesis by (intro exI [of _ "p\<lparr>pg_place := Exited 1\<rparr>"]) auto
next
  case (Exited c)
  with assms have "c = 1" by (auto simp: result_reason_def)
  with Exited show ?thesis by blast
qed (use assms in simp)

text \<open>The server of the simulated program cannot listen.\<close>

lemma sim_fails:
  "\<exists>p. sim_reach p \<and> pg_server p = ServerReturned (Some (ErrorString ''bind'')) \<and> \<not> pg_signalled p"
proof -
  obtain p where p: "sim_reach p" "pg_place p = Selecting" "pg_server p = Serving" "\<not> pg_signalled p"
    using sim_serving by blast
  let ?p = "p\<lparr>pg_server := ServerReturned (Some (ErrorString ''bind''))\<rparr>"
  have "sim_step p ?p"
    by (rule server_runs [of _ _ _ _ "Some (ErrorString ''bind'')"])
       (simp_all add: p server_returns_def http_ErrServerClosed_def errors_Is_def)
  from program_continues [OF p(1) this] p(4) show ?thesis by (intro exI [of _ ?p]) simp
qed

text \<open>C40. Why the program ends, and with which code. Without a running program: code 2 for a command
  line that is rejected, 0 for help and version; an accepted one always starts. \<^verbatim>\<open>run\<close> returns
  without an error only after a signal, or when the server has stopped by itself without an error; with the
  error of the server only if the server has failed with it; or with the error of
  the shutdown, which follows a signal or such a stop. The exit code is 0 in the first case and 1 in the others. So
  when the server fails, with another error than \<^verbatim>\<open>ErrServerClosed\<close>, and no signal has arrived, the
  program can only end with code 1, and it can always do so, with the transport closed.\<close>

theorem program_exit_reasons:
  assumes "reads_fit g"
  shows "(\<forall>c. main_starts g uuid_ok args now usb = Inl c \<longrightarrow>
        c = 0 \<and> (Parse args = Inl FlagHelp \<or> Parse args = Inr None)
        \<or> c = 2 \<and> (\<exists>e. Parse args = Inl e \<and> e \<noteq> FlagHelp))
     \<and> (\<forall>cfg p. program_reach g uuid_ok f fallback v args cfg p \<longrightarrow>
        (\<forall>r. pg_place p = Returning r \<or> pg_place p = TransportClosed r \<longrightarrow>
           r = Ok () \<and> (pg_signalled p \<or> pg_server p = ServerReturned None)
           \<or> (\<exists>e. r = Err (init_error ''HTTP server'' e) \<and> pg_server p = ServerReturned (Some e))
           \<or> (\<exists>e. r = Err (init_error ''graceful shutdown'' e) \<and> (pg_signalled p \<or> pg_server p = ServerReturned None)))
        \<and> (\<forall>c. pg_place p = Exited c \<longrightarrow>
             c = 0 \<and> (pg_signalled p \<or> pg_server p = ServerReturned None)
             \<or> c = 1 \<and> (pg_signalled p \<or> (\<exists>err. pg_server p = ServerReturned err)))
        \<and> (\<forall>e. pg_server p = ServerReturned (Some e) \<longrightarrow> \<not> errors_Is e http_ErrServerClosed)
        \<and> (\<forall>e. pg_server p = ServerReturned (Some e) \<and> \<not> pg_signalled p \<longrightarrow>
             (\<exists>p'. (program_step g uuid_ok f fallback v cfg)\<^sup>*\<^sup>* p p' \<and> pg_place p' = Exited 1
                \<and> t_closed (pg_world p'))))"
proof (intro conjI allI impI)
  fix c assume "main_starts g uuid_ok args now usb = Inl c"
  with main_starts_accepted [of args _ g uuid_ok now usb]
  show "c = 0 \<and> (Parse args = Inl FlagHelp \<or> Parse args = Inr None)
      \<or> c = 2 \<and> (\<exists>e. Parse args = Inl e \<and> e \<noteq> FlagHelp)"
    by (fastforce simp: main_starts_def split: sum.splits option.splits if_splits)
next
  fix cfg p r assume "program_reach g uuid_ok f fallback v args cfg p"
  from program_reach_reason [OF this assms] have R: "place_reason p (pg_place p)" "server_reason p" by simp_all
  show "pg_place p = Returning r \<or> pg_place p = TransportClosed r \<Longrightarrow>
      r = Ok () \<and> (pg_signalled p \<or> pg_server p = ServerReturned None)
      \<or> (\<exists>e. r = Err (init_error ''HTTP server'' e) \<and> pg_server p = ServerReturned (Some e))
      \<or> (\<exists>e. r = Err (init_error ''graceful shutdown'' e) \<and> (pg_signalled p \<or> pg_server p = ServerReturned None))"
    using R(1) by (auto simp: result_reason_def orderly_def)
  show "pg_place p = Exited c \<Longrightarrow> c = 0 \<and> (pg_signalled p \<or> pg_server p = ServerReturned None)
      \<or> c = 1 \<and> (pg_signalled p \<or> (\<exists>err. pg_server p = ServerReturned err))" for c
    using R(1) by (auto simp: result_reason_def orderly_def)
  show "pg_server p = ServerReturned (Some e) \<Longrightarrow> \<not> errors_Is e http_ErrServerClosed" for e
    using R(2) by (simp add: server_reason_def)
next
  fix cfg p e
  assume p: "program_reach g uuid_ok f fallback v args cfg p"
    and e: "pg_server p = ServerReturned (Some e) \<and> \<not> pg_signalled p"
  let ?step = "program_step g uuid_ok f fallback v cfg"
  have "place_reason p (pg_place p)" using program_reach_reason [OF p assms] by simp
  then have "\<exists>p'. ?step\<^sup>*\<^sup>* p p' \<and> pg_place p' = Exited 1"
    using server_failure_exits [of p e] e by (auto simp: orderly_def)
  then obtain p' where p': "?step\<^sup>*\<^sup>* p p'" "pg_place p' = Exited 1" by blast
  moreover have "t_closed (pg_world p')"
    using program_reach_inv [OF program_reach_steps [OF p'(1) p] assms] p'(2) by (simp add: program_inv_def world_ok_def)
  ultimately show "\<exists>p'. ?step\<^sup>*\<^sup>* p p' \<and> pg_place p' = Exited 1 \<and> t_closed (pg_world p')" by blast
qed

theorem program_exit_reasons_witness:
  "\<exists>p p'. sim_reach p \<and> pg_server p = ServerReturned (Some (ErrorString ''bind'')) \<and> \<not> pg_signalled p
     \<and> sim_step\<^sup>*\<^sup>* p p' \<and> pg_place p' = Exited 1 \<and> t_closed (pg_world p')"
proof -
  obtain p where p: "sim_reach p" "pg_server p = ServerReturned (Some (ErrorString ''bind''))" "\<not> pg_signalled p"
    using sim_fails by blast
  with program_exit_reasons [OF sim_reads_fit, of "\<lambda>_. True" "[]" 0 "([], [])" test_format "\<lambda>r w. w" ver_unset]
  show ?thesis by blast
qed

end
