(* ===== verification/Ch341Conc.thy ===== *)
theory Ch341Conc
  imports Ch341Props
begin

text \<open>
  The transport under concurrent use. \<^verbatim>\<open>Transaction\<close> and \<^verbatim>\<open>Close\<close> hold \<^verbatim>\<open>ioMu\<close>, the inspection does
  not, and the session is shared between them under \<^verbatim>\<open>sessionMu\<close>. Here the operations of
  internal/transport/ch341.go are cut at their lock operations: \<open>ch341_run\<close> runs the code from one
  place to the next, and \<open>conc_step\<close> interleaves any number of calls. A region under \<^verbatim>\<open>sessionMu\<close> is
  one step; so is the execution of one stream, whose transfers touch no field of the transport.
  The enumeration holds no lock: each of its library calls is a step of its own, and the devices
  it has opened and not yet closed are part of the place.

  The library's device, configuration and interface handles are counted by a ledger: opened minus
  closed, and apart from that the devices handed out together with an error. The interface
  \<open>handle_ledger\<close> says how each library call moves the counts, and every library can be given such a
  ledger (\<open>ledger_gousb\<close>).
\<close>

section \<open>Handles\<close>

text \<open>The entries of the ledger. \<open>HStray d\<close> counts how often the device \<open>d\<close> came with an error.\<close>

datatype usb_handle = HDevice nat | HConfig nat | HInterface nat | HStray nat

definition one :: "usb_handle \<Rightarrow> usb_handle \<Rightarrow> int" where
  "one x h = (if h = x then 1 else 0)"

fun all_open :: "device list \<Rightarrow> usb_handle \<Rightarrow> int" where
  "all_open [] h = 0"
| "all_open (d # ds) h = one (HDevice (dev_id d)) h + all_open ds h"

text \<open>How the result of each library call moves the counts.\<close>

fun device_opened :: "device option \<times> go_error option \<Rightarrow> usb_handle \<Rightarrow> int" where
  "device_opened (Some d, None) h = one (HDevice (dev_id d)) h"
| "device_opened (Some d, Some e) h = one (HDevice (dev_id d)) h + one (HStray (dev_id d)) h"
| "device_opened (None, err) h = 0"

fun handle_opened :: "(nat \<Rightarrow> usb_handle) \<Rightarrow> go_error + nat \<Rightarrow> usb_handle \<Rightarrow> int" where
  "handle_opened f (Inr n) h = one (f n) h"
| "handle_opened f (Inl e) h = 0"

text \<open>The handles a session owns, and those the transport owns.\<close>

definition session_handles :: "ch341Session \<Rightarrow> usb_handle \<Rightarrow> int" where
  "session_handles s h = one (HDevice (dev_id (ses_device s))) h + one (HConfig (ses_config s)) h
     + one (HInterface (ses_iface s)) h"

text \<open>The devices of the ledger that came with an error; nobody closes them.\<close>

fun stray :: "(usb_handle \<Rightarrow> int) \<Rightarrow> usb_handle \<Rightarrow> int" where
  "stray f (HDevice n) = f (HStray n)"
| "stray f (HStray n) = f (HStray n)"
| "stray f (HConfig n) = 0"
| "stray f (HInterface n) = 0"

definition owned :: "'u ch341 \<Rightarrow> usb_handle \<Rightarrow> int" where
  "owned t h = (case t_session t of None \<Rightarrow> 0 | Some s \<Rightarrow> session_handles s h)"

lemma stray_one [simp]:
  "stray (one (HDevice n)) h = 0" "stray (one (HConfig n)) h = 0" "stray (one (HInterface n)) h = 0"
  by (cases h; simp add: one_def)+

lemma stray_all_open: "stray (all_open ds) h = 0"
proof -
  have "all_open ds (HStray n) = 0" for n by (induction ds) (simp_all add: one_def)
  then show ?thesis by (cases h) simp_all
qed

lemma stray_handle_opened:
  "stray (handle_opened HConfig r) h = 0" "stray (handle_opened HInterface r) h = 0"
  by (cases r; cases h; simp add: one_def)+

lemma stray_device_opened:
  "device_opened r h - stray (device_opened r) h
     = (case r of (Some d, None) \<Rightarrow> one (HDevice (dev_id d)) h | _ \<Rightarrow> 0)"
  by (cases h) (auto simp: one_def split: prod.splits option.splits)

locale handle_ledger =
  fixes g :: "'u gousb" and opens :: "'u \<Rightarrow> usb_handle \<Rightarrow> int"
  assumes open_device: "g_OpenDeviceWithVIDPID g v p u = (rd, dt, u') \<Longrightarrow>
      opens u' = (\<lambda>h. opens u h + device_opened rd h)"
    and config: "g_Config g n c u = (rn, dt, u') \<Longrightarrow>
      opens u' = (\<lambda>h. opens u h + handle_opened HConfig rn h)"
    and iface: "g_Interface g n c a u = (rn, dt, u') \<Longrightarrow>
      opens u' = (\<lambda>h. opens u h + handle_opened HInterface rn h)"
    and open_devices: "g_OpenDevices g f u = ((vs, ds), dt, u') \<Longrightarrow>
      opens u' = (\<lambda>h. opens u h + all_open ds h)"
    and iface_close: "g_InterfaceClose g n u = (ru, dt, u') \<Longrightarrow>
      opens u' = (\<lambda>h. opens u h - one (HInterface n) h)"
    and config_close: "g_ConfigClose g n u = (re, dt, u') \<Longrightarrow>
      opens u' = (\<lambda>h. opens u h - one (HConfig n) h)"
    and device_close: "g_DeviceClose g n u = (re, dt, u') \<Longrightarrow>
      opens u' = (\<lambda>h. opens u h - one (HDevice n) h)"
    and in_endpoint: "g_InEndpoint g n c u = (ri, dt, u') \<Longrightarrow> opens u' = opens u"
    and out_endpoint: "g_OutEndpoint g n c u = (rn, dt, u') \<Longrightarrow> opens u' = opens u"
    and write_transfer: "g_WriteContext g n to data u = (rw, dt, u') \<Longrightarrow> opens u' = opens u"
    and read_transfer: "g_ReadContext g n to k u = (rb, dt, u') \<Longrightarrow> opens u' = opens u"
    and context_close: "g_ContextClose g u = (re, dt, u') \<Longrightarrow> opens u' = opens u"
    and manufacturer: "g_Manufacturer g n u = (rs, dt, u') \<Longrightarrow> opens u' = opens u"
    and product: "g_Product g n u = (rs, dt, u') \<Longrightarrow> opens u' = opens u"
    and jitter: "g_jitter g u = (ru, dt, u') \<Longrightarrow> opens u' = opens u"
begin

text \<open>The open handles but for the stray devices.\<close>

definition count :: "'u ch341 \<Rightarrow> usb_handle \<Rightarrow> int" where
  "count t h = opens (t_usb t) h - stray (opens (t_usb t)) h"

lemma count_moves:
  assumes "opens (t_usb t') = (\<lambda>h. opens (t_usb t) h + delta h)"
  shows "count t' = (\<lambda>h. count t h + (delta h - stray delta h))"
proof
  fix h show "count t' h = count t h + (delta h - stray delta h)"
    by (cases h) (simp_all add: count_def assms)
qed

lemma count_moves_close:
  assumes "opens (t_usb t') = (\<lambda>h. opens (t_usb t) h - one x h)" and "\<And>n. x \<noteq> HStray n"
  shows "count t' = (\<lambda>h. count t h - one x h)"
proof
  have "one x (HStray n) = 0" for n using assms(2) [of n] by (auto simp: one_def)
  then show "count t' h = count t h - one x h" for h
    by (cases h) (simp_all add: count_def assms(1))
qed

lemma count_same: "opens (t_usb t') = opens (t_usb t) \<Longrightarrow> count t' = count t"
  by (intro ext) (simp add: count_def)

lemma count_updates [simp]:
  "count (t\<lparr>t_session := s\<rparr>) = count t" "count (t\<lparr>t_closed := b\<rparr>) = count t"
  "count (t\<lparr>t_fresh := n\<rparr>) = count t" "count (t\<lparr>t_clock := c\<rparr>) = count t"
  by (simp_all add: count_def fun_eq_iff)

lemma usb_callE:
  assumes "usb_call f t = (r, t')"
  obtains dt where "f (t_usb t) = (r, dt, t_usb t')"
  using assms by (auto simp: usb_call_def Let_def split: prod.splits)

lemma call_open_device: "usb_call (g_OpenDeviceWithVIDPID g v p) t = (r, t') \<Longrightarrow>
    count t' = (\<lambda>h. count t h + (case r of (Some d, None) \<Rightarrow> one (HDevice (dev_id d)) h | _ \<Rightarrow> 0))"
  using stray_device_opened [of r]
  by (elim usb_callE) (simp add: count_moves [OF open_device] split: prod.splits option.splits)

lemma call_config: "usb_call (g_Config g n c) t = (r, t') \<Longrightarrow>
    count t' = (\<lambda>h. count t h + handle_opened HConfig r h)"
  by (elim usb_callE) (simp add: count_moves [OF config] stray_handle_opened)

lemma call_iface: "usb_call (g_Interface g n c a) t = (r, t') \<Longrightarrow>
    count t' = (\<lambda>h. count t h + handle_opened HInterface r h)"
  by (elim usb_callE) (simp add: count_moves [OF iface] stray_handle_opened)

lemma call_open_devices: "usb_call (g_OpenDevices g f) t = ((vs, ds), t') \<Longrightarrow>
    count t' = (\<lambda>h. count t h + all_open ds h)"
  by (elim usb_callE) (simp add: count_moves [OF open_devices] stray_all_open)

lemma call_closes:
  "usb_call (g_InterfaceClose g n) t = (ru, t') \<Longrightarrow> count t' = (\<lambda>h. count t h - one (HInterface n) h)"
  "usb_call (g_ConfigClose g n) t = (re, t') \<Longrightarrow> count t' = (\<lambda>h. count t h - one (HConfig n) h)"
  "usb_call (g_DeviceClose g n) t = (re, t') \<Longrightarrow> count t' = (\<lambda>h. count t h - one (HDevice n) h)"
  by (elim usb_callE, rule count_moves_close, erule iface_close config_close device_close, simp)+

lemma call_neutral:
  "usb_call (g_InEndpoint g n c) t = (ri, t') \<Longrightarrow> count t' = count t"
  "usb_call (g_OutEndpoint g n c) t = (rn, t') \<Longrightarrow> count t' = count t"
  "usb_call (g_WriteContext g n to data) t = (rw, t') \<Longrightarrow> count t' = count t"
  "usb_call (g_ReadContext g n to k) t = (rb, t') \<Longrightarrow> count t' = count t"
  "usb_call (g_ContextClose g) t = (re, t') \<Longrightarrow> count t' = count t"
  "usb_call (g_Manufacturer g n) t = (rs, t') \<Longrightarrow> count t' = count t"
  "usb_call (g_Product g n) t = (rs, t') \<Longrightarrow> count t' = count t"
  "usb_call (g_jitter g) t = (ru, t') \<Longrightarrow> count t' = count t"
  by (elim usb_callE, rule count_same,
      erule in_endpoint out_endpoint write_transfer read_transfer context_close manufacturer product jitter)+

lemmas call_counts = call_open_device call_config call_iface call_open_devices call_closes call_neutral

lemma count_after_close [simp]:
  "count (snd (usb_call (g_InterfaceClose g n) t)) = (\<lambda>h. count t h - one (HInterface n) h)"
  "count (snd (usb_call (g_ConfigClose g n) t)) = (\<lambda>h. count t h - one (HConfig n) h)"
  "count (snd (usb_call (g_DeviceClose g n) t)) = (\<lambda>h. count t h - one (HDevice n) h)"
  using call_closes [OF prod.collapse [symmetric]] by auto

lemma count_sleep [simp]: "count (ch341_sleep g d t) = count t"
  using call_neutral(8) [OF prod.collapse [symmetric], of t] by (simp add: ch341_sleep_def)

lemma transfers_count: "transfers_keep g (\<lambda>t. count t = c)"
  using call_neutral(3,4) [OF prod.collapse [symmetric]] by (simp add: transfers_keep_def)

lemma execute_count: "execute g s stream wl rl t = (r, t') \<Longrightarrow> count t' = count t"
  using execute_keeps [OF transfers_count] by blast

lemma openSession_count:
  assumes "openSession g d i t = (r, t')"
  shows "count t' h = count t h
     + (case r of Inl e \<Rightarrow> 0 | Inr s \<Rightarrow> one (HConfig (ses_config s)) h + one (HInterface (ses_iface s)) h)"
  using assms
  by (auto simp: openSession_def split: option.splits prod.splits sum.splits dest!: call_counts)

lemma ensure_loop_count:
  "ensure_loop g ids le t = (r, t') \<Longrightarrow>
     count t' h = count t h + (case r of Inl e \<Rightarrow> 0 | Inr s \<Rightarrow> session_handles s h)"
proof (induction ids arbitrary: le t)
  case Nil
  then show ?case by (auto split: option.splits)
next
  case (Cons i ids)
  obtain o1 t1 where o1: "usb_call (g_OpenDeviceWithVIDPID g (Vendor i) (Product i)) t = (o1, t1)"
    by fastforce
  note c1 = call_open_device [OF o1]
  show ?case
  proof (cases "\<exists>d. o1 = (Some d, None)")
    case False
    then obtain le' where "ensure_loop g ids le' t1 = (r, t')" "count t1 h = count t h"
      using Cons.prems o1 c1 by (cases o1) (auto split: option.splits)
    then show ?thesis using Cons.IH [of le' t1] by simp
  next
    case True
    then obtain d where d: "o1 = (Some d, None)" by blast
    obtain s2 t2 where s2: "openSession g d (USBID_String i) t1 = (s2, t2)" by fastforce
    note c2 = openSession_count [OF s2, of h]
    show ?thesis
    proof (cases s2)
      case (Inr s)
      with Cons.prems o1 d s2 c1 c2 openSession_extends [OF s2] show ?thesis
        by (auto simp: session_handles_def)
    next
      case (Inl e)
      let ?t3 = "snd (usb_call (g_DeviceClose g (dev_id d)) t2)"
      have "ensure_loop g ids (Some e) ?t3 = (r, t')" using Cons.prems o1 d s2 Inl by simp
      from Cons.IH [OF this] c1 c2 d Inl show ?thesis by simp
    qed
  qed
qed

lemma session_close_count: "session_close g s t = (r, t') \<Longrightarrow> count t' h = count t h - session_handles s h"
  by (auto simp: session_close_def session_handles_def Let_def split: prod.splits dest!: call_closes)

text \<open>The excess over the handles of the session is what the operations under a lock keep.\<close>

definition excess :: "'u ch341 \<Rightarrow> usb_handle \<Rightarrow> int" where
  "excess t h = count t h - owned t h"

lemma ensureSessionLocked_excess:
  assumes "ensureSessionLocked g t = (r, t')"
  shows "excess t' h = excess t h"
proof (cases "t_session t")
  case None
  with assms(1) have e: "ensure_loop g (t_usbIDs t) None t = (r, t')" by (simp add: ensureSessionLocked_def)
  from ensure_loop_count [OF e] ensure_loop_extends [OF e None] None show ?thesis
    by (auto simp: excess_def owned_def split: sum.splits)
next
  case (Some s)
  with assms show ?thesis by (simp add: ensureSessionLocked_def)
qed

lemma currentSession_excess: "currentSession g t = (r, t') \<Longrightarrow> excess t' h = excess t h"
  by (auto simp: currentSession_def split: if_splits dest: ensureSessionLocked_excess)

lemma quiet_excess: "t_quiet t t' \<Longrightarrow> excess t' h - count t' h = excess t h - count t h"
  by (simp add: excess_def owned_def t_quiet_def)

lemma execute_excess: "execute g s stream wl rl t = (r, t') \<Longrightarrow> excess t' h = excess t h"
  using quiet_excess [OF execute_quiet] execute_count by fastforce

lemma dropped_excess:
  assumes "session_close g s t = (r, t')" and "t_session t = Some s"
  shows "excess (t'\<lparr>t_session := None\<rparr>) h = excess t h"
  using session_close_count [OF assms(1)] assms(2) by (simp add: excess_def owned_def)

lemma invalidateSession_excess: "excess (invalidateSession g s t) h = excess t h"
  using dropped_excess [OF prod.collapse [symmetric]]
  by (auto simp: invalidateSession_def split: option.splits)

lemma Close_excess:
  assumes "Close g t = (e, t')"
  shows "excess t' h = excess t h"
proof (cases "t_closed t")
  case True
  with assms show ?thesis by (simp add: Close_def)
next
  case False
  let ?t0 = "t\<lparr>t_closed := True\<rparr>"
  have x0: "excess ?t0 h = excess t h" by (simp add: excess_def owned_def)
  obtain e1 t1 where c: "(case t_session ?t0 of None \<Rightarrow> (None, ?t0)
      | Some s \<Rightarrow> (let (e, t') = session_close g s ?t0 in (e, t'\<lparr>t_session := None\<rparr>))) = (e1, t1)"
    by fastforce
  then have "excess t1 h = excess ?t0 h"
    by (auto split: option.splits prod.splits dest: dropped_excess [where h = h])
  moreover obtain e2 t2 where c2: "usb_call (g_ContextClose g) t1 = (e2, t2)" by fastforce
  moreover have "excess t2 h = excess t1 h"
    using quiet_excess [OF usb_call_quietD [OF c2], of h] by (simp add: call_neutral(5) [OF c2])
  moreover have "t' = t2" using assms(1) False c c2 by (simp add: Close_def)
  ultimately show ?thesis using x0 by simp
qed

end

section \<open>A ledger for every library\<close>

text \<open>Any library, extended by a count that each call moves as its result says.\<close>

definition counted ::
  "('u, 'r) usbcall \<Rightarrow> ('r \<Rightarrow> usb_handle \<Rightarrow> int) \<Rightarrow> ('u \<times> (usb_handle \<Rightarrow> int), 'r) usbcall" where
  "counted f delta x = (case f (fst x) of (r, dt, u) \<Rightarrow> (r, dt, u, \<lambda>h. snd x h + delta r h))"

definition ledger_gousb :: "'u gousb \<Rightarrow> ('u \<times> (usb_handle \<Rightarrow> int)) gousb" where
  "ledger_gousb g =
     \<lparr>g_OpenDeviceWithVIDPID = (\<lambda>v p. counted (g_OpenDeviceWithVIDPID g v p) device_opened),
      g_Config = (\<lambda>d n. counted (g_Config g d n) (handle_opened HConfig)),
      g_Interface = (\<lambda>c i a. counted (g_Interface g c i a) (handle_opened HInterface)),
      g_InEndpoint = (\<lambda>i n. counted (g_InEndpoint g i n) (\<lambda>_ _. 0)),
      g_OutEndpoint = (\<lambda>i n. counted (g_OutEndpoint g i n) (\<lambda>_ _. 0)),
      g_WriteContext = (\<lambda>ep to data. counted (g_WriteContext g ep to data) (\<lambda>_ _. 0)),
      g_ReadContext = (\<lambda>ep to n. counted (g_ReadContext g ep to n) (\<lambda>_ _. 0)),
      g_InterfaceClose = (\<lambda>i. counted (g_InterfaceClose g i) (\<lambda>_ h. - one (HInterface i) h)),
      g_ConfigClose = (\<lambda>c. counted (g_ConfigClose g c) (\<lambda>_ h. - one (HConfig c) h)),
      g_DeviceClose = (\<lambda>d. counted (g_DeviceClose g d) (\<lambda>_ h. - one (HDevice d) h)),
      g_ContextClose = counted (g_ContextClose g) (\<lambda>_ _. 0),
      g_OpenDevices = (\<lambda>f. counted (g_OpenDevices g f) (\<lambda>r. all_open (snd r))),
      g_Manufacturer = (\<lambda>d. counted (g_Manufacturer g d) (\<lambda>_ _. 0)),
      g_Product = (\<lambda>d. counted (g_Product g d) (\<lambda>_ _. 0)),
      g_jitter = counted (g_jitter g) (\<lambda>_ _. 0)\<rparr>"

interpretation ledger: handle_ledger "ledger_gousb g" snd for g
  by unfold_locales (auto simp: ledger_gousb_def counted_def split: prod.splits)

section \<open>Places and steps\<close>

text \<open>From \<open>TxLocked\<close> to \<open>TxUnlocking\<close>, and from \<open>ClLocked\<close> to \<open>ClUnlocking\<close>, the call holds
  \<^verbatim>\<open>ioMu\<close>. The inspection is in the loop of \<^verbatim>\<open>enumerateUSB\<close> over the opened devices at \<open>InReading\<close>, has
  read the manufacturer of a device at \<open>InNaming\<close>, and is about to close the device at
  \<open>InClosing\<close>.\<close>

datatype place =
    TxBegin byte "byte list" int
  | TxLocked "byte list" nat int
  | TxRunning ch341Session "byte list" nat int
  | TxFailed ch341Session go_error
  | TxUnlocking "byte list result"
  | TxDone "byte list result"
  | InBegin bool
  | InReading "device list" "(string \<times> USBDeviceInfo) list"
  | InNaming device USBDeviceInfo "device list" "(string \<times> USBDeviceInfo) list"
  | InClosing device "device list" "(string \<times> USBDeviceInfo) list"
  | InListed "USBDeviceInfo list"
  | InDone USBStatus
  | ClBegin
  | ClLocked
  | ClUnlocking "go_error option"
  | ClDone "go_error option"

text \<open>\<open>None\<close>: the call waits for \<^verbatim>\<open>ioMu\<close> or has returned. The flag says whether \<^verbatim>\<open>ioMu\<close> is taken.\<close>

fun ch341_run :: "'u gousb \<Rightarrow> place \<Rightarrow> bool \<Rightarrow> 'u ch341 \<Rightarrow> (place \<times> bool \<times> 'u ch341) option" where
  "ch341_run g (TxBegin address7Bit writeData readLength) io t =
     (case encodeTransaction address7Bit writeData readLength of
        Err e \<Rightarrow> Some (TxDone (Err e), io, t)
      | Panic \<Rightarrow> Some (TxDone Panic, io, t)
      | Ok stream \<Rightarrow>
          if io then None else Some (TxLocked stream (length writeData) readLength, True, t))"
| "ch341_run g (TxLocked stream writeLength readLength) io t =
     (case currentSession g t of
        (Inl e, t1) \<Rightarrow> Some (TxUnlocking (Err e), io, t1)
      | (Inr session, t1) \<Rightarrow> Some (TxRunning session stream writeLength readLength, io, t1))"
| "ch341_run g (TxRunning session stream writeLength readLength) io t =
     (case execute g session stream writeLength readLength t of
        (Err e, t1) \<Rightarrow>
          Some (if shouldInvalidateSession e then TxFailed session e else TxUnlocking (Err e), io, t1)
      | (r, t1) \<Rightarrow> Some (TxUnlocking r, io, t1))"
| "ch341_run g (TxFailed session e) io t =
     Some (TxUnlocking (Err e), io, invalidateSession g session t)"
| "ch341_run g (TxUnlocking r) io t = Some (TxDone r, False, t)"
| "ch341_run g (TxDone r) io t = None"
| "ch341_run g (InBegin includeDeviceStrings) io t =
     (let ((visited, devices), t1) = usb_call (g_OpenDevices g (\<lambda>_. includeDeviceStrings)) t
      in Some (InReading devices (collect_descriptors (t_usbIDs t) visited []), io, t1))"
| "ch341_run g (InReading (d # ds) m) io t =
     (case map_of m (usbDeviceKey (dd_Bus (dev_Desc d)) (dd_Address (dev_Desc d))) of
        None \<Rightarrow> Some (InClosing d ds m, io, t)
      | Some info \<Rightarrow>
          let (manufacturer, t1) = usb_call (g_Manufacturer g (dev_id d)) t
          in Some (InNaming d (info\<lparr>inf_Manufacturer := manufacturer\<rparr>) ds m, io, t1))"
| "ch341_run g (InNaming d info ds m) io t =
     (let (product, t1) = usb_call (g_Product g (dev_id d)) t
      in Some (InClosing d ds (al_put (usbDeviceKey (dd_Bus (dev_Desc d)) (dd_Address (dev_Desc d)))
                 (info\<lparr>inf_Product := product\<rparr>) m), io, t1))"
| "ch341_run g (InClosing d ds m) io t =
     Some (InReading ds m, io, snd (usb_call (g_DeviceClose g (dev_id d)) t))"
| "ch341_run g (InReading [] m) io t =
     (let infos = map snd m; devices = sort_key (\<lambda>i. (inf_Bus i, inf_Device i)) infos
      in if \<not> list_ex inf_Candidate infos
         then Some (InDone \<lparr>us_State = ''missing'', us_Reason = ''no matching USB device'',
                us_VIDPID = [], us_Devices = devices\<rparr>, io, t)
         else Some (InListed devices, io, t))"
| "ch341_run g (InListed devices) io t =
     (if t_closed t
      then Some (InDone \<lparr>us_State = ''error'', us_Reason = ''USB context is closed'', us_VIDPID = [],
                         us_Devices = devices\<rparr>, io, t)
      else
        (case ensureSessionLocked g t of
           (Inl e, t1) \<Rightarrow>
             Some (InDone \<lparr>us_State = ''error'', us_Reason = error_text e, us_VIDPID = [],
                           us_Devices = devices\<rparr>, io, t1)
         | (Inr session, t1) \<Rightarrow>
             Some (InDone \<lparr>us_State = ''ready'', us_Reason = [], us_VIDPID = ses_identity session,
                           us_Devices = devices\<rparr>, io, t1)))"
| "ch341_run g (InDone status) io t = None"
| "ch341_run g ClBegin io t = (if io then None else Some (ClLocked, True, t))"
| "ch341_run g ClLocked io t = (case Close g t of (e, t1) \<Rightarrow> Some (ClUnlocking e, io, t1))"
| "ch341_run g (ClUnlocking e) io t = Some (ClDone e, False, t)"
| "ch341_run g (ClDone e) io t = None"

text \<open>A call that nobody interrupts.\<close>

fun run_alone :: "nat \<Rightarrow> 'u gousb \<Rightarrow> place \<Rightarrow> bool \<Rightarrow> 'u ch341 \<Rightarrow> place \<times> bool \<times> 'u ch341" where
  "run_alone 0 g p io t = (p, io, t)"
| "run_alone (Suc n) g p io t =
     (case ch341_run g p io t of
        None \<Rightarrow> (p, io, t)
      | Some (p1, io1, t1) \<Rightarrow> run_alone n g p1 io1 t1)"

lemma run_alone_done [simp]:
  "run_alone n g (TxDone r) io t = (TxDone r, io, t)"
  "run_alone n g (InDone st) io t = (InDone st, io, t)"
  "run_alone n g (ClDone e) io t = (ClDone e, io, t)"
  by (cases n; simp)+

text \<open>Uninterrupted, the pieces make up the operations of \<open>Ch341\<close>.\<close>

lemma transaction_alone:
  "run_alone 5 g (TxBegin a w n) False t
     = (case Transaction g a w n t of (r, t') \<Rightarrow> (TxDone r, False, t'))"
  by (auto simp: numeral_eq_Suc Transaction_def split: result.splits prod.splits sum.splits)

lemma reading_alone:
  "\<exists>k. \<forall>n. run_alone (k + n) g (InReading ds m) io t
     = (case read_strings g ds m t of (m', t') \<Rightarrow> run_alone n g (InReading [] m') io t')"
proof (induction ds arbitrary: m t)
  case Nil
  show ?case by (intro exI [of _ 0]) simp
next
  case (Cons d ds)
  let ?key = "usbDeviceKey (dd_Bus (dev_Desc d)) (dd_Address (dev_Desc d))"
  obtain j m1 t1 where d: "\<And>n. run_alone (j + n) g (InReading (d # ds) m) io t = run_alone n g (InReading ds m1) io t1"
    and r: "read_strings g (d # ds) m t = read_strings g ds m1 t1"
  proof (cases "map_of m ?key")
    case None
    show ?thesis by (rule that [of "Suc (Suc 0)"]) (simp_all add: None)
  next
    case (Some info)
    show ?thesis
      by (rule that [of "Suc (Suc (Suc 0))"]) (simp_all add: Some Let_def case_prod_unfold)
  qed
  obtain k where k: "\<And>n. run_alone (k + n) g (InReading ds m1) io t1
      = (case read_strings g ds m1 t1 of (m', t') \<Rightarrow> run_alone n g (InReading [] m') io t')"
    using Cons.IH by blast
  show ?case
    unfolding r by (rule exI [of _ "j + k"]) (simp add: add.assoc d k)
qed

lemma inspect_alone:
  "\<exists>n. run_alone n g (InBegin b) io t = (case InspectUSB g b t of (st, t') \<Rightarrow> (InDone st, io, t'))"
proof -
  obtain visited devices t1 where o: "usb_call (g_OpenDevices g (\<lambda>_. b)) t = ((visited, devices), t1)"
    by (metis prod.exhaust)
  let ?m = "collect_descriptors (t_usbIDs t) visited []"
  obtain k where k: "\<And>n. run_alone (k + n) g (InReading devices ?m) io t1
      = (case read_strings g devices ?m t1 of (m', t') \<Rightarrow> run_alone n g (InReading [] m') io t')"
    using reading_alone by blast
  have "run_alone (Suc (k + 2)) g (InBegin b) io t = (case InspectUSB g b t of (st, t') \<Rightarrow> (InDone st, io, t'))"
    by (auto simp: o k numeral_eq_Suc InspectUSB_def enumerateUSB_def Let_def simp del: add_Suc_right
        split: prod.splits sum.splits)
  then show ?thesis by blast
qed

lemma close_alone:
  "run_alone 3 g ClBegin False t = (case Close g t of (e, t') \<Rightarrow> (ClDone e, False, t'))"
  by (auto simp: numeral_eq_Suc split: prod.splits)

section \<open>Interleavings\<close>

record 'u ch341_system =
  cs_transport :: "'u ch341"
  cs_ioMu :: bool
  cs_calls :: "nat \<rightharpoonup> place"

fun begins :: "place \<Rightarrow> bool" where
  "begins (TxBegin a w n) = True"
| "begins (InBegin b) = True"
| "begins ClBegin = True"
| "begins _ = False"

fun holds_io :: "place \<Rightarrow> bool" where
  "holds_io (TxLocked stream wl n) = True"
| "holds_io (TxRunning s stream wl n) = True"
| "holds_io (TxFailed s e) = True"
| "holds_io (TxUnlocking r) = True"
| "holds_io ClLocked = True"
| "holds_io (ClUnlocking e) = True"
| "holds_io _ = False"

fun uses_session :: "place \<Rightarrow> ch341Session option" where
  "uses_session (TxRunning s stream wl n) = Some s"
| "uses_session (TxFailed s e) = Some s"
| "uses_session _ = None"

text \<open>The devices an inspection has opened and not yet closed.\<close>

fun in_hand :: "place \<Rightarrow> usb_handle \<Rightarrow> int" where
  "in_hand (InReading ds m) h = all_open ds h"
| "in_hand (InNaming d info ds m) h = all_open (d # ds) h"
| "in_hand (InClosing d ds m) h = all_open (d # ds) h"
| "in_hand _ h = 0"

definition all_in_hand :: "(nat \<rightharpoonup> place) \<Rightarrow> usb_handle \<Rightarrow> int" where
  "all_in_hand calls h = (\<Sum>i\<in>dom calls. in_hand (the (calls i)) h)"

fun finished :: "place \<Rightarrow> bool" where
  "finished (TxDone r) = True"
| "finished (InDone st) = True"
| "finished (ClDone e) = True"
| "finished _ = False"

inductive conc_step :: "'u gousb \<Rightarrow> 'u ch341_system \<Rightarrow> 'u ch341_system \<Rightarrow> bool" for g where
  conc_spawn: "cs_calls s i = None \<Longrightarrow> begins p \<Longrightarrow>
     conc_step g s (s\<lparr>cs_calls := (cs_calls s)(i \<mapsto> p)\<rparr>)"
| conc_run: "cs_calls s i = Some p \<Longrightarrow>
     ch341_run g p (cs_ioMu s) (cs_transport s) = Some (p', io, t) \<Longrightarrow>
     conc_step g s (s\<lparr>cs_transport := t, cs_ioMu := io, cs_calls := (cs_calls s)(i \<mapsto> p')\<rparr>)"
| conc_pause: "conc_step g s (s\<lparr>cs_transport := ch341_sleep g d (cs_transport s)\<rparr>)"

text \<open>The transport starts without open handles.\<close>

inductive conc_reach :: "'u gousb \<Rightarrow> ('u \<Rightarrow> usb_handle \<Rightarrow> int) \<Rightarrow> 'u ch341_system \<Rightarrow> bool" for g opens where
  conc_start: "NewCh341 ids speed now u = Ok t \<Longrightarrow> opens u = (\<lambda>h. 0) \<Longrightarrow>
     conc_reach g opens \<lparr>cs_transport = t, cs_ioMu = False, cs_calls = Map.empty\<rparr>"
| conc_more: "conc_reach g opens s \<Longrightarrow> conc_step g s s' \<Longrightarrow> conc_reach g opens s'"

definition io_at :: "'u ch341_system \<Rightarrow> nat \<Rightarrow> bool" where
  "io_at s i \<longleftrightarrow> (case cs_calls s i of None \<Rightarrow> False | Some p \<Rightarrow> holds_io p)"

definition conc_inv :: "'u ch341_system \<Rightarrow> bool" where
  "conc_inv s \<longleftrightarrow> ch341_wf (cs_transport s) \<and> finite (dom (cs_calls s))
     \<and> (\<forall>i j. io_at s i \<and> io_at s j \<longrightarrow> i = j)
     \<and> (cs_ioMu s \<longleftrightarrow> (\<exists>i. io_at s i))
     \<and> (\<forall>i p ses. cs_calls s i = Some p \<longrightarrow> uses_session p = Some ses \<longrightarrow>
          t_session (cs_transport s) = Some ses)"

section \<open>What one step does\<close>

lemma uses_holds: "uses_session p = Some ses \<Longrightarrow> holds_io p"
  by (cases p) simp_all

fun enumerating :: "place \<Rightarrow> bool" where
  "enumerating (InBegin b) = True"
| "enumerating (InReading ds m) = True"
| "enumerating (InNaming d info ds m) = True"
| "enumerating (InClosing d ds m) = True"
| "enumerating _ = False"

text \<open>The enumeration changes no field of the transport and takes no lock.\<close>

lemma enumerating_run:
  assumes "ch341_run g p io t = Some (p', io', t')" and "enumerating p"
  shows "t_quiet t t' \<and> io' = io \<and> \<not> holds_io p \<and> \<not> holds_io p' \<and> uses_session p' = None"
proof (cases p)
  case (InReading ds m)
  with assms show ?thesis
    by (cases ds) (auto simp: Let_def split: option.splits prod.splits if_splits dest: usb_call_quietD)
qed (use assms usb_call_quiet in \<open>auto simp: Let_def split: prod.splits dest: usb_call_quietD\<close>)

lemma run_mutex:
  assumes "ch341_run g p io t = Some (p', io', t')"
  shows "(holds_io p' = holds_io p \<and> io' = io)
     \<or> (\<not> holds_io p \<and> holds_io p' \<and> \<not> io \<and> io') \<or> (holds_io p \<and> \<not> holds_io p' \<and> \<not> io')"
proof (cases "enumerating p")
  case False
  with assms show ?thesis by (cases p) (auto split: result.splits sum.splits prod.splits if_splits)
qed (use enumerating_run [OF assms] in simp)

lemma run_wf:
  assumes "ch341_run g p io t = Some (p', io', t')" and "ch341_wf t"
  shows "ch341_wf t'"
proof -
  have "ch341_wf (invalidateSession g s t)" for s
    using assms(2) invalidateSession_extends [of t g s]
    by (auto simp: ch341_wf_def t_extends_def split: option.splits if_splits)
  with assms enumerating_run [OF assms(1)] t_quiet_wf [of t t'] show ?thesis
    by (cases p) (auto split: result.splits sum.splits prod.splits if_splits
        dest: currentSession_extends ensureSessionLocked_extends Close_state
        intro: t_quiet_wf [OF execute_quiet])
qed

text \<open>Only a call that holds \<^verbatim>\<open>ioMu\<close> can drop the session.\<close>

lemma run_keeps_session:
  assumes "ch341_run g p io t = Some (p', io', t')" and "\<not> holds_io p" and "t_session t = Some s"
  shows "t_session t' = Some s"
proof (cases "enumerating p")
  case False
  with assms show ?thesis
    by (cases p) (auto simp: ensureSessionLocked_def split: result.splits prod.splits if_splits)
qed (use enumerating_run [OF assms(1)] assms(3) in \<open>simp add: t_quiet_def\<close>)

lemma run_uses_session:
  assumes "ch341_run g p io t = Some (p', io', t')" and "ch341_wf t"
    and "\<And>ses. uses_session p = Some ses \<Longrightarrow> t_session t = Some ses"
    and "uses_session p' = Some ses"
  shows "t_session t' = Some ses"
  using assms enumerating_run [OF assms(1)]
  by (cases p) (auto simp: t_quiet_def split: result.splits sum.splits prod.splits if_splits
      dest: currentSession_extends execute_quiet)

lemma conc_step_inv: "conc_step g s s' \<Longrightarrow> conc_inv s \<Longrightarrow> conc_inv s'"
proof (induction rule: conc_step.induct)
  case (conc_spawn s i p)
  let ?s' = "s\<lparr>cs_calls := (cs_calls s)(i \<mapsto> p)\<rparr>"
  have p: "\<not> holds_io p" using conc_spawn(2) by (cases p) simp_all
  have "io_at ?s' j = io_at s j" for j using conc_spawn(1) p by (simp add: io_at_def)
  then show ?case using conc_spawn(3) p by (auto simp: conc_inv_def dest: uses_holds split: if_splits)
next
  case (conc_run s i p p' io t)
  let ?s' = "s\<lparr>cs_transport := t, cs_ioMu := io, cs_calls := (cs_calls s)(i \<mapsto> p')\<rparr>"
  have fin: "finite (dom (cs_calls s))" using conc_run(3) by (simp add: conc_inv_def)
  have inv: "ch341_wf (cs_transport s)" "\<And>j q ses. cs_calls s j = Some q \<Longrightarrow> uses_session q = Some ses \<Longrightarrow>
      t_session (cs_transport s) = Some ses"
    and ex: "\<And>i j. io_at s i \<Longrightarrow> io_at s j \<Longrightarrow> i = j" and io: "cs_ioMu s \<longleftrightarrow> (\<exists>i. io_at s i)"
    using conc_run(3) by (auto simp: conc_inv_def)
  have at: "io_at ?s' j \<longleftrightarrow> (if j = i then holds_io p' else io_at s j)" for j by (simp add: io_at_def)
  have i: "io_at s i \<longleftrightarrow> holds_io p" using conc_run(1) by (simp add: io_at_def)
  have "t_session t = Some ses" if "cs_calls ?s' j = Some q" "uses_session q = Some ses" for j q ses
  proof (cases "j = i")
    case True
    then show ?thesis using that run_uses_session [OF conc_run(2) inv(1) inv(2) [OF conc_run(1)]] by simp
  next
    case False
    then have q: "cs_calls s j = Some q" using that(1) by simp
    then have "io_at s j" using uses_holds [OF that(2)] by (simp add: io_at_def)
    then have "\<not> holds_io p" using ex False i by blast
    then show ?thesis using run_keeps_session [OF conc_run(2)] inv(2) [OF q that(2)] by blast
  qed
  moreover have "(\<forall>j k. io_at ?s' j \<and> io_at ?s' k \<longrightarrow> j = k) \<and> (io \<longleftrightarrow> (\<exists>j. io_at ?s' j))"
    using run_mutex [OF conc_run(2)] ex io i unfolding at by metis
  ultimately show ?case using run_wf [OF conc_run(2) inv(1)] fin by (simp add: conc_inv_def)
next
  case (conc_pause s d)
  then show ?case
    using t_quiet_wf [OF ch341_sleep_quiet] ch341_sleep_quiet [of "cs_transport s" g d]
    by (auto simp: conc_inv_def io_at_def t_quiet_def)
qed

lemma all_in_hand_upd:
  "finite (dom calls) \<Longrightarrow> all_in_hand (calls(i \<mapsto> p)) h
     = all_in_hand calls h + in_hand p h - (case calls i of None \<Rightarrow> 0 | Some q \<Rightarrow> in_hand q h)"
proof -
  assume fin: "finite (dom calls)"
  have rest: "(\<Sum>j\<in>dom calls - {i}. in_hand (the ((calls(i \<mapsto> p)) j)) h)
      = (\<Sum>j\<in>dom calls - {i}. in_hand (the (calls j)) h)"
    by (intro sum.cong) auto
  have "all_in_hand (calls(i \<mapsto> p)) h = in_hand p h + (\<Sum>j\<in>dom calls - {i}. in_hand (the (calls j)) h)"
    using fin rest by (simp add: all_in_hand_def sum.insert_remove)
  moreover have "all_in_hand calls h
      = (case calls i of None \<Rightarrow> 0 | Some q \<Rightarrow> in_hand q h) + (\<Sum>j\<in>dom calls - {i}. in_hand (the (calls j)) h)"
    using fin by (cases "calls i") (auto simp: all_in_hand_def domIff sum.remove [of "dom calls" i])
  ultimately show ?thesis by simp
qed

context handle_ledger
begin

text \<open>What a step opens or closes beyond the session is in its hands.\<close>

lemma call_excess: "usb_call f t = (r, t') \<Longrightarrow> excess t' h - count t' h = excess t h - count t h"
  by (rule quiet_excess [OF usb_call_quietD])

lemma run_excess:
  assumes "ch341_run g p io t = Some (p', io', t')"
  shows "excess t' h - in_hand p' h = excess t h - in_hand p h"
proof (cases p)
  case (InBegin b)
  obtain vs ds t1 where o: "usb_call (g_OpenDevices g (\<lambda>_. b)) t = ((vs, ds), t1)" by (metis prod.exhaust)
  with assms call_excess [OF o, of h] call_open_devices [OF o] show ?thesis by (auto simp: InBegin)
next
  case (InReading ds m)
  then show ?thesis
  proof (cases ds)
    case (Cons d ds')
    obtain ma t1 where o: "usb_call (g_Manufacturer g (dev_id d)) t = (ma, t1)" by fastforce
    from assms call_excess [OF o, of h] call_neutral(6) [OF o] show ?thesis
      by (auto simp: InReading Cons o split: option.splits)
  qed (use assms in \<open>auto simp: Let_def split: if_splits\<close>)
next
  case (InNaming d info ds m)
  obtain pr t1 where o: "usb_call (g_Product g (dev_id d)) t = (pr, t1)" by fastforce
  from assms call_excess [OF o, of h] call_neutral(7) [OF o] show ?thesis by (auto simp: InNaming o)
next
  case (InClosing d ds m)
  obtain e t1 where o: "usb_call (g_DeviceClose g (dev_id d)) t = (e, t1)" by fastforce
  from assms call_excess [OF o, of h] call_closes(3) [OF o] show ?thesis by (auto simp: InClosing o)
qed (use assms in \<open>auto simp: invalidateSession_excess split: result.splits sum.splits prod.splits if_splits
      dest: currentSession_excess [where h = h] execute_excess [where h = h]
        ensureSessionLocked_excess [where h = h] Close_excess [where h = h]\<close>)

lemma conc_step_excess:
  "conc_step g s s' \<Longrightarrow> finite (dom (cs_calls s)) \<Longrightarrow>
     excess (cs_transport s') h - all_in_hand (cs_calls s') h
       = excess (cs_transport s) h - all_in_hand (cs_calls s) h"
proof (induction rule: conc_step.induct)
  case (conc_spawn s i p)
  then have "in_hand p h = 0" by (cases p) simp_all
  with conc_spawn all_in_hand_upd [OF conc_spawn(3), of i p h] show ?case by (simp del: fun_upd_apply)
next
  case (conc_run s i p p' io t)
  then show ?case
    using run_excess [OF conc_run(2), of h] all_in_hand_upd [OF conc_run(3), of i p' h] by (simp del: fun_upd_apply)
next
  case (conc_pause s d)
  then show ?case using quiet_excess [OF ch341_sleep_quiet [of "cs_transport s" g d], of h] by simp
qed

lemma conc_reach_inv:
  "conc_reach g opens s \<Longrightarrow>
     conc_inv s \<and> (\<forall>h. excess (cs_transport s) h = all_in_hand (cs_calls s) h)"
proof (induction rule: conc_reach.induct)
  case (conc_start ids speed now u t)
  have "stray (\<lambda>h. 0) h = 0" for h by (cases h) simp_all
  with conc_start show ?case
    by (auto simp: NewCh341_def conc_inv_def ch341_wf_def io_at_def excess_def count_def owned_def
        all_in_hand_def split: if_splits result.splits)
next
  case (conc_more s s')
  then have f: "finite (dom (cs_calls s))" by (simp add: conc_inv_def)
  have "excess (cs_transport s') h = all_in_hand (cs_calls s') h" for h
    using conc_step_excess [OF conc_more(2) f, of h] conc_more.IH by simp
  then show ?case using conc_step_inv conc_more by blast
qed

end

text \<open>A call that waits for \<^verbatim>\<open>ioMu\<close> waits for one that can go on.\<close>

lemma holder_steps: "holds_io p \<Longrightarrow> ch341_run g p io t \<noteq> None"
  by (cases p) (auto split: result.splits sum.splits prod.splits)

lemma free_steps:
  assumes "\<not> finished p"
  shows "ch341_run g p False t \<noteq> None"
proof (cases p)
  case (InReading ds m)
  then show ?thesis by (cases ds) (auto simp: Let_def split: option.splits prod.splits)
qed (use assms in \<open>auto simp: Let_def split: result.splits sum.splits prod.splits\<close>)

lemma conc_progress:
  assumes "conc_inv s" and "cs_calls s i = Some p" and "\<not> finished p"
  shows "\<exists>j q. cs_calls s j = Some q \<and> ch341_run g q (cs_ioMu s) (cs_transport s) \<noteq> None"
proof (cases "cs_ioMu s")
  case True
  then obtain j q where "cs_calls s j = Some q" "holds_io q"
    using assms(1) by (auto simp: conc_inv_def io_at_def split: option.splits)
  with holder_steps show ?thesis by metis
next
  case False
  with free_steps [OF assms(3)] assms(2) show ?thesis by metis
qed

section \<open>Two runs\<close>

lemma run_alone_reach:
  assumes "conc_reach g opens \<lparr>cs_transport = t, cs_ioMu = io, cs_calls = calls\<rparr>" and "calls i = Some p"
    and "run_alone n g p io t = (p', io', t')"
  shows "conc_reach g opens \<lparr>cs_transport = t', cs_ioMu = io', cs_calls = calls(i \<mapsto> p')\<rparr>"
  using assms
proof (induction n arbitrary: p io t calls)
  case 0
  then have "calls(i \<mapsto> p) = calls" by (simp add: fun_upd_idem)
  with 0 show ?case by simp
next
  case (Suc n)
  show ?case
  proof (cases "ch341_run g p io t")
    case None
    with Suc.prems have "p' = p" "io' = io" "t' = t" by auto
    moreover have "calls(i \<mapsto> p) = calls" using Suc.prems(2) by (simp add: fun_upd_idem)
    ultimately show ?thesis using Suc.prems(1) by simp
  next
    case (Some x)
    then obtain p1 io1 t1 where x: "ch341_run g p io t = Some (p1, io1, t1)" by (cases x) auto
    from conc_more [OF Suc.prems(1) conc_run [of _ i p]] Suc.prems(2) x
    have "conc_reach g opens \<lparr>cs_transport = t1, cs_ioMu = io1, cs_calls = calls(i \<mapsto> p1)\<rparr>" by simp
    from Suc.IH [OF this] Suc.prems(3) x show ?thesis by (simp del: fun_upd_apply) simp
  qed
qed

lemma spawn_reach:
  "conc_reach g opens \<lparr>cs_transport = t, cs_ioMu = io, cs_calls = calls\<rparr> \<Longrightarrow> calls i = None \<Longrightarrow> begins p \<Longrightarrow>
     conc_reach g opens \<lparr>cs_transport = t, cs_ioMu = io, cs_calls = calls(i \<mapsto> p)\<rparr>"
  using conc_more [OF _ conc_spawn [of _ i p]] by fastforce

definition led_gousb :: "(sim \<times> (usb_handle \<Rightarrow> int)) gousb" where
  "led_gousb = ledger_gousb sim_gousb"

definition led_start :: "(sim \<times> (usb_handle \<Rightarrow> int)) ch341" where
  "led_start = \<lparr>t_usbIDs = [\<lparr>Vendor = 0x1a86, Product = 0x5512\<rparr>], t_speed = 100, t_session = None,
     t_closed = False, t_fresh = 0, t_clock = 0, t_usb = (([], []), \<lambda>h. 0)\<rparr>"

lemma led_start_reach: "conc_reach g snd \<lparr>cs_transport = led_start, cs_ioMu = False, cs_calls = Map.empty\<rparr>"
  by (rule conc_start [of "[\<lparr>Vendor = 0x1a86, Product = 0x5512\<rparr>]" 100 0 "(([], []), \<lambda>h. 0)"])
     (simp_all add: NewCh341_def led_start_def speed_command_def)

lemma led_current: "\<exists>t'. currentSession led_gousb led_start = (Inr sim_session, t')"
  by (simp add: currentSession_def ensureSessionLocked_def led_start_def usb_call_def openSession_def
      sim_device_def sim_endpoints sim_session_def sim_gousb_def led_gousb_def ledger_gousb_def counted_def)

text \<open>A transaction on its way while an inspection has a device open.\<close>

lemma led_run:
  "\<exists>t' stream m. conc_reach led_gousb snd \<lparr>cs_transport = t', cs_ioMu = True,
     cs_calls = [0 \<mapsto> TxRunning sim_session stream 1 0, 1 \<mapsto> InReading [sim_device] m]\<rparr>"
proof -
  obtain stream where s: "encodeTransaction 0x11 [0x02] 0 = Ok stream"
    using encodeTransaction_Ok_iff [of "0x11" "[0x02]" 0] by auto
  obtain t' where c: "currentSession led_gousb led_start = (Inr sim_session, t')" using led_current by blast
  obtain vs t2 where o: "usb_call (g_OpenDevices led_gousb (\<lambda>_. True)) t' = ((vs, [sim_device]), t2)"
    by (simp add: usb_call_def led_gousb_def ledger_gousb_def counted_def sim_gousb_def)
  have "conc_reach led_gousb snd \<lparr>cs_transport = led_start, cs_ioMu = False, cs_calls = [0 \<mapsto> TxBegin 0x11 [0x02] 0]\<rparr>"
    by (rule spawn_reach [OF led_start_reach]) simp_all
  from run_alone_reach [OF this, of 0 "TxBegin 0x11 [0x02] 0" 2] s c
  have "conc_reach led_gousb snd \<lparr>cs_transport = t', cs_ioMu = True,
      cs_calls = [0 \<mapsto> TxRunning sim_session stream 1 0]\<rparr>"
    by (simp add: numeral_eq_Suc)
  from spawn_reach [OF this, of 1 "InBegin True"]
  have "conc_reach led_gousb snd \<lparr>cs_transport = t', cs_ioMu = True,
      cs_calls = [0 \<mapsto> TxRunning sim_session stream 1 0, 1 \<mapsto> InBegin True]\<rparr>"
    by simp
  from run_alone_reach [OF this, of 1 "InBegin True" 1] o
  show ?thesis by (auto simp: fun_upd_twist)
qed

text \<open>A library that lists another device with an error each time: it hands out the device and the
  error.\<close>

definition stray_gousb :: "(sim \<times> (usb_handle \<Rightarrow> int)) gousb" where
  "stray_gousb = ledger_gousb
     (sim_gousb\<lparr>g_OpenDeviceWithVIDPID := (\<lambda>v p u. ((Some sim_device, Some (ErrorString ''list'')), 0, u))\<rparr>)"

text \<open>The device that came with the error stays open after the transport is closed.\<close>

lemma stray_run:
  "\<exists>t' e. conc_reach stray_gousb snd \<lparr>cs_transport = t', cs_ioMu = False,
     cs_calls = [0 \<mapsto> TxDone (Err e), 1 \<mapsto> ClDone None]\<rparr>
     \<and> t_closed t' \<and> snd (t_usb t') (HStray 0) = 1"
proof -
  obtain stream where s: "encodeTransaction 0x11 [0x02] 0 = Ok stream"
    using encodeTransaction_Ok_iff [of "0x11" "[0x02]" 0] by auto
  obtain e t1 where c: "Transaction stray_gousb 0x11 [0x02] 0 led_start = (Err e, t1)"
    "t_session t1 = None" "\<not> t_closed t1" "snd (t_usb t1) (HStray 0) = 1"
    by (simp add: Transaction_def s currentSession_def ensureSessionLocked_def led_start_def usb_call_def
        stray_gousb_def ledger_gousb_def counted_def sim_device_def one_def)
  obtain t2 where d: "Close stray_gousb t1 = (None, t2)" "t_closed t2" "snd (t_usb t2) (HStray 0) = 1"
    using c(2-4) by (simp add: Close_def usb_call_def stray_gousb_def ledger_gousb_def counted_def sim_gousb_def
        split: prod.splits)
  have "conc_reach stray_gousb snd \<lparr>cs_transport = led_start, cs_ioMu = False, cs_calls = [0 \<mapsto> TxBegin 0x11 [0x02] 0]\<rparr>"
    by (rule spawn_reach [OF led_start_reach]) simp_all
  from run_alone_reach [OF this, of 0 "TxBegin 0x11 [0x02] 0" 5 "TxDone (Err e)" False t1]
  have "conc_reach stray_gousb snd \<lparr>cs_transport = t1, cs_ioMu = False, cs_calls = [0 \<mapsto> TxDone (Err e)]\<rparr>"
    by (simp add: transaction_alone c(1))
  from spawn_reach [OF this, of 1 ClBegin]
  have "conc_reach stray_gousb snd \<lparr>cs_transport = t1, cs_ioMu = False,
      cs_calls = [0 \<mapsto> TxDone (Err e), 1 \<mapsto> ClBegin]\<rparr>" by simp
  from run_alone_reach [OF this, of 1 ClBegin 3 "ClDone None" False t2]
  have "conc_reach stray_gousb snd \<lparr>cs_transport = t2, cs_ioMu = False,
      cs_calls = [0 \<mapsto> TxDone (Err e), 1 \<mapsto> ClDone None]\<rparr>"
    by (simp add: close_alone d(1) fun_upd_twist)
  then show ?thesis using d by blast
qed

section \<open>Properties\<close>

lemma finished_nothing_in_hand: "finished p \<Longrightarrow> in_hand p h = 0"
  by (cases p) simp_all

lemma only_devices_in_hand: "in_hand p (HConfig n) = 0" "in_hand p (HInterface n) = 0"
proof -
  have "all_open ds (HConfig n) = 0" "all_open ds (HInterface n) = 0" for ds
    by (induction ds) (simp_all add: one_def)
  then show "in_hand p (HConfig n) = 0" "in_hand p (HInterface n) = 0" by (cases p; simp add: one_def)+
qed

text \<open>C7: where the USB handles are, however transactions, inspections and closing interleave. The
  open configurations and interfaces are exactly those of the current session. The open devices
  are that of the current session, those an enumeration in progress has opened and not yet
  closed, and those the library handed out together with an error: these are never closed
  (\<^verbatim>\<open>HStray\<close> counts them), every other handle is closed, and none twice. So once the transport is
  closed and the calls have returned, only devices that came with an error are still open. A
  transaction never works on a session that somebody else has closed: the session it runs on is
  the current one until it drops it itself. At most one call is past \<^verbatim>\<open>ioMu\<close>, and while some call
  has not returned some call can go on, so the locks do not deadlock.\<close>

theorem transport_interleavings:
  assumes "handle_ledger g opens" and "conc_reach g opens s"
  shows "(\<forall>n. opens (t_usb (cs_transport s)) (HDevice n)
            = owned (cs_transport s) (HDevice n) + opens (t_usb (cs_transport s)) (HStray n)
              + (\<Sum>i\<in>dom (cs_calls s). in_hand (the (cs_calls s i)) (HDevice n)))
     \<and> (\<forall>n. opens (t_usb (cs_transport s)) (HConfig n) = owned (cs_transport s) (HConfig n)
          \<and> opens (t_usb (cs_transport s)) (HInterface n) = owned (cs_transport s) (HInterface n))
     \<and> (t_closed (cs_transport s) \<and> (\<forall>i p. cs_calls s i = Some p \<longrightarrow> finished p) \<longrightarrow>
          (\<forall>n. opens (t_usb (cs_transport s)) (HDevice n) = opens (t_usb (cs_transport s)) (HStray n)
             \<and> opens (t_usb (cs_transport s)) (HConfig n) = 0
             \<and> opens (t_usb (cs_transport s)) (HInterface n) = 0))
     \<and> (\<forall>i p ses. cs_calls s i = Some p \<and> uses_session p = Some ses \<longrightarrow>
          t_session (cs_transport s) = Some ses)
     \<and> (\<forall>i j. io_at s i \<and> io_at s j \<longrightarrow> i = j)
     \<and> (\<forall>i p. cs_calls s i = Some p \<and> \<not> finished p \<longrightarrow>
          (\<exists>j q. cs_calls s j = Some q \<and> ch341_run g q (cs_ioMu s) (cs_transport s) \<noteq> None))"
    (is "?devices \<and> ?others \<and> (?over \<longrightarrow> ?left) \<and> ?current \<and> ?alone \<and> ?progress")
proof -
  have i: "conc_inv s"
    and x: "opens (t_usb (cs_transport s)) h - stray (opens (t_usb (cs_transport s))) h
        = owned (cs_transport s) h + all_in_hand (cs_calls s) h" for h
    using handle_ledger.conc_reach_inv [OF assms]
    by (simp_all add: handle_ledger.excess_def [OF assms(1)] handle_ledger.count_def [OF assms(1)] algebra_simps)
  have d: ?devices using x [of "HDevice _"] by (simp add: all_in_hand_def algebra_simps)
  have o: ?others
    using x [of "HConfig _"] x [of "HInterface _"] by (simp add: all_in_hand_def only_devices_in_hand)
  have "?left" if "?over"
  proof -
    have "t_session (cs_transport s) = None" using i that by (auto simp: conc_inv_def ch341_wf_def)
    moreover have "(\<Sum>i\<in>dom (cs_calls s). in_hand (the (cs_calls s i)) h) = 0" for h
      using that by (intro sum.neutral) (auto intro: finished_nothing_in_hand)
    ultimately show ?thesis using d o by (simp add: owned_def)
  qed
  moreover have ?progress using conc_progress [OF i] by blast
  ultimately show ?thesis using d o i unfolding conc_inv_def by blast
qed

theorem transport_interleavings_witness:
  "(\<exists>s. conc_reach led_gousb snd s \<and> io_at s 0 \<and> t_session (cs_transport s) = Some sim_session
     \<and> snd (t_usb (cs_transport s)) (HConfig 1) = 1 \<and> snd (t_usb (cs_transport s)) (HConfig 2) = 0
     \<and> snd (t_usb (cs_transport s)) (HDevice 0) = 2 + snd (t_usb (cs_transport s)) (HStray 0))
   \<and> (\<exists>s. conc_reach stray_gousb snd s \<and> t_closed (cs_transport s)
     \<and> snd (t_usb (cs_transport s)) (HDevice 0) = 1)"
proof
  obtain t' stream m where r: "conc_reach led_gousb snd \<lparr>cs_transport = t', cs_ioMu = True,
     cs_calls = [0 \<mapsto> TxRunning sim_session stream 1 0, 1 \<mapsto> InReading [sim_device] m]\<rparr>" (is "conc_reach _ _ ?s")
    using led_run by blast
  have l: "handle_ledger led_gousb snd" unfolding led_gousb_def by (rule ledger.handle_ledger_axioms)
  have c: "cs_calls ?s 0 = Some (TxRunning sim_session stream 1 0)" by simp
  note T = transport_interleavings [OF l r]
  have ses: "t_session t' = Some sim_session"
    using T [THEN conjunct2, THEN conjunct2, THEN conjunct2, THEN conjunct1, rule_format, OF conjI [OF c]] by simp
  have "snd (t_usb t') (HConfig n) = owned t' (HConfig n)" for n
    using T [THEN conjunct2, THEN conjunct1] by simp
  moreover have "snd (t_usb t') (HDevice 0) = 2 + snd (t_usb t') (HStray 0)"
    using T [THEN conjunct1, rule_format, of 0] ses
    by (simp add: owned_def session_handles_def one_def sim_session_def sim_device_def)
  ultimately show "\<exists>s. conc_reach led_gousb snd s \<and> io_at s 0 \<and> t_session (cs_transport s) = Some sim_session
     \<and> snd (t_usb (cs_transport s)) (HConfig 1) = 1 \<and> snd (t_usb (cs_transport s)) (HConfig 2) = 0
     \<and> snd (t_usb (cs_transport s)) (HDevice 0) = 2 + snd (t_usb (cs_transport s)) (HStray 0)"
    using r ses c
    by (intro exI [of _ ?s]) (simp add: io_at_def owned_def session_handles_def one_def sim_session_def)
next
  obtain t' e where r: "conc_reach stray_gousb snd \<lparr>cs_transport = t', cs_ioMu = False,
     cs_calls = [0 \<mapsto> TxDone (Err e), 1 \<mapsto> ClDone None]\<rparr>" (is "conc_reach _ _ ?s")
    and t': "t_closed t'" "snd (t_usb t') (HStray 0) = 1"
    using stray_run by blast
  have l: "handle_ledger stray_gousb snd" unfolding stray_gousb_def by (rule ledger.handle_ledger_axioms)
  have "\<forall>i p. cs_calls ?s i = Some p \<longrightarrow> finished p" by auto
  with transport_interleavings [OF l r] t' have "snd (t_usb t') (HDevice 0) = 1" by auto
  then show "\<exists>s. conc_reach stray_gousb snd s \<and> t_closed (cs_transport s)
     \<and> snd (t_usb (cs_transport s)) (HDevice 0) = 1"
    using r t' by (intro exI [of _ ?s]) simp
qed

end
