(* ===== verification/Unplugged.thy ===== *)
theory Unplugged
  imports HttpConc
begin

text \<open>
  A device that is not there, seen from every layer. The transport reports
  \<open>ErrorDeviceMissing\<close> (no device with a configured identity, or the transport has been closed), the
  driver of internal/chip/driver.go retries until its window is over and passes the error on, the
  service turns it into \<^verbatim>\<open>ErrChipMissing\<close> and keeps nothing, and the handlers of
  internal/httpapi/handlers.go answer 503.
\<close>

section \<open>Driver\<close>

text \<open>In a state where the device is gone, every write transaction fails with
  \<open>ErrorDeviceMissing\<close>, and the device stays gone.\<close>

definition absent :: "'w i2c \<Rightarrow> byte \<Rightarrow> ('w \<Rightarrow> bool) \<Rightarrow> bool" where
  "absent bus a gone \<longleftrightarrow>
     (\<forall>wd w r w'. gone w \<longrightarrow> wd \<noteq> [] \<longrightarrow> length wd \<le> 129 \<longrightarrow> i2c_Transaction bus a wd 0 w = (r, w') \<longrightarrow>
        gone w' \<and> (\<exists>e. r = Err e \<and> transport_IsKind e ErrorDeviceMissing))
     \<and> (\<forall>t w. gone w \<longrightarrow> gone (i2c_sleep bus t w))"

lemma absentD:
  assumes "absent bus a gone" and "gone w" and "wd \<noteq> []" and "length wd \<le> 129"
  shows "\<exists>e w'. i2c_Transaction bus a wd 0 w = (Err e, w') \<and> gone w' \<and> transport_IsKind e ErrorDeviceMissing"
  using assms unfolding absent_def by (metis surj_pair)

definition misses :: "('w \<Rightarrow> 'a result \<times> 'w) \<Rightarrow> ('w \<Rightarrow> bool) \<Rightarrow> bool" where
  "misses action gone \<longleftrightarrow> (\<forall>w. gone w \<longrightarrow>
     (\<exists>e w'. action w = (Err e, w') \<and> gone w' \<and> transport_IsKind e ErrorDeviceMissing))"

text \<open>The outcome of a driver operation: the error, after the retry window.\<close>

definition missing_after :: "'w i2c \<Rightarrow> ('w \<Rightarrow> bool) \<Rightarrow> int \<Rightarrow> ('a result \<times> 'w) option \<Rightarrow> bool" where
  "missing_after bus gone deadline m \<longleftrightarrow>
     (\<exists>e w'. m = Some (Err e, w') \<and> transport_IsKind e ErrorDeviceMissing \<and> gone w' \<and> deadline < i2c_now bus w')"

lemma missing_andThen: "missing_after bus gone t m \<Longrightarrow> missing_after bus gone t (andThen m k)"
  by (auto simp: missing_after_def andThen_def)

lemma missing_retryable: "transport_IsKind e k \<Longrightarrow> isRetryableTransportError e"
  by (simp add: transport_IsKind_def isRetryableTransportError_def)

context i2c_clock
begin

lemma retry_loop_missing:
  assumes att: "attempts bus action Q" and miss: "misses action gone"
    and sleep: "\<And>t w. gone w \<Longrightarrow> gone (i2c_sleep bus t w)" and "gone w"
  shows "missing_after bus gone deadline (retry_loop bus operation action deadline w)"
  using \<open>gone w\<close>
proof (induction "nat (deadline - i2c_now bus w + 1)" arbitrary: w rule: less_induct)
  case less
  obtain e w1 where a: "action w = (Err e, w1)" "gone w1" "transport_IsKind e ErrorDeviceMissing"
    using miss less.prems unfolding misses_def by blast
  have t: "i2c_now bus w \<le> i2c_now bus w1" using attemptsD(1) [OF att a(1)] .
  note r = missing_retryable [OF a(3)]
  show ?case
  proof (cases "i2c_now bus w1 > deadline")
    case True
    then show ?thesis
      using a r by (simp add: retry_loop.simps [of bus operation action deadline w] missing_after_def
          transport_IsKind_def)
  next
    case False
    let ?w2 = "i2c_sleep bus ioRetryDelay w1"
    have "i2c_now bus w1 + ioRetryDelay \<le> i2c_now bus ?w2"
      by (rule sleep_clock) (simp add: ioRetryDelay_def)
    then have "nat (deadline - i2c_now bus ?w2 + 1) < nat (deadline - i2c_now bus w + 1)"
      using t False by (simp add: ioRetryDelay_def)
    from less.hyps [OF this sleep [OF a(2)]] show ?thesis
      using a(1) r False by (simp add: retry_loop.simps [of bus operation action deadline w])
  qed
qed

lemma register_access_missing:
  assumes d: "drv_transport d = bus" and ab: "absent bus (drv_address7Bit d) gone" and "gone w"
  shows "1 \<le> len \<Longrightarrow> len \<le> maximumDataBytes \<Longrightarrow>
      missing_after bus gone (i2c_now bus w + ioRetryTimeout) (readRegister d register len w)"
    and "length data \<le> 128 \<Longrightarrow>
      missing_after bus gone (i2c_now bus w + ioRetryTimeout) (writeRegister d register data w)"
proof -
  have sleep: "\<And>t w. gone w \<Longrightarrow> gone (i2c_sleep bus t w)" using ab by (simp add: absent_def)
  have "misses (selectRegisterOnce d register) gone"
    unfolding misses_def
  proof (intro allI impI)
    fix w assume "gone w"
    then show "\<exists>e w'. selectRegisterOnce d register w = (Err e, w') \<and> gone w' \<and> transport_IsKind e ErrorDeviceMissing"
      using absentD [OF ab, of w "[word_of_int register]"] by (auto simp: selectRegisterOnce_def d)
  qed
  then have read: "misses (readRegisterOnce d register len) gone"
    by (fastforce simp: misses_def readRegisterOnce_def)
  show "missing_after bus gone (i2c_now bus w + ioRetryTimeout) (readRegister d register len w)"
    if "1 \<le> len" "len \<le> maximumDataBytes"
    using retry_loop_missing [OF readRegisterOnce_attempts [OF d] read sleep assms(3)] that
    by (simp add: readRegister_def retryIO_def d)
  show "missing_after bus gone (i2c_now bus w + ioRetryTimeout) (writeRegister d register data w)"
    if len: "length data \<le> 128"
  proof -
    have "misses (writeRegisterOnce d register data) gone"
      unfolding misses_def
    proof (intro allI impI)
      fix w assume "gone w"
      then show "\<exists>e w'. writeRegisterOnce d register data w = (Err e, w') \<and> gone w' \<and> transport_IsKind e ErrorDeviceMissing"
        using absentD [OF ab, of w "word_of_int register # data"] len by (auto simp: writeRegisterOnce_def d)
    qed
    from retry_loop_missing [OF writeRegisterOnce_attempts [OF d] this sleep assms(3)] show ?thesis
      by (simp add: writeRegister_def retryIO_def d)
  qed
qed

lemma driver_missing:
  assumes d: "drv_transport d = bus" and ab: "absent bus (drv_address7Bit d) gone" and g: "gone w"
  shows "missing_after bus gone (i2c_now bus w + ioRetryTimeout) (ProtocolMajor d None w)"
    and "missing_after bus gone (i2c_now bus w + ioRetryTimeout) (ReadCertificate d None w)"
    and "ch \<noteq> [] \<Longrightarrow> length ch \<le> 128 \<Longrightarrow>
      missing_after bus gone (i2c_now bus w + ioRetryTimeout) (SignChallenge d None ch w)"
proof -
  note A = register_access_missing [OF d ab g]
  show "missing_after bus gone (i2c_now bus w + ioRetryTimeout) (ProtocolMajor d None w)"
    using A(1) [of 1] by (simp add: ProtocolMajor_def readByte_def missing_andThen maximumDataBytes_def)
  show "missing_after bus gone (i2c_now bus w + ioRetryTimeout) (ReadCertificate d None w)"
    using A(1) [of 2] by (simp add: ReadCertificate_def readUnsignedBigEndianShort_def missing_andThen maximumDataBytes_def)
  show "missing_after bus gone (i2c_now bus w + ioRetryTimeout) (SignChallenge d None ch w)"
    if "ch \<noteq> []" "length ch \<le> 128"
    using that A(2) [of "[word_of_int (drop_bit 8 (int (length ch))), word_of_int (int (length ch))]"]
    by (simp add: SignChallenge_def writeUnsignedBigEndianShort_def missing_andThen maximumChallengeBytes_def Suc_le_eq)
qed

end

section \<open>Transport\<close>

text \<open>The library finds no device; or the transport is closed.\<close>

definition unplugged :: "'u gousb \<Rightarrow> bool" where
  "unplugged g \<longleftrightarrow> (\<forall>v p u. \<exists>dt u'. g_OpenDeviceWithVIDPID g v p u = ((None, None), dt, u'))"

definition device_gone :: "'u gousb \<Rightarrow> 'u ch341 \<Rightarrow> bool" where
  "device_gone g t \<longleftrightarrow> t_closed t \<or> (unplugged g \<and> t_session t = None)"

lemma ensure_loop_unplugged:
  assumes "unplugged g"
  shows "\<exists>t'. ensure_loop g ids None t = (Inl (TransportError ErrorDeviceMissing ''open CH341''
     (Some (ErrorString ''no matching USB device''))), t') \<and> t_quiet t t'"
proof (induction ids arbitrary: t)
  case Nil
  then show ?case by simp
next
  case (Cons i ids)
  obtain dt u' where "g_OpenDeviceWithVIDPID g (Vendor i) (Product i) (t_usb t) = ((None, None), dt, u')"
    using assms unfolding unplugged_def by blast
  then obtain t1 where c: "usb_call (g_OpenDeviceWithVIDPID g (Vendor i) (Product i)) t = ((None, None), t1)"
    by (simp add: usb_call_def)
  have "t_quiet t t1" by (rule usb_call_quietD [OF c])
  with Cons.IH [of t1] c show ?case by (auto intro: t_quiet_trans)
qed

lemma ch341_absent:
  assumes "address7Bit \<le> 0x7f"
  shows "absent (ch341_i2c g) address7Bit (device_gone g)"
proof -
  have "device_gone g t' \<and> (\<exists>e. r = Err e \<and> transport_IsKind e ErrorDeviceMissing)"
    if gone: "device_gone g t" and wd: "wd \<noteq> []" "length wd \<le> 129"
      and tr: "Transaction g address7Bit wd 0 t = (r, t')" for wd t r t'
  proof -
    obtain stream where s: "encodeTransaction address7Bit wd 0 = Ok stream"
      using encodeTransaction_Ok_iff [of address7Bit wd 0] assms wd by auto
    show ?thesis
    proof (cases "t_closed t")
      case True
      then show ?thesis using tr s gone
        by (auto simp: Transaction_def currentSession_def closed_error_def transport_IsKind_def)
    next
      case False
      then have "unplugged g" "t_session t = None" using gone by (simp_all add: device_gone_def)
      then show ?thesis
        using tr s False ensure_loop_unplugged [of g "t_usbIDs t" t]
        by (auto simp: Transaction_def currentSession_def ensureSessionLocked_def transport_IsKind_def
            device_gone_def t_quiet_def)
    qed
  qed
  moreover have "device_gone g (ch341_sleep g d t)" if "device_gone g t" for d t
    using that ch341_sleep_quiet [of t g d] by (auto simp: device_gone_def t_quiet_def t_extends_def)
  ultimately show ?thesis unfolding absent_def by simp
qed

section \<open>Service\<close>

text \<open>A call that cannot be answered without the chip.\<close>

fun needs_chip :: "'w chip_driver \<Rightarrow> (string \<Rightarrow> bool) \<Rightarrow> call \<Rightarrow> 'w service \<Rightarrow> bool" where
  "needs_chip d uuid_ok CallCertificate sv \<longleftrightarrow> sv_certificate sv = None"
| "needs_chip d uuid_ok (CallSign requestID challenge) sv \<longleftrightarrow>
     uuid_ok requestID \<and> challenge \<noteq> [] \<and> length challenge \<le> 128 \<and> live_now d sv requestID = None"
| "needs_chip d uuid_ok CallProbe sv \<longleftrightarrow> True"

lemma stack_missing:
  assumes "address7Bit \<le> 0x7f" and "device_gone g t"
  shows "missing_after (ch341_i2c g) (device_gone g) (t_clock t + ioRetryTimeout)
      (cd_ProtocolMajor (stack_driver g address7Bit) t)"
    and "ch \<noteq> [] \<Longrightarrow> length ch \<le> 128 \<Longrightarrow> missing_after (ch341_i2c g) (device_gone g) (t_clock t + ioRetryTimeout)
      (cd_SignChallenge (stack_driver g address7Bit) ch t)"
  using ch341_bus.driver_missing [of "\<lparr>drv_transport = ch341_i2c g, drv_address7Bit = address7Bit\<rparr>" g "device_gone g" t]
    ch341_absent [OF assms(1), of g] assms(2)
  by (simp_all add: stack_driver_def Let_def)

lemma missing_call:
  assumes a: "address7Bit \<le> 0x7f" and gone: "device_gone g (sv_world sv)" and ready: "service_ready sv"
    and d: "d = stack_driver g address7Bit" and needs: "needs_chip d uuid_ok c sv"
  shows "\<exists>e sv'. service_call d uuid_ok c sv = Some (ReplyError (normalizeHardwareError e), sv')
     \<and> transport_IsKind e ErrorDeviceMissing \<and> service_ready sv' \<and> device_gone g (sv_world sv')
     \<and> needs_chip d uuid_ok c sv' \<and> sv_now d sv + ioRetryTimeout < sv_now d sv'"
proof -
  have now: "cd_now d = t_clock" by (simp add: d stack_driver_def Let_def)
  have gate: "\<not> gt_token (sv_gate sv)" and ttl: "sc_ttl (sv_cache sv) = cacheTTL"
    using ready by (simp_all add: service_ready_def)
  obtain e w where pm: "cd_ProtocolMajor d (sv_world sv) = Some (Err e, w)" "transport_IsKind e ErrorDeviceMissing"
    "device_gone g w" "t_clock (sv_world sv) + ioRetryTimeout < t_clock w"
    using stack_missing(1) [OF a gone] by (auto simp: missing_after_def d)
  have eval: "service_call d uuid_ok c sv = Some (ReplyError (normalizeHardwareError e), sv\<lparr>sv_gate := newChipGate, sv_world := w\<rparr>)"
    if "c = CallCertificate \<or> c = CallProbe"
    using that needs gate pm(1)
    by (auto simp: service_call_def numeral_eq_Suc run_thread_Suc Certificate_load_def gate_acquire_def
        on_hardware_def gate_release_def newChipGate_def)
  show ?thesis
  proof (cases c)
    case (CallSign rid ch)
    obtain e w where sc: "cd_SignChallenge d ch (sv_world sv) = Some (Err e, w)" "transport_IsKind e ErrorDeviceMissing"
      "device_gone g w" "t_clock (sv_world sv) + ioRetryTimeout < t_clock w"
      using stack_missing(2) [OF a gone, of ch] needs by (auto simp: missing_after_def d CallSign)
    have spec: "sign_spec d uuid_ok rid ch (live_now d sv rid) (sv_world sv)
        = Some (ReplyError (normalizeHardwareError e), None, w)"
      using needs sc(1) by (simp add: sign_spec_def CallSign Suc_le_eq)
    obtain sv' where sv': "service_call d uuid_ok (CallSign rid ch) sv = Some (ReplyError (normalizeHardwareError e), sv')"
      "sv_world sv' = w" "\<not> gt_token (sv_gate sv')" "live_now d sv' rid = None"
      using stack.sign_call_spec [OF gate ttl, of g address7Bit uuid_ok rid ch] spec unfolding d by auto
    have "sc_ttl (sv_cache sv') = cacheTTL"
      using run_thread_ttl [OF sv'(1) [unfolded service_call_def]] ttl by simp
    with sv' sc needs show ?thesis by (auto simp: CallSign service_ready_def sv_now_def now)
  qed (use eval pm needs ttl in \<open>auto simp: service_ready_def newChipGate_def sv_now_def now\<close>)
qed

section \<open>Requests\<close>

lemma mux_error_reply:
  assumes "handler_call (srv_bearerToken srv) r = Some c"
  shows "\<exists>st. mux (replay_api a (ReplyError e)) f fallback r (new_recorder, new_state) srv
     = Some (Ok (writeServiceError e (new_recorder, st)), srv)"
proof (cases "http_Path r = ''/mfi/certificate''")
  case True
  with assms have "http_Method r = ''GET''" "authorized (srv_bearerToken srv) False r"
    by (auto simp: handler_call_def split: if_splits)
  with True show ?thesis
    by (auto simp: mux_def withAuth_def handleCertificate_def requireMethod_def)
next
  case False
  with assms obtain req ch where "http_Path r = ''/mfi/sign''" "http_Method r = ''POST''"
    "authorized (srv_bearerToken srv) False r" "decodeJSON (http_BodyReadable r) (http_Body r) = Some req"
    "rq_RequestID req \<noteq> []" "rq_Challenge req \<noteq> []" "base64_DecodeString (rq_Challenge req) = Some ch"
    by (auto simp: handler_call_def split: if_splits option.splits)
  then show ?thesis
    by (auto simp: mux_def withAuth_def handleSign_def requireMethod_def Let_def)
qed

text \<open>C14. While the device is missing, or after the transport has been closed, every authorized and
  well-formed request that needs the chip is answered with 503 and \<^verbatim>\<open>chip missing\<close>: the driver has
  retried for its whole window of two seconds, nothing is stored, and the next such request
  meets the same state.\<close>

theorem device_missing_answered:
  assumes "address7Bit \<le> 0x7f" and "d = stack_driver g address7Bit"
    and "device_gone g (sv_world (srv_service srv))" and "service_ready (srv_service srv)"
    and "holds_newest history (srv_recent srv)"
    and "handler_call (srv_bearerToken srv) r = Some c" and "needs_chip d uuid_ok c (srv_service srv)"
  shows "\<exists>w st srv'. serve (service_api d (InspectUSB g) uuid_ok) f fallback r srv = Some (Ok (w, st), srv')
     \<and> rec_wire w = Some 503 \<and> rec_body w = JsonDetail ''chip missing''
     \<and> sv_now d (srv_service srv) + 2 * time_Second < sv_now d (srv_service srv')
     \<and> device_gone g (sv_world (srv_service srv')) \<and> service_ready (srv_service srv')
     \<and> needs_chip d uuid_ok c (srv_service srv')"
proof -
  obtain e sv' where call: "service_call d uuid_ok c (srv_service srv) = Some (ReplyError (normalizeHardwareError e), sv')"
    "transport_IsKind e ErrorDeviceMissing" "service_ready sv'" "device_gone g (sv_world sv')"
    "needs_chip d uuid_ok c sv'" "sv_now d (srv_service srv) + ioRetryTimeout < sv_now d sv'"
    using missing_call [OF assms(1,3,4,2,7)] by blast
  have "handler_call (srv_bearerToken (srv\<lparr>srv_service := sv'\<rparr>)) r = Some c" using assms(6) by simp
  from mux_error_reply [OF this] obtain st where
    m: "mux (service_api d (InspectUSB g) uuid_ok) f fallback r (new_recorder, new_state) srv
      = Some (Ok (writeServiceError (normalizeHardwareError e) (new_recorder, st)), srv\<lparr>srv_service := sv'\<rparr>)"
    using mux_calls [OF assms(6)] call(1) by fastforce
  define w where "w = fst (writeServiceError (normalizeHardwareError e) (new_recorder, st))"
  have w: "rec_wire w = Some 503" "rec_body w = JsonDetail ''chip missing''"
    by (simp_all add: w_def writeServiceError_def chip_missing_response [OF call(2)] writeJSON_fresh)
  obtain st' where ws: "writeServiceError (normalizeHardwareError e) (new_recorder, st) = (w, st')"
    unfolding w_def by (metis prod.collapse)
  from serve_observed [OF m [unfolded ws] assms(5)] obtain rc where
    "serve (service_api d (InspectUSB g) uuid_ok) f fallback r srv
      = Some (Ok (w, st'), srv\<lparr>srv_service := sv', srv_recent := rc\<rparr>)" by auto
  with w call show ?thesis by (auto simp: ioRetryTimeout_def time_Second_def)
qed

definition bare_gousb :: "sim gousb" where
  "bare_gousb = sim_gousb\<lparr>g_OpenDeviceWithVIDPID := (\<lambda>v p u. ((None, None), 1000000, u))\<rparr>"

definition bare_server :: "sim ch341 service server" where
  "bare_server = \<lparr>srv_bearerToken = [], srv_startedAt = 0, srv_recent = newRecentStore 20,
     srv_service = \<lparr>sv_gate = newChipGate, sv_cache = newSignatureCache cacheTTL, sv_certificate = None,
       sv_world = sim_start\<rparr>\<rparr>"

definition certificate_request :: request where
  "certificate_request = test_request\<lparr>http_Method := ''GET'', http_Path := ''/mfi/certificate''\<rparr>"

theorem device_missing_answered_witness:
  "\<exists>w st srv'. serve (service_api (stack_driver bare_gousb 0x11) (InspectUSB bare_gousb) (\<lambda>_. True)) test_format
       (\<lambda>r w. w) certificate_request bare_server = Some (Ok (w, st), srv')
     \<and> rec_wire w = Some 503 \<and> rec_body w = JsonDetail ''chip missing''"
proof -
  have "device_gone bare_gousb (sv_world (srv_service bare_server))"
    by (simp add: device_gone_def unplugged_def bare_gousb_def bare_server_def sim_start_def)
  moreover have "service_ready (srv_service bare_server)"
    by (simp add: service_ready_def bare_server_def newChipGate_def newSignatureCache_def)
  moreover have "holds_newest [] (srv_recent bare_server)"
    by (simp add: bare_server_def holds_newest_new)
  moreover have "handler_call (srv_bearerToken bare_server) certificate_request = Some CallCertificate"
    by (simp add: handler_call_def authorized_def bare_server_def certificate_request_def)
  moreover have "needs_chip (stack_driver bare_gousb 0x11) (\<lambda>_. True) CallCertificate (srv_service bare_server)"
    by (simp add: bare_server_def)
  ultimately show ?thesis
    using device_missing_answered [of "0x11" _ bare_gousb bare_server "[]" certificate_request CallCertificate
        "\<lambda>_. True" test_format "\<lambda>r w. w", OF _ refl] by fastforce
qed

end
