(* ===== verification/Spec2Isabelle.thy ===== *)
theory Spec2Isabelle
  imports Shutdown Ch341Conc Unplugged
begin

text \<open>
  \<^bold>\<open>Verification of remote-mfi-for-xcertplay\<close>

  The program serves the Apple MFi authentication coprocessor of one machine to others over HTTP.
  An HTTP request for the certificate or for a signature goes through the service, which admits
  one call at a time to the chip, to the driver, which speaks the register protocol of the
  coprocessor, to the transport, which performs each I2C transaction through a CH341 USB bridge
  by encoding it as a stream of bridge commands. This development models the Go sources under
  src/ layer by layer and proves the layers correct, and then their composition.

  \<^bold>\<open>Parts, theories and sources\<close>

  \<^item> \<open>Prelude\<close>, \<open>GoErrors\<close>: bytes, formatting verbs, chunks of a stream; Go error values with their
    chains (\<^verbatim>\<open>errors.Is\<close>, \<^verbatim>\<open>errors.As\<close>), the error structs of internal/transport/transport.go and
    internal/chip/driver.go and the sentinels of internal/biz/service.go. A call returns
    \<open>Ok\<close>, \<open>Err\<close> or \<open>Panic\<close>.
  \<^item> \<open>Encoder\<close> (internal/transport/ch341_encoder.go), \<open>StreamDecode\<close> (\<^verbatim>\<open>instructionLengths\<close> and
    \<^verbatim>\<open>checkStatusBytes\<close> of ch341.go, and the meaning of a command stream as bus operations),
    \<open>EncoderCorrect\<close>: an encoded stream means the requested transaction (C1), the response counts
    that the transport expects fit it (C2), exactly the valid requests are encoded (C3), and
    \<^verbatim>\<open>instructionLengths\<close> is equivalent on every byte string to a reference decoder (C30).
  \<^item> \<open>UsbModel\<close>, \<open>UsbId\<close>, \<open>Ch341\<close> (internal/transport/ch341.go): error classification, timeouts, endpoint
    choice, sessions, bulk transfers, transactions, inspection, with the fields of
    \<^verbatim>\<open>Ch341Transport\<close> and \<^verbatim>\<open>ch341Session\<close> as records. \<open>Ch341Correct\<close>, \<open>Ch341Props\<close>: a transaction returns
    the answer of the device (C4), keeps the session invariant and the contract on lengths and
    errors (C5), nothing happens after \<^verbatim>\<open>Close\<close> (C6), it never panics (\<open>Transaction_no_panic\<close>), timeouts
    cover the transfer without overflow (C8), the endpoint choice (C9) and the device list (C10)
    are right. \<open>Ch341Conc\<close>: the operations as programs of small steps between the two mutexes, in all
    interleavings, every library call of an enumeration a step of its own; where every open handle
    is (in the session, in an enumeration in progress, or a device that came with an error, which is
    never closed), a transaction runs on the current session, and the locks exclude and do not
    deadlock (C7).
  \<^item> \<open>Chip\<close> (internal/chip/driver.go), \<open>ChipCorrect\<close>, \<open>ChipSpec\<close>, \<open>ChipProps\<close>, \<open>ChipFrame\<close>: the driver on any
    transport, the coprocessor as a register machine, the certificate (C11) and signature (C12)
    read through transient failures, termination of the retry and poll loops (C13) and their last
    attempt (\<open>retryIO_last_attempt\<close>), which registers the bytes of a certificate of any accepted length
    come from, with the wrap-around after 26496 bytes (C15), and what the driver leaves alone.
  \<^item> \<open>Stack\<close>: the CH341 transport provides the interface of the driver (all its errors are retryable,
    \<open>Transaction_errors_retryable\<close>), whose operations return on it (\<open>driver_on_ch341_returns\<close>); the status of an inspection is right in every reachable state
    (C17).
  \<^item> \<open>Digest\<close>: SHA-256, hexadecimal and base64. \<open>SigCache\<close>: the signature cache and its lookups
    (\<open>cache_lookup_after_put\<close>).
  \<^item> \<open>Service\<close> (internal/biz/service.go): every call as a program of small steps over the shared state;
    \<open>ServiceConc\<close>: all interleavings, with timeouts, cancellations and a changing environment;
    \<open>ServiceProps\<close>: mutual exclusion (C19), one signature per id and lifetime (C20), provenance of
    signatures (C21), agreement of certificates (C22), progress (C23), refinement of the abstract
    specification of signing (C24), idempotence (C25), one certificate read (C26).
  \<^item> \<open>Recent\<close> (internal/httpapi/recent.go): the ring buffer refines a list (C27).
  \<^item> \<open>GoStrings\<close>, \<open>Config\<close>, \<open>ConfigProps\<close> (internal/config/config.go): USB identities on the command
    line (C28, C29), and that every accepted configuration lets the parts start (\<open>Parse_initializes\<close>).
  \<^item> \<open>JsonDecode\<close>, \<open>HttpApi\<close>, \<open>HttpProps\<close> (internal/httpapi/server.go, handlers.go): decoding of the request
    body, handlers, authentication, observation; access control (C32, C33), error responses
    (C34), signing end to end (C35, C36), the request log (C37) and well-formed responses (C38).
    \<open>HttpConc\<close>: many requests at once, each up to its service call, in that call, and after it (C31).
  \<^item> \<open>Unplugged\<close>: a missing device, from the USB library through transport, driver and service to the
    answer 503 (C14).
  \<^item> \<open>Startup\<close> (cmd/remote-mfi-for-xcertplay/main.go): construction; of requests that follow one another
    every one is answered (C39). \<open>Lifecycle\<close>: \<^verbatim>\<open>main\<close> and \<^verbatim>\<open>run\<close> with all their goroutines at once, the main
    one, the server (with internal/ver/ver.go in its first log record), the probe, the handlers and
    their service calls, as one step relation over \<open>HttpConc\<close>, with signals, the outcomes that the
    documentation of \<^verbatim>\<open>net/http\<close> allows, the log records and the exit code. \<open>Shutdown\<close>: what holds in every
    reachable state up to the exit code (C16), that a shutdown can always drain the requests in
    flight, with exit code 0 if that is done by its deadline and 1 otherwise, and does not hang on
    them (C18), and why the program ends and with which code (C40).

  \<^bold>\<open>Interfaces\<close>

  Each dependency between layers is a locale, interpreted on the model of the layer below:
  \<open>i2c_clock\<close> and \<open>i2c_frame\<close> (driver on transport; the latter for reachability and for every use short
  of \<^verbatim>\<open>Close\<close>) by the CH341 transport, \<open>expiring_cache\<close> (service on
  cache) by the signature cache, \<open>service_driver\<close> (service on driver) by the driver on the CH341
  stack, \<open>http_service\<close> (handlers on service) and \<open>inspected_service\<close> (handlers on driver and inspection,
  when they run concurrently) by the service on that stack. \<open>handle_ledger\<close> (the transport on a USB
  library whose open handles are counted) is interpreted on any USB library, wrapped with the
  counters.

  \<^bold>\<open>Parameters\<close>

  Code outside the repository is an argument. The USB library is the record \<open>gousb\<close> of its calls
  over an arbitrary device state; the one hypothesis about it, \<open>reads_fit\<close>, is the contract of
  \<^verbatim>\<open>io.Reader\<close>, that a read returns no more bytes than the buffer holds. Its \<^verbatim>\<open>OpenDeviceWithVIDPID\<close> may
  return a device together with an error, as it documents. \<open>answers\<close> describes a bridge
  that works, \<open>coprocessor\<close> a chip that follows its protocol and \<open>register_file\<close> one with any readable
  registers, for the theorems about success. What \<^verbatim>\<open>Shutdown\<close> of \<^verbatim>\<open>net/http\<close> may return, and when, is
  \<open>shutdown_may_return\<close>: nil, or the error of a listener, once all requests have ended within the
  deadline of its context, and only the error of the context after it. The
  UUID parser is the predicate \<open>uuid_ok\<close>; time stamps are rendered by the functions of
  \<open>clock_format\<close>; what \<^verbatim>\<open>http.ServeMux\<close> does for unknown paths is \<open>fallback\<close>.

  \<^bold>\<open>Loops, fuel and bounds\<close>

  Loops over data are recursive functions with a measure. The retry and poll loops, which depend
  on the clock, are partial functions into \<open>option\<close>, and C13 and \<open>driver_on_ch341_returns\<close> show that they return. The
  eight steps of \<open>service_call\<close> are enough because every step moves a call forward in the order of
  its places; \<open>sign_call_spec\<close> and \<open>certificate_ready\<close> show that it returns. The fuel of the
  JSON member loop is the length of the input. Bytes, USB identities and SHA-256 words are
  machine words; the timeout arithmetic wraps at 64 bits; lengths and durations elsewhere are
  bounded by the code far below the word size and are \<open>nat\<close> or \<open>int\<close>.

  \<^bold>\<open>Not modelled\<close>

  Rendering of JSON, HTML and log records to text, the HTML templates, the usage text and the
  messages on the standard error; the connection handling and timeouts of \<^verbatim>\<open>net/http\<close>, signals and the
  network, which appear as a script in \<open>Startup\<close> and as nondeterministic steps in \<open>Lifecycle\<close>; escapes in
  the request path, which \<^verbatim>\<open>http.ServeMux\<close> compares segment by segment, so that a request with an escaped
  slash goes to \<open>fallback\<close> there: \<open>mux\<close> covers the requests whose path has none. In
  particular the closing of the transport falls between driver operations in \<open>Lifecycle\<close>; between the
  transactions of one operation it is covered by \<open>Ch341Conc\<close> alone. The order in which a Go map is
  visited, which is an arbitrary list. In the concurrent models a
  region under \<^verbatim>\<open>sessionMu\<close>, the execution of one stream, a driver operation under the gate, the update of
  the gate with its token and its holder, and the stretch of a handler before or after its service
  call are one step each.

  \<^bold>\<open>What the modelling showed\<close>

  A certificate of more than 26496 bytes is accepted but read from wrapped register numbers (C15). A
  device that the USB library hands out together with an error is never closed (C7). USB identities
  are accepted in upper case although the error message asks for lower case (C28).
\<close>

end
